(* ===== verification/Prelude.thy ===== *)
theory Prelude
  imports Main "HOL-Library.Word" "HOL-Library.Monad_Syntax"
begin

text \<open>
  Shared vocabulary of the development: the integer types of the target (64-bit x86), the byte
  memory that every pointer of the C code refers to, and the two views of memory the component
  theories reason with, namely blocks of bytes (\<open>load\<close>, \<open>store\<close>, \<open>mapped\<close>) and NUL-terminated
  strings (\<open>cstr\<close>).

  Conventions. A pointer is a \<open>nat\<close>, \<open>NULL\<close> is 0. Memory is a partial map from addresses to
  bytes: an access outside its domain is undefined behaviour, and a modelled function that makes
  one returns \<open>None\<close>. Loops that run until they meet a byte (as \<open>strlen\<close> does) are
  \<open>partial_function (option)\<close>, so that \<open>None\<close> also stands for not returning. A C \<open>int\<close> whose
  value the code never lets overflow is a HOL \<open>int\<close>; a plain \<open>char\<close> is signed on the target and
  is read with \<open>sint\<close> where it is promoted.
\<close>

unbundle bit_operations_syntax

section \<open>Integer types\<close>

type_synonym u8 = "8 word"
type_synonym u16 = "16 word"
type_synonym u32 = "32 word"
type_synonym u64 = "64 word"

text \<open>The conversion of a wider integer value to a 32-bit \<open>int\<close>, as gcc and clang define it.\<close>

definition to_int :: "int \<Rightarrow> int" where
  "to_int i = sint (word_of_int i :: u32)"

lemma to_int_id [simp]: "- (2 ^ 31) \<le> i \<Longrightarrow> i < 2 ^ 31 \<Longrightarrow> to_int i = i"
  by (simp add: to_int_def sint_sbintrunc' signed_take_bit_int_eq_self)

lemma uint_inject [simp]: "uint (a :: 'a::len word) = uint b \<longleftrightarrow> a = b"
  by (simp add: word_uint_eq_iff)

lemma sint_inject [simp]: "sint (a :: 'a::len word) = sint b \<longleftrightarrow> a = b"
  by (auto intro: signed_word_eqI)

lemma uint_of_int_id:
  "0 \<le> k \<Longrightarrow> k < 2 ^ LENGTH('a) \<Longrightarrow> uint (word_of_int k :: 'a::len word) = k"
  by (simp add: unsigned_of_int take_bit_int_eq_self)

lemma uint_u64_id: "0 \<le> k \<Longrightarrow> k < 2 ^ 64 \<Longrightarrow> uint (word_of_int k :: u64) = k"
  by (rule uint_of_int_id) simp_all

lemma sint_u64_id: "- (2 ^ 63) \<le> k \<Longrightarrow> k < 2 ^ 63 \<Longrightarrow> sint (word_of_int k :: u64) = k"
  by (simp add: sint_sbintrunc' signed_take_bit_int_eq_self)

lemma sint_u64_uint: "uint (x :: u64) < 2 ^ 63 \<Longrightarrow> sint x = uint x"
proof -
  assume "uint x < 2 ^ 63"
  moreover have "- (2 ^ 63) \<le> uint x" by (rule order_trans[OF _ uint_ge_0]) simp
  ultimately have "sint (word_of_int (uint x) :: u64) = uint x" by (intro sint_u64_id)
  then show ?thesis by simp
qed

lemma uint_u8_bounds: "0 \<le> uint (c :: u8) \<and> uint c < 256"
  using uint_lt2p[of c] by simp

lemma sint_u8: "sint (c :: u8) = (if uint c < 128 then uint c else uint c - 256)"
proof -
  have "sint c = (uint c + 128) mod 256 - 128"
    by (simp add: sint_uint signed_take_bit_eq_take_bit_shift take_bit_eq_mod)
  moreover have "(uint c + 128) mod 256 = uint c - 128" if "128 \<le> uint c"
  proof -
    have "(uint c - 128 + 256) mod 256 = (uint c - 128) mod 256" by (rule mod_add_self2)
    then show ?thesis using that uint_u8_bounds[of c] by (simp add: add.commute)
  qed
  ultimately show ?thesis using uint_u8_bounds[of c] by auto
qed

text \<open>The bytes of a string literal of the source.\<close>

definition lit :: "string \<Rightarrow> u8 list" where
  "lit s = map of_char s"

lemma lit_simps [simp]: "lit [] = []" "lit (c # s) = of_char c # lit s" "length (lit s) = length s"
  by (simp_all add: lit_def)

section \<open>Lists\<close>

lemma dropWhile_drop: "dropWhile P s = drop (length s - length (dropWhile P s)) s"
proof -
  have "length (takeWhile P s) = length s - length (dropWhile P s)"
    using arg_cong[OF takeWhile_dropWhile_id[of P s], of length] unfolding length_append by linarith
  then show ?thesis using dropWhile_eq_drop[of P s] by simp
qed

lemma takeWhile_first:
  assumes "x \<in> set xs" "\<not> P x"
  shows "length (takeWhile P xs) < length xs \<and> \<not> P (xs ! length (takeWhile P xs)) \<and>
    (\<forall>j < length (takeWhile P xs). P (xs ! j))"
  using assms
proof (induction xs)
  case (Cons y xs)
  then show ?case by (auto simp: nth_Cons' less_Suc_eq_0_disj)
qed simp

section \<open>Byte memory\<close>

type_synonym ptr = nat
type_synonym mem = "ptr \<Rightarrow> u8 option"

abbreviation (input) NULL :: ptr where "NULL \<equiv> 0"

definition wr :: "mem \<Rightarrow> ptr \<Rightarrow> u8 \<Rightarrow> mem option" where
  "wr m p b = (case m p of None \<Rightarrow> None | Some _ \<Rightarrow> Some (m(p \<mapsto> b)))"

fun load :: "mem \<Rightarrow> ptr \<Rightarrow> nat \<Rightarrow> u8 list option" where
  "load m p 0 = Some []"
| "load m p (Suc n) = do { b \<leftarrow> m p; bs \<leftarrow> load m (Suc p) n; Some (b # bs) }"

definition store :: "mem \<Rightarrow> ptr \<Rightarrow> u8 list \<Rightarrow> mem" where
  "store m p bs = (\<lambda>q. if p \<le> q \<and> q < p + length bs then Some (bs ! (q - p)) else m q)"

definition mapped :: "mem \<Rightarrow> ptr \<Rightarrow> nat \<Rightarrow> bool" where
  "mapped m p n \<longleftrightarrow> (\<forall>i < n. m (p + i) \<noteq> None)"

text \<open>Two blocks share no byte.\<close>

definition disjnt :: "ptr \<Rightarrow> nat \<Rightarrow> ptr \<Rightarrow> nat \<Rightarrow> bool" where
  "disjnt p n q k \<longleftrightarrow> n = 0 \<or> k = 0 \<or> p + n \<le> q \<or> q + k \<le> p"

text \<open>A NUL-terminated string: the bytes \<open>s\<close>, none of them NUL, and then a NUL.\<close>

primrec cstr :: "mem \<Rightarrow> ptr \<Rightarrow> u8 list \<Rightarrow> bool" where
  "cstr m p [] \<longleftrightarrow> m p = Some 0"
| "cstr m p (c # s) \<longleftrightarrow> m p = Some c \<and> c \<noteq> 0 \<and> cstr m (Suc p) s"

named_theorems mem_simps

lemma wr_mapped [simp]: "m p \<noteq> None \<Longrightarrow> wr m p b = Some (m(p \<mapsto> b))"
  by (auto simp: wr_def split: option.splits)

lemma wr_unmapped [simp]: "m p = None \<Longrightarrow> wr m p b = None"
  by (simp add: wr_def)

lemma wr_Some_iff: "wr m p b = Some m' \<longleftrightarrow> m p \<noteq> None \<and> m' = m(p \<mapsto> b)"
  by (auto simp: wr_def split: option.splits)

subsection \<open>Blocks\<close>

lemma load_iff: "load m p n = Some bs \<longleftrightarrow> length bs = n \<and> (\<forall>i < n. m (p + i) = Some (bs ! i))"
proof (induction n arbitrary: p bs)
  case (Suc n)
  show ?case
  proof (cases bs)
    case (Cons b bs')
    have "(\<forall>i < Suc n. m (p + i) = Some ((b # bs') ! i)) \<longleftrightarrow>
        m p = Some b \<and> (\<forall>i < n. m (Suc p + i) = Some (bs' ! i))"
      by (auto simp: less_Suc_eq_0_disj)
    with Cons Suc.IH[of "Suc p" bs'] show ?thesis
      by (auto simp: bind_eq_Some_conv)
  qed (auto simp: bind_eq_Some_conv)
qed auto

lemma length_load: "load m p n = Some bs \<Longrightarrow> length bs = n"
  by (simp add: load_iff)

lemma load_nth: "load m p n = Some bs \<Longrightarrow> i < n \<Longrightarrow> m (p + i) = Some (bs ! i)"
  by (simp add: load_iff)

lemma mapped_iff_load: "mapped m p n \<longleftrightarrow> (\<exists>bs. load m p n = Some bs)"
proof
  assume "mapped m p n"
  then have "load m p n = Some (map (\<lambda>i. the (m (p + i))) [0..<n])"
    by (auto simp: load_iff mapped_def)
  then show "\<exists>bs. load m p n = Some bs" ..
qed (auto simp: mapped_def load_iff)

lemma mapped_0 [simp]: "mapped m p 0"
  by (simp add: mapped_def)

lemma mapped_Suc: "mapped m p (Suc n) \<longleftrightarrow> m p \<noteq> None \<and> mapped m (Suc p) n"
  by (auto simp: mapped_def less_Suc_eq_0_disj)

lemma mapped_Suc_end: "mapped m p (Suc n) \<longleftrightarrow> mapped m p n \<and> m (p + n) \<noteq> None"
  by (auto simp: mapped_def less_Suc_eq)

lemma mapped_upd [intro]: "mapped m p n \<Longrightarrow> mapped (m(q \<mapsto> b)) p n"
  by (auto simp: mapped_def)

lemma mapped_mono: "mapped m p n \<Longrightarrow> k \<le> n \<Longrightarrow> mapped m p k"
  by (auto simp: mapped_def)

lemma mapped_shift: "mapped m p n \<Longrightarrow> i + k \<le> n \<Longrightarrow> mapped m (p + i) k"
  by (auto simp: mapped_def add.assoc)

lemma mappedD: "mapped m p n \<Longrightarrow> i < n \<Longrightarrow> m (p + i) \<noteq> None"
  by (simp add: mapped_def)

lemma store_Nil [simp, mem_simps]: "store m p [] = m"
  by (rule ext) (auto simp: store_def)

lemma store_Cons: "store m p (b # bs) = store (m(p \<mapsto> b)) (Suc p) bs"
  by (rule ext) (auto simp: store_def nth_Cons' Suc_diff_le not_less le_Suc_eq)

lemma store_snoc: "store m p (bs @ [b]) = (store m p bs)(p + length bs \<mapsto> b)"
  by (rule ext) (auto simp: store_def nth_append)

lemma store_upd_before: "q < p \<Longrightarrow> store (m(q \<mapsto> b)) p bs = (store m p bs)(q \<mapsto> b)"
  by (rule ext) (auto simp: store_def)

lemma store_upd_after: "p + length bs \<le> q \<Longrightarrow> store (m(q \<mapsto> b)) p bs = (store m p bs)(q \<mapsto> b)"
  by (rule ext) (auto simp: store_def)

lemma store_append: "store m p (bs @ cs) = store (store m p bs) (p + length bs) cs"
  by (rule ext) (auto simp: store_def nth_append)

lemma store_store_same: "length bs = length cs \<Longrightarrow> store (store m p bs) p cs = store m p cs"
  by (rule ext) (auto simp: store_def)

lemma store_outside [mem_simps]: "q < p \<or> p + length bs \<le> q \<Longrightarrow> store m p bs q = m q"
  by (auto simp: store_def)

lemma store_inside [mem_simps]: "i < length bs \<Longrightarrow> store m p bs (p + i) = Some (bs ! i)"
  by (simp add: store_def)

lemma mapped_store [intro]: "mapped m p n \<Longrightarrow> mapped (store m q bs) p n"
  by (auto simp: mapped_def store_def)

lemma load_store_same [mem_simps]: "load (store m p bs) p (length bs) = Some bs"
  by (simp add: load_iff store_inside)

lemma load_cong: "(\<And>i. i < n \<Longrightarrow> m (p + i) = m' (p + i)) \<Longrightarrow> load m p n = load m' p n"
proof (induction n arbitrary: p)
  case (Suc n)
  from Suc.prems[of 0] have "m p = m' p" by simp
  moreover have "load m (Suc p) n = load m' (Suc p) n"
    using Suc.prems[of "Suc i" for i] by (intro Suc.IH) simp
  ultimately show ?case by simp
qed simp

lemma load_store_disjnt [mem_simps]:
  "disjnt p n q (length bs) \<Longrightarrow> load (store m q bs) p n = load m p n"
  by (rule load_cong) (auto simp: disjnt_def store_def)

lemma load_upd_other: "q < p \<or> p + n \<le> q \<Longrightarrow> load (m(q \<mapsto> b)) p n = load m p n"
  by (rule load_cong) auto

lemma load_append:
  "load m p (n + k) = do { bs \<leftarrow> load m p n; cs \<leftarrow> load m (p + n) k; Some (bs @ cs) }"
  by (induction n arbitrary: p) (auto split: Option.bind_splits)

lemma load_Suc_end:
  "load m p (Suc n) = Some bs \<longleftrightarrow>
   (\<exists>bs' b. load m p n = Some bs' \<and> m (p + n) = Some b \<and> bs = bs' @ [b])"
proof -
  have one: "load m q (Suc 0) = do { b \<leftarrow> m q; Some [b] }" for q
    by simp
  have "load m p (Suc n) = do { bs \<leftarrow> load m p n; b \<leftarrow> m (p + n); Some (bs @ [b]) }"
    using load_append[of m p n "Suc 0"]
    by (cases "load m p n"; cases "m (p + n)")
      (simp_all only: add_Suc_right add_0_right one Option.bind.simps)
  then show ?thesis
    by (auto simp only: bind_eq_Some_conv)
qed

lemma disjnt_sym: "disjnt p n q k \<longleftrightarrow> disjnt q k p n"
  by (auto simp: disjnt_def)

lemma disjnt_sub: "disjnt p n q k \<Longrightarrow> p \<le> p' \<Longrightarrow> p' + n' \<le> p + n \<Longrightarrow> disjnt p' n' q k"
  by (auto simp: disjnt_def)

subsection \<open>Strings\<close>

lemma cstr_iff:
  "cstr m p s \<longleftrightarrow> 0 \<notin> set s \<and> load m p (length s) = Some s \<and> m (p + length s) = Some 0"
  by (induction s arbitrary: p) (auto simp: bind_eq_Some_conv)

lemma cstr_no_nul: "cstr m p s \<Longrightarrow> 0 \<notin> set s"
  by (simp add: cstr_iff)

lemma cstr_load: "cstr m p s \<Longrightarrow> load m p (Suc (length s)) = Some (s @ [0])"
  by (simp add: load_iff cstr_iff nth_append less_Suc_eq del: load.simps)

lemma cstr_nth: "cstr m p s \<Longrightarrow> i < length s \<Longrightarrow> m (p + i) = Some (s ! i)"
  by (simp add: cstr_iff load_iff)

lemma cstr_end: "cstr m p s \<Longrightarrow> m (p + length s) = Some 0"
  by (simp add: cstr_iff)

lemma cstr_drop: "cstr m p s \<Longrightarrow> i \<le> length s \<Longrightarrow> cstr m (p + i) (drop i s)"
proof (induction s arbitrary: p i)
  case (Cons c s)
  then show ?case
    using Cons.IH[of "Suc p" "i - 1"] by (cases i) auto
qed simp

lemma cstr_append: "cstr m p (s @ t) \<longleftrightarrow> 0 \<notin> set s \<and> load m p (length s) = Some s \<and> cstr m (p + length s) t"
  by (induction s arbitrary: p) (auto simp: bind_eq_Some_conv)

lemma cstr_unique: "cstr m p s \<Longrightarrow> cstr m p t \<Longrightarrow> s = t"
proof (induction s arbitrary: p t)
  case Nil
  then show ?case by (cases t) auto
next
  case (Cons c s)
  then show ?case by (cases t) auto
qed

lemma cstr_cong:
  "cstr m p s \<Longrightarrow> (\<And>i. i \<le> length s \<Longrightarrow> m' (p + i) = m (p + i)) \<Longrightarrow> cstr m' p s"
  by (auto simp: cstr_iff load_iff)

lemma cstr_store_disjnt [mem_simps]:
  "cstr m p s \<Longrightarrow> disjnt p (Suc (length s)) q (length bs) \<Longrightarrow> cstr (store m q bs) p s"
  by (erule cstr_cong) (auto simp: disjnt_def store_def)

lemma cstr_store_same: "0 \<notin> set s \<Longrightarrow> cstr (store m p (s @ [0])) p s"
  by (auto simp: cstr_iff load_iff store_def nth_append)

lemma cstr_mapped: "cstr m p s \<Longrightarrow> mapped m p (Suc (length s))"
  by (auto simp: mapped_iff_load dest: cstr_load)

lemma mapped_ptr_inside:
  "mapped m p n \<Longrightarrow> p \<le> q \<Longrightarrow> q < p + n \<Longrightarrow> m q \<noteq> None"
  using mappedD[of m p n "q - p"] by auto

lemma dom_store: "mapped m p (length bs) \<Longrightarrow> dom (store m p bs) = dom m"
  using mapped_ptr_inside[of m p "length bs"] by (auto simp: store_def split: if_splits)

text \<open>A memory that holds only the given bytes, or the given string, at an address.\<close>

definition bytes_at :: "ptr \<Rightarrow> u8 list \<Rightarrow> mem" where
  "bytes_at p bs = store (\<lambda>_. None) p bs"

definition string_at :: "ptr \<Rightarrow> string \<Rightarrow> mem" where
  "string_at p s = bytes_at p (lit s @ [0])"

lemma cstr_string_at: "0 \<notin> set (lit s) \<Longrightarrow> cstr (string_at p s) p (lit s)"
  by (simp add: string_at_def bytes_at_def cstr_store_same)

end
