(* ===== verification/Ctype.thy ===== *)
theory Ctype
  imports Prelude
begin

text \<open>
  \<open>c/ctype.c\<close> and \<open>c/include/ctype.h\<close>: the table of 256 flag words and the macros that test a
  flag or change the case of a character. The table is transcribed entry by entry; the lemmas show
  that each class is the ASCII range (or union of ranges) C gives it in the "C" locale, for every
  \<open>int\<close> argument, the negative values of a signed \<open>char\<close> included.
\<close>

section \<open>The flags and the table\<close>

definition NNLC_ISALNUM :: u16 where "NNLC_ISALNUM = 0x1"
definition NNLC_ISALPHA :: u16 where "NNLC_ISALPHA = 0x2"
definition NNLC_ISASCII :: u16 where "NNLC_ISASCII = 0x4"
definition NNLC_ISBLANK :: u16 where "NNLC_ISBLANK = 0x8"
definition NNLC_ISCNTRL :: u16 where "NNLC_ISCNTRL = 0x10"
definition NNLC_ISDIGIT :: u16 where "NNLC_ISDIGIT = 0x20"
definition NNLC_ISGRAPH :: u16 where "NNLC_ISGRAPH = 0x40"
definition NNLC_ISLOWER :: u16 where "NNLC_ISLOWER = 0x80"
definition NNLC_ISPRINT :: u16 where "NNLC_ISPRINT = 0x100"
definition NNLC_ISPUNCT :: u16 where "NNLC_ISPUNCT = 0x200"
definition NNLC_ISSPACE :: u16 where "NNLC_ISSPACE = 0x400"
definition NNLC_ISUPPER :: u16 where "NNLC_ISUPPER = 0x800"
definition NNLC_ISXDIGIT :: u16 where "NNLC_ISXDIGIT = 0x1000"

lemmas nnlc_flags =
  NNLC_ISALNUM_def NNLC_ISALPHA_def NNLC_ISASCII_def NNLC_ISBLANK_def NNLC_ISCNTRL_def NNLC_ISDIGIT_def NNLC_ISGRAPH_def NNLC_ISLOWER_def NNLC_ISPRINT_def NNLC_ISPUNCT_def NNLC_ISSPACE_def NNLC_ISUPPER_def NNLC_ISXDIGIT_def

definition nnlc_ctype_table :: "u16 list" where
  "nnlc_ctype_table = [
    NNLC_ISASCII OR NNLC_ISCNTRL,
    NNLC_ISASCII OR NNLC_ISCNTRL,
    NNLC_ISASCII OR NNLC_ISCNTRL,
    NNLC_ISASCII OR NNLC_ISCNTRL,
    NNLC_ISASCII OR NNLC_ISCNTRL,
    NNLC_ISASCII OR NNLC_ISCNTRL,
    NNLC_ISASCII OR NNLC_ISCNTRL,
    NNLC_ISASCII OR NNLC_ISCNTRL,
    NNLC_ISASCII OR NNLC_ISCNTRL,
    NNLC_ISASCII OR NNLC_ISBLANK OR NNLC_ISCNTRL OR NNLC_ISSPACE,
    NNLC_ISASCII OR NNLC_ISCNTRL OR NNLC_ISSPACE,
    NNLC_ISASCII OR NNLC_ISCNTRL OR NNLC_ISSPACE,
    NNLC_ISASCII OR NNLC_ISCNTRL OR NNLC_ISSPACE,
    NNLC_ISASCII OR NNLC_ISCNTRL OR NNLC_ISSPACE,
    NNLC_ISASCII OR NNLC_ISCNTRL,
    NNLC_ISASCII OR NNLC_ISCNTRL,
    NNLC_ISASCII OR NNLC_ISCNTRL,
    NNLC_ISASCII OR NNLC_ISCNTRL,
    NNLC_ISASCII OR NNLC_ISCNTRL,
    NNLC_ISASCII OR NNLC_ISCNTRL,
    NNLC_ISASCII OR NNLC_ISCNTRL,
    NNLC_ISASCII OR NNLC_ISCNTRL,
    NNLC_ISASCII OR NNLC_ISCNTRL,
    NNLC_ISASCII OR NNLC_ISCNTRL,
    NNLC_ISASCII OR NNLC_ISCNTRL,
    NNLC_ISASCII OR NNLC_ISCNTRL,
    NNLC_ISASCII OR NNLC_ISCNTRL,
    NNLC_ISASCII OR NNLC_ISCNTRL,
    NNLC_ISASCII OR NNLC_ISCNTRL,
    NNLC_ISASCII OR NNLC_ISCNTRL,
    NNLC_ISASCII OR NNLC_ISCNTRL,
    NNLC_ISASCII OR NNLC_ISCNTRL,
    NNLC_ISASCII OR NNLC_ISBLANK OR NNLC_ISPRINT OR NNLC_ISSPACE,
    NNLC_ISASCII OR NNLC_ISGRAPH OR NNLC_ISPRINT OR NNLC_ISPUNCT,
    NNLC_ISASCII OR NNLC_ISGRAPH OR NNLC_ISPRINT OR NNLC_ISPUNCT,
    NNLC_ISASCII OR NNLC_ISGRAPH OR NNLC_ISPRINT OR NNLC_ISPUNCT,
    NNLC_ISASCII OR NNLC_ISGRAPH OR NNLC_ISPRINT OR NNLC_ISPUNCT,
    NNLC_ISASCII OR NNLC_ISGRAPH OR NNLC_ISPRINT OR NNLC_ISPUNCT,
    NNLC_ISASCII OR NNLC_ISGRAPH OR NNLC_ISPRINT OR NNLC_ISPUNCT,
    NNLC_ISASCII OR NNLC_ISGRAPH OR NNLC_ISPRINT OR NNLC_ISPUNCT,
    NNLC_ISASCII OR NNLC_ISGRAPH OR NNLC_ISPRINT OR NNLC_ISPUNCT,
    NNLC_ISASCII OR NNLC_ISGRAPH OR NNLC_ISPRINT OR NNLC_ISPUNCT,
    NNLC_ISASCII OR NNLC_ISGRAPH OR NNLC_ISPRINT OR NNLC_ISPUNCT,
    NNLC_ISASCII OR NNLC_ISGRAPH OR NNLC_ISPRINT OR NNLC_ISPUNCT,
    NNLC_ISASCII OR NNLC_ISGRAPH OR NNLC_ISPRINT OR NNLC_ISPUNCT,
    NNLC_ISASCII OR NNLC_ISGRAPH OR NNLC_ISPRINT OR NNLC_ISPUNCT,
    NNLC_ISASCII OR NNLC_ISGRAPH OR NNLC_ISPRINT OR NNLC_ISPUNCT,
    NNLC_ISASCII OR NNLC_ISGRAPH OR NNLC_ISPRINT OR NNLC_ISPUNCT,
    NNLC_ISALNUM OR NNLC_ISASCII OR NNLC_ISDIGIT OR NNLC_ISGRAPH OR NNLC_ISPRINT OR NNLC_ISXDIGIT,
    NNLC_ISALNUM OR NNLC_ISASCII OR NNLC_ISDIGIT OR NNLC_ISGRAPH OR NNLC_ISPRINT OR NNLC_ISXDIGIT,
    NNLC_ISALNUM OR NNLC_ISASCII OR NNLC_ISDIGIT OR NNLC_ISGRAPH OR NNLC_ISPRINT OR NNLC_ISXDIGIT,
    NNLC_ISALNUM OR NNLC_ISASCII OR NNLC_ISDIGIT OR NNLC_ISGRAPH OR NNLC_ISPRINT OR NNLC_ISXDIGIT,
    NNLC_ISALNUM OR NNLC_ISASCII OR NNLC_ISDIGIT OR NNLC_ISGRAPH OR NNLC_ISPRINT OR NNLC_ISXDIGIT,
    NNLC_ISALNUM OR NNLC_ISASCII OR NNLC_ISDIGIT OR NNLC_ISGRAPH OR NNLC_ISPRINT OR NNLC_ISXDIGIT,
    NNLC_ISALNUM OR NNLC_ISASCII OR NNLC_ISDIGIT OR NNLC_ISGRAPH OR NNLC_ISPRINT OR NNLC_ISXDIGIT,
    NNLC_ISALNUM OR NNLC_ISASCII OR NNLC_ISDIGIT OR NNLC_ISGRAPH OR NNLC_ISPRINT OR NNLC_ISXDIGIT,
    NNLC_ISALNUM OR NNLC_ISASCII OR NNLC_ISDIGIT OR NNLC_ISGRAPH OR NNLC_ISPRINT OR NNLC_ISXDIGIT,
    NNLC_ISALNUM OR NNLC_ISASCII OR NNLC_ISDIGIT OR NNLC_ISGRAPH OR NNLC_ISPRINT OR NNLC_ISXDIGIT,
    NNLC_ISASCII OR NNLC_ISGRAPH OR NNLC_ISPRINT OR NNLC_ISPUNCT,
    NNLC_ISASCII OR NNLC_ISGRAPH OR NNLC_ISPRINT OR NNLC_ISPUNCT,
    NNLC_ISASCII OR NNLC_ISGRAPH OR NNLC_ISPRINT OR NNLC_ISPUNCT,
    NNLC_ISASCII OR NNLC_ISGRAPH OR NNLC_ISPRINT OR NNLC_ISPUNCT,
    NNLC_ISASCII OR NNLC_ISGRAPH OR NNLC_ISPRINT OR NNLC_ISPUNCT,
    NNLC_ISASCII OR NNLC_ISGRAPH OR NNLC_ISPRINT OR NNLC_ISPUNCT,
    NNLC_ISASCII OR NNLC_ISGRAPH OR NNLC_ISPRINT OR NNLC_ISPUNCT,
    NNLC_ISALNUM OR NNLC_ISALPHA OR NNLC_ISASCII OR NNLC_ISGRAPH OR NNLC_ISPRINT OR NNLC_ISUPPER OR NNLC_ISXDIGIT,
    NNLC_ISALNUM OR NNLC_ISALPHA OR NNLC_ISASCII OR NNLC_ISGRAPH OR NNLC_ISPRINT OR NNLC_ISUPPER OR NNLC_ISXDIGIT,
    NNLC_ISALNUM OR NNLC_ISALPHA OR NNLC_ISASCII OR NNLC_ISGRAPH OR NNLC_ISPRINT OR NNLC_ISUPPER OR NNLC_ISXDIGIT,
    NNLC_ISALNUM OR NNLC_ISALPHA OR NNLC_ISASCII OR NNLC_ISGRAPH OR NNLC_ISPRINT OR NNLC_ISUPPER OR NNLC_ISXDIGIT,
    NNLC_ISALNUM OR NNLC_ISALPHA OR NNLC_ISASCII OR NNLC_ISGRAPH OR NNLC_ISPRINT OR NNLC_ISUPPER OR NNLC_ISXDIGIT,
    NNLC_ISALNUM OR NNLC_ISALPHA OR NNLC_ISASCII OR NNLC_ISGRAPH OR NNLC_ISPRINT OR NNLC_ISUPPER OR NNLC_ISXDIGIT,
    NNLC_ISALNUM OR NNLC_ISALPHA OR NNLC_ISASCII OR NNLC_ISGRAPH OR NNLC_ISPRINT OR NNLC_ISUPPER,
    NNLC_ISALNUM OR NNLC_ISALPHA OR NNLC_ISASCII OR NNLC_ISGRAPH OR NNLC_ISPRINT OR NNLC_ISUPPER,
    NNLC_ISALNUM OR NNLC_ISALPHA OR NNLC_ISASCII OR NNLC_ISGRAPH OR NNLC_ISPRINT OR NNLC_ISUPPER,
    NNLC_ISALNUM OR NNLC_ISALPHA OR NNLC_ISASCII OR NNLC_ISGRAPH OR NNLC_ISPRINT OR NNLC_ISUPPER,
    NNLC_ISALNUM OR NNLC_ISALPHA OR NNLC_ISASCII OR NNLC_ISGRAPH OR NNLC_ISPRINT OR NNLC_ISUPPER,
    NNLC_ISALNUM OR NNLC_ISALPHA OR NNLC_ISASCII OR NNLC_ISGRAPH OR NNLC_ISPRINT OR NNLC_ISUPPER,
    NNLC_ISALNUM OR NNLC_ISALPHA OR NNLC_ISASCII OR NNLC_ISGRAPH OR NNLC_ISPRINT OR NNLC_ISUPPER,
    NNLC_ISALNUM OR NNLC_ISALPHA OR NNLC_ISASCII OR NNLC_ISGRAPH OR NNLC_ISPRINT OR NNLC_ISUPPER,
    NNLC_ISALNUM OR NNLC_ISALPHA OR NNLC_ISASCII OR NNLC_ISGRAPH OR NNLC_ISPRINT OR NNLC_ISUPPER,
    NNLC_ISALNUM OR NNLC_ISALPHA OR NNLC_ISASCII OR NNLC_ISGRAPH OR NNLC_ISPRINT OR NNLC_ISUPPER,
    NNLC_ISALNUM OR NNLC_ISALPHA OR NNLC_ISASCII OR NNLC_ISGRAPH OR NNLC_ISPRINT OR NNLC_ISUPPER,
    NNLC_ISALNUM OR NNLC_ISALPHA OR NNLC_ISASCII OR NNLC_ISGRAPH OR NNLC_ISPRINT OR NNLC_ISUPPER,
    NNLC_ISALNUM OR NNLC_ISALPHA OR NNLC_ISASCII OR NNLC_ISGRAPH OR NNLC_ISPRINT OR NNLC_ISUPPER,
    NNLC_ISALNUM OR NNLC_ISALPHA OR NNLC_ISASCII OR NNLC_ISGRAPH OR NNLC_ISPRINT OR NNLC_ISUPPER,
    NNLC_ISALNUM OR NNLC_ISALPHA OR NNLC_ISASCII OR NNLC_ISGRAPH OR NNLC_ISPRINT OR NNLC_ISUPPER,
    NNLC_ISALNUM OR NNLC_ISALPHA OR NNLC_ISASCII OR NNLC_ISGRAPH OR NNLC_ISPRINT OR NNLC_ISUPPER,
    NNLC_ISALNUM OR NNLC_ISALPHA OR NNLC_ISASCII OR NNLC_ISGRAPH OR NNLC_ISPRINT OR NNLC_ISUPPER,
    NNLC_ISALNUM OR NNLC_ISALPHA OR NNLC_ISASCII OR NNLC_ISGRAPH OR NNLC_ISPRINT OR NNLC_ISUPPER,
    NNLC_ISALNUM OR NNLC_ISALPHA OR NNLC_ISASCII OR NNLC_ISGRAPH OR NNLC_ISPRINT OR NNLC_ISUPPER,
    NNLC_ISALNUM OR NNLC_ISALPHA OR NNLC_ISASCII OR NNLC_ISGRAPH OR NNLC_ISPRINT OR NNLC_ISUPPER,
    NNLC_ISASCII OR NNLC_ISGRAPH OR NNLC_ISPRINT OR NNLC_ISPUNCT,
    NNLC_ISASCII OR NNLC_ISGRAPH OR NNLC_ISPRINT OR NNLC_ISPUNCT,
    NNLC_ISASCII OR NNLC_ISGRAPH OR NNLC_ISPRINT OR NNLC_ISPUNCT,
    NNLC_ISASCII OR NNLC_ISGRAPH OR NNLC_ISPRINT OR NNLC_ISPUNCT,
    NNLC_ISASCII OR NNLC_ISGRAPH OR NNLC_ISPRINT OR NNLC_ISPUNCT,
    NNLC_ISASCII OR NNLC_ISGRAPH OR NNLC_ISPRINT OR NNLC_ISPUNCT,
    NNLC_ISALNUM OR NNLC_ISALPHA OR NNLC_ISASCII OR NNLC_ISGRAPH OR NNLC_ISLOWER OR NNLC_ISPRINT OR NNLC_ISXDIGIT,
    NNLC_ISALNUM OR NNLC_ISALPHA OR NNLC_ISASCII OR NNLC_ISGRAPH OR NNLC_ISLOWER OR NNLC_ISPRINT OR NNLC_ISXDIGIT,
    NNLC_ISALNUM OR NNLC_ISALPHA OR NNLC_ISASCII OR NNLC_ISGRAPH OR NNLC_ISLOWER OR NNLC_ISPRINT OR NNLC_ISXDIGIT,
    NNLC_ISALNUM OR NNLC_ISALPHA OR NNLC_ISASCII OR NNLC_ISGRAPH OR NNLC_ISLOWER OR NNLC_ISPRINT OR NNLC_ISXDIGIT,
    NNLC_ISALNUM OR NNLC_ISALPHA OR NNLC_ISASCII OR NNLC_ISGRAPH OR NNLC_ISLOWER OR NNLC_ISPRINT OR NNLC_ISXDIGIT,
    NNLC_ISALNUM OR NNLC_ISALPHA OR NNLC_ISASCII OR NNLC_ISGRAPH OR NNLC_ISLOWER OR NNLC_ISPRINT OR NNLC_ISXDIGIT,
    NNLC_ISALNUM OR NNLC_ISALPHA OR NNLC_ISASCII OR NNLC_ISGRAPH OR NNLC_ISLOWER OR NNLC_ISPRINT,
    NNLC_ISALNUM OR NNLC_ISALPHA OR NNLC_ISASCII OR NNLC_ISGRAPH OR NNLC_ISLOWER OR NNLC_ISPRINT,
    NNLC_ISALNUM OR NNLC_ISALPHA OR NNLC_ISASCII OR NNLC_ISGRAPH OR NNLC_ISLOWER OR NNLC_ISPRINT,
    NNLC_ISALNUM OR NNLC_ISALPHA OR NNLC_ISASCII OR NNLC_ISGRAPH OR NNLC_ISLOWER OR NNLC_ISPRINT,
    NNLC_ISALNUM OR NNLC_ISALPHA OR NNLC_ISASCII OR NNLC_ISGRAPH OR NNLC_ISLOWER OR NNLC_ISPRINT,
    NNLC_ISALNUM OR NNLC_ISALPHA OR NNLC_ISASCII OR NNLC_ISGRAPH OR NNLC_ISLOWER OR NNLC_ISPRINT,
    NNLC_ISALNUM OR NNLC_ISALPHA OR NNLC_ISASCII OR NNLC_ISGRAPH OR NNLC_ISLOWER OR NNLC_ISPRINT,
    NNLC_ISALNUM OR NNLC_ISALPHA OR NNLC_ISASCII OR NNLC_ISGRAPH OR NNLC_ISLOWER OR NNLC_ISPRINT,
    NNLC_ISALNUM OR NNLC_ISALPHA OR NNLC_ISASCII OR NNLC_ISGRAPH OR NNLC_ISLOWER OR NNLC_ISPRINT,
    NNLC_ISALNUM OR NNLC_ISALPHA OR NNLC_ISASCII OR NNLC_ISGRAPH OR NNLC_ISLOWER OR NNLC_ISPRINT,
    NNLC_ISALNUM OR NNLC_ISALPHA OR NNLC_ISASCII OR NNLC_ISGRAPH OR NNLC_ISLOWER OR NNLC_ISPRINT,
    NNLC_ISALNUM OR NNLC_ISALPHA OR NNLC_ISASCII OR NNLC_ISGRAPH OR NNLC_ISLOWER OR NNLC_ISPRINT,
    NNLC_ISALNUM OR NNLC_ISALPHA OR NNLC_ISASCII OR NNLC_ISGRAPH OR NNLC_ISLOWER OR NNLC_ISPRINT,
    NNLC_ISALNUM OR NNLC_ISALPHA OR NNLC_ISASCII OR NNLC_ISGRAPH OR NNLC_ISLOWER OR NNLC_ISPRINT,
    NNLC_ISALNUM OR NNLC_ISALPHA OR NNLC_ISASCII OR NNLC_ISGRAPH OR NNLC_ISLOWER OR NNLC_ISPRINT,
    NNLC_ISALNUM OR NNLC_ISALPHA OR NNLC_ISASCII OR NNLC_ISGRAPH OR NNLC_ISLOWER OR NNLC_ISPRINT,
    NNLC_ISALNUM OR NNLC_ISALPHA OR NNLC_ISASCII OR NNLC_ISGRAPH OR NNLC_ISLOWER OR NNLC_ISPRINT,
    NNLC_ISALNUM OR NNLC_ISALPHA OR NNLC_ISASCII OR NNLC_ISGRAPH OR NNLC_ISLOWER OR NNLC_ISPRINT,
    NNLC_ISALNUM OR NNLC_ISALPHA OR NNLC_ISASCII OR NNLC_ISGRAPH OR NNLC_ISLOWER OR NNLC_ISPRINT,
    NNLC_ISALNUM OR NNLC_ISALPHA OR NNLC_ISASCII OR NNLC_ISGRAPH OR NNLC_ISLOWER OR NNLC_ISPRINT,
    NNLC_ISASCII OR NNLC_ISGRAPH OR NNLC_ISPRINT OR NNLC_ISPUNCT,
    NNLC_ISASCII OR NNLC_ISGRAPH OR NNLC_ISPRINT OR NNLC_ISPUNCT,
    NNLC_ISASCII OR NNLC_ISGRAPH OR NNLC_ISPRINT OR NNLC_ISPUNCT,
    NNLC_ISASCII OR NNLC_ISGRAPH OR NNLC_ISPRINT OR NNLC_ISPUNCT,
    NNLC_ISASCII OR NNLC_ISCNTRL
  ] @ replicate 128 0"

section \<open>The macros\<close>

definition ctype_test :: "u16 \<Rightarrow> int \<Rightarrow> bool" where
  "ctype_test flag c \<longleftrightarrow> (nnlc_ctype_table ! unat (0xff AND (word_of_int c :: u8))) AND flag \<noteq> 0"

definition isalnum :: "int \<Rightarrow> bool" where "isalnum c = ctype_test NNLC_ISALNUM c"
definition isalpha :: "int \<Rightarrow> bool" where "isalpha c = ctype_test NNLC_ISALPHA c"
definition isascii :: "int \<Rightarrow> bool" where "isascii c = ctype_test NNLC_ISASCII c"
definition isblank :: "int \<Rightarrow> bool" where "isblank c = ctype_test NNLC_ISBLANK c"
definition iscntrl :: "int \<Rightarrow> bool" where "iscntrl c = ctype_test NNLC_ISCNTRL c"
definition isdigit :: "int \<Rightarrow> bool" where "isdigit c = ctype_test NNLC_ISDIGIT c"
definition isgraph :: "int \<Rightarrow> bool" where "isgraph c = ctype_test NNLC_ISGRAPH c"
definition islower :: "int \<Rightarrow> bool" where "islower c = ctype_test NNLC_ISLOWER c"
definition isprint :: "int \<Rightarrow> bool" where "isprint c = ctype_test NNLC_ISPRINT c"
definition ispunct :: "int \<Rightarrow> bool" where "ispunct c = ctype_test NNLC_ISPUNCT c"
definition isspace :: "int \<Rightarrow> bool" where "isspace c = ctype_test NNLC_ISSPACE c"
definition isupper :: "int \<Rightarrow> bool" where "isupper c = ctype_test NNLC_ISUPPER c"
definition isxdigit :: "int \<Rightarrow> bool" where "isxdigit c = ctype_test NNLC_ISXDIGIT c"

lemmas ctype_macros =
  isalnum_def isalpha_def isascii_def isblank_def iscntrl_def isdigit_def isgraph_def islower_def isprint_def ispunct_def isspace_def isupper_def isxdigit_def

definition tolower :: "int \<Rightarrow> int" where
  "tolower c = (let nnlc_ctype_temp = c in
     if isupper nnlc_ctype_temp then nnlc_ctype_temp - 65 + 97 else nnlc_ctype_temp)"

definition toupper :: "int \<Rightarrow> int" where
  "toupper c = (let nnlc_ctype_temp = c in
     if islower nnlc_ctype_temp then nnlc_ctype_temp - 97 + 65 else nnlc_ctype_temp)"

definition toascii :: "int \<Rightarrow> int" where
  "toascii c = c AND 0x7f"

section \<open>The classes are the ASCII ranges\<close>

text \<open>The index the macros compute is the low byte of the argument.\<close>

lemma ctype_index: "unat (0xff AND (word_of_int c :: u8)) = nat (c mod 256)"
proof -
  have "(0xff :: u8) = - 1"
    by simp
  then have "0xff AND (word_of_int c :: u8) = word_of_int c"
    by (simp only: and.left_neutral)
  then show ?thesis
    by (simp add: unsigned_of_int take_bit_eq_mod nat_mod_distrib)
qed

lemma ctype_test_by_table:
  assumes "map (\<lambda>w. w AND flag \<noteq> 0) nnlc_ctype_table = map P [0..<256]"
  shows "ctype_test flag c \<longleftrightarrow> P (nat (c mod 256))"
proof -
  define k where "k = nat (c mod 256)"
  have k: "k < 256" by (simp add: k_def nat_less_iff)
  have len: "length nnlc_ctype_table = 256"
    using arg_cong[OF assms, of length] by simp
  have "map (\<lambda>w. w AND flag \<noteq> 0) nnlc_ctype_table ! k = map P [0..<256] ! k"
    using assms by simp
  with k len show ?thesis
    by (simp add: ctype_test_def ctype_index k_def)
qed

text \<open>The mathematical description of a class: its low and high bounds.\<close>

definition between :: "nat \<Rightarrow> nat \<Rightarrow> nat \<Rightarrow> bool" where
  "between lo hi k \<longleftrightarrow> lo \<le> k \<and> k \<le> hi"

lemma between_nat: "between lo hi (nat (c mod 256)) \<longleftrightarrow> int lo \<le> c mod 256 \<and> c mod 256 \<le> int hi"
  by (auto simp: between_def nat_le_iff le_nat_iff)

lemmas ctype_by_eval = ctype_macros ctype_test_by_table between_nat

lemma isdigit_iff: "isdigit c \<longleftrightarrow> 48 \<le> c mod 256 \<and> c mod 256 \<le> 57"
proof -
  have "map (\<lambda>w. w AND NNLC_ISDIGIT \<noteq> 0) nnlc_ctype_table = map (\<lambda>k. between 48 57 k) [0..<256]"
    by code_simp
  from ctype_test_by_table[OF this, of c] show ?thesis
    by (auto simp: isdigit_def between_nat)
qed

lemma islower_iff: "islower c \<longleftrightarrow> 97 \<le> c mod 256 \<and> c mod 256 \<le> 122"
proof -
  have "map (\<lambda>w. w AND NNLC_ISLOWER \<noteq> 0) nnlc_ctype_table = map (\<lambda>k. between 97 122 k) [0..<256]"
    by code_simp
  from ctype_test_by_table[OF this, of c] show ?thesis
    by (auto simp: islower_def between_nat)
qed

lemma isupper_iff: "isupper c \<longleftrightarrow> 65 \<le> c mod 256 \<and> c mod 256 \<le> 90"
proof -
  have "map (\<lambda>w. w AND NNLC_ISUPPER \<noteq> 0) nnlc_ctype_table = map (\<lambda>k. between 65 90 k) [0..<256]"
    by code_simp
  from ctype_test_by_table[OF this, of c] show ?thesis
    by (auto simp: isupper_def between_nat)
qed

lemma isalpha_iff: "isalpha c \<longleftrightarrow> 65 \<le> c mod 256 \<and> c mod 256 \<le> 90 \<or> 97 \<le> c mod 256 \<and> c mod 256 \<le> 122"
proof -
  have "map (\<lambda>w. w AND NNLC_ISALPHA \<noteq> 0) nnlc_ctype_table = map (\<lambda>k. between 65 90 k \<or> between 97 122 k) [0..<256]"
    by code_simp
  from ctype_test_by_table[OF this, of c] show ?thesis
    by (auto simp: isalpha_def between_nat)
qed

lemma isalnum_iff: "isalnum c \<longleftrightarrow> 48 \<le> c mod 256 \<and> c mod 256 \<le> 57 \<or> 65 \<le> c mod 256 \<and> c mod 256 \<le> 90 \<or> 97 \<le> c mod 256 \<and> c mod 256 \<le> 122"
proof -
  have "map (\<lambda>w. w AND NNLC_ISALNUM \<noteq> 0) nnlc_ctype_table = map (\<lambda>k. between 48 57 k \<or> between 65 90 k \<or> between 97 122 k) [0..<256]"
    by code_simp
  from ctype_test_by_table[OF this, of c] show ?thesis
    by (auto simp: isalnum_def between_nat)
qed

lemma isxdigit_iff: "isxdigit c \<longleftrightarrow> 48 \<le> c mod 256 \<and> c mod 256 \<le> 57 \<or> 65 \<le> c mod 256 \<and> c mod 256 \<le> 70 \<or> 97 \<le> c mod 256 \<and> c mod 256 \<le> 102"
proof -
  have "map (\<lambda>w. w AND NNLC_ISXDIGIT \<noteq> 0) nnlc_ctype_table = map (\<lambda>k. between 48 57 k \<or> between 65 70 k \<or> between 97 102 k) [0..<256]"
    by code_simp
  from ctype_test_by_table[OF this, of c] show ?thesis
    by (auto simp: isxdigit_def between_nat)
qed

lemma isspace_iff: "isspace c \<longleftrightarrow> 9 \<le> c mod 256 \<and> c mod 256 \<le> 13 \<or> c mod 256 = 32"
proof -
  have "map (\<lambda>w. w AND NNLC_ISSPACE \<noteq> 0) nnlc_ctype_table = map (\<lambda>k. between 9 13 k \<or> between 32 32 k) [0..<256]"
    by code_simp
  from ctype_test_by_table[OF this, of c] show ?thesis
    by (auto simp: isspace_def between_nat)
qed

lemma isblank_iff: "isblank c \<longleftrightarrow> c mod 256 = 9 \<or> c mod 256 = 32"
proof -
  have "map (\<lambda>w. w AND NNLC_ISBLANK \<noteq> 0) nnlc_ctype_table = map (\<lambda>k. between 9 9 k \<or> between 32 32 k) [0..<256]"
    by code_simp
  from ctype_test_by_table[OF this, of c] show ?thesis
    by (auto simp: isblank_def between_nat)
qed

lemma iscntrl_iff: "iscntrl c \<longleftrightarrow> c mod 256 \<le> 31 \<or> c mod 256 = 127"
proof -
  have "map (\<lambda>w. w AND NNLC_ISCNTRL \<noteq> 0) nnlc_ctype_table = map (\<lambda>k. between 0 31 k \<or> between 127 127 k) [0..<256]"
    by code_simp
  from ctype_test_by_table[OF this, of c] show ?thesis
    by (auto simp: iscntrl_def between_nat)
qed

lemma isprint_iff: "isprint c \<longleftrightarrow> 32 \<le> c mod 256 \<and> c mod 256 \<le> 126"
proof -
  have "map (\<lambda>w. w AND NNLC_ISPRINT \<noteq> 0) nnlc_ctype_table = map (\<lambda>k. between 32 126 k) [0..<256]"
    by code_simp
  from ctype_test_by_table[OF this, of c] show ?thesis
    by (auto simp: isprint_def between_nat)
qed

lemma isgraph_iff: "isgraph c \<longleftrightarrow> 33 \<le> c mod 256 \<and> c mod 256 \<le> 126"
proof -
  have "map (\<lambda>w. w AND NNLC_ISGRAPH \<noteq> 0) nnlc_ctype_table = map (\<lambda>k. between 33 126 k) [0..<256]"
    by code_simp
  from ctype_test_by_table[OF this, of c] show ?thesis
    by (auto simp: isgraph_def between_nat)
qed

lemma ispunct_iff: "ispunct c \<longleftrightarrow> 33 \<le> c mod 256 \<and> c mod 256 \<le> 47 \<or> 58 \<le> c mod 256 \<and> c mod 256 \<le> 64 \<or> 91 \<le> c mod 256 \<and> c mod 256 \<le> 96 \<or> 123 \<le> c mod 256 \<and> c mod 256 \<le> 126"
proof -
  have "map (\<lambda>w. w AND NNLC_ISPUNCT \<noteq> 0) nnlc_ctype_table = map (\<lambda>k. between 33 47 k \<or> between 58 64 k \<or> between 91 96 k \<or> between 123 126 k) [0..<256]"
    by code_simp
  from ctype_test_by_table[OF this, of c] show ?thesis
    by (auto simp: ispunct_def between_nat)
qed

lemma isascii_iff: "isascii c \<longleftrightarrow> c mod 256 \<le> 127"
proof -
  have "map (\<lambda>w. w AND NNLC_ISASCII \<noteq> 0) nnlc_ctype_table = map (\<lambda>k. between 0 127 k) [0..<256]"
    by code_simp
  from ctype_test_by_table[OF this, of c] show ?thesis
    by (auto simp: isascii_def between_nat)
qed

lemmas ctype_iff =
  isdigit_iff islower_iff isupper_iff isalpha_iff isalnum_iff isxdigit_iff isspace_iff isblank_iff iscntrl_iff isprint_iff isgraph_iff ispunct_iff isascii_iff

text \<open>
  C38. Every classification macro, at every \<open>int\<close> argument, tests exactly membership of the
  argument's low byte in the ASCII range of its class; bytes from 128 on are in no class.
\<close>

theorem ctype_classes:
  "(isdigit c \<longleftrightarrow> 48 \<le> c mod 256 \<and> c mod 256 \<le> 57) \<and>
   (islower c \<longleftrightarrow> 97 \<le> c mod 256 \<and> c mod 256 \<le> 122) \<and>
   (isupper c \<longleftrightarrow> 65 \<le> c mod 256 \<and> c mod 256 \<le> 90) \<and>
   (isalpha c \<longleftrightarrow> 65 \<le> c mod 256 \<and> c mod 256 \<le> 90 \<or> 97 \<le> c mod 256 \<and> c mod 256 \<le> 122) \<and>
   (isalnum c \<longleftrightarrow> 48 \<le> c mod 256 \<and> c mod 256 \<le> 57 \<or> 65 \<le> c mod 256 \<and> c mod 256 \<le> 90 \<or> 97 \<le> c mod 256 \<and> c mod 256 \<le> 122) \<and>
   (isxdigit c \<longleftrightarrow> 48 \<le> c mod 256 \<and> c mod 256 \<le> 57 \<or> 65 \<le> c mod 256 \<and> c mod 256 \<le> 70 \<or> 97 \<le> c mod 256 \<and> c mod 256 \<le> 102) \<and>
   (isspace c \<longleftrightarrow> 9 \<le> c mod 256 \<and> c mod 256 \<le> 13 \<or> c mod 256 = 32) \<and>
   (isblank c \<longleftrightarrow> c mod 256 = 9 \<or> c mod 256 = 32) \<and>
   (iscntrl c \<longleftrightarrow> c mod 256 \<le> 31 \<or> c mod 256 = 127) \<and>
   (isprint c \<longleftrightarrow> 32 \<le> c mod 256 \<and> c mod 256 \<le> 126) \<and>
   (isgraph c \<longleftrightarrow> 33 \<le> c mod 256 \<and> c mod 256 \<le> 126) \<and>
   (ispunct c \<longleftrightarrow> 33 \<le> c mod 256 \<and> c mod 256 \<le> 47 \<or> 58 \<le> c mod 256 \<and> c mod 256 \<le> 64 \<or> 91 \<le> c mod 256 \<and> c mod 256 \<le> 96 \<or> 123 \<le> c mod 256 \<and> c mod 256 \<le> 126) \<and>
   (isascii c \<longleftrightarrow> c mod 256 \<le> 127)"
  by (simp only: ctype_iff)

text \<open>
  The case conversions act on letters only and agree with the classes: \<open>tolower\<close> of a letter
  is a lower case letter, \<open>toupper\<close> of a letter an upper case one, a character is fixed by both
  exactly when it is no letter, each conversion undoes the other and both are idempotent.
\<close>

theorem ctype_case_conversion:
  "(islower (tolower c) \<longleftrightarrow> isalpha c) \<and> (isupper (toupper c) \<longleftrightarrow> isalpha c) \<and>
   (tolower c = c \<and> toupper c = c \<longleftrightarrow> \<not> isalpha c) \<and>
   toupper (tolower c) = toupper c \<and> tolower (toupper c) = tolower c \<and>
   tolower (tolower c) = tolower c \<and> toupper (toupper c) = toupper c"
proof -
  have up: "(32 + c) mod 256 = c mod 256 + 32" if "65 \<le> c mod 256" "c mod 256 \<le> 90"
    using that by (subst mod_add_right_eq[symmetric]) simp
  have low: "(c - 32) mod 256 = c mod 256 - 32" if "97 \<le> c mod 256" "c mod 256 \<le> 122"
    using that by (subst mod_diff_left_eq[symmetric]) simp
  show ?thesis
    using up low by (auto simp: tolower_def toupper_def isupper_iff islower_iff isalpha_iff Let_def)
qed

end
