(* ===== verification/CString.thy ===== *)
theory CString
  imports Prelude
begin

text \<open>
  \<open>c/string.c\<close>: the memory block functions and the string functions that do not allocate
  (\<open>strdup\<close> and \<open>strndup\<close> are in the theory of the allocator). Every function takes the memory
  and returns \<open>Some\<close> result, with the new memory when it writes; \<open>None\<close> is an access outside
  mapped memory, or a scan that never meets its stop byte. The main lemma of each function gives
  its exact result on blocks (\<open>load\<close>) or strings (\<open>cstr\<close>).
\<close>

section \<open>Memory blocks\<close>

fun memcmp :: "mem \<Rightarrow> ptr \<Rightarrow> ptr \<Rightarrow> nat \<Rightarrow> int option" where
  "memcmp m s1 s2 0 = Some 0"
| "memcmp m s1 s2 (Suc n) = do {
     c1 \<leftarrow> m s1;
     c2 \<leftarrow> m s2;
     if c1 \<noteq> c2 then Some (sint c1 - sint c2)
     else memcmp m (Suc s1) (Suc s2) n }"

fun memcpy_loop :: "mem \<Rightarrow> ptr \<Rightarrow> ptr \<Rightarrow> nat \<Rightarrow> mem option" where
  "memcpy_loop m d s 0 = Some m"
| "memcpy_loop m d s (Suc n) = do {
     c \<leftarrow> m s;
     m' \<leftarrow> wr m d c;
     memcpy_loop m' (Suc d) (Suc s) n }"

definition memcpy :: "mem \<Rightarrow> ptr \<Rightarrow> ptr \<Rightarrow> nat \<Rightarrow> (ptr \<times> mem) option" where
  "memcpy m dstpp srcpp n = do { m' \<leftarrow> memcpy_loop m dstpp srcpp n; Some (dstpp, m') }"

fun memmove_loop :: "mem \<Rightarrow> ptr \<Rightarrow> ptr \<Rightarrow> nat \<Rightarrow> mem option" where
  "memmove_loop m d s 0 = Some m"
| "memmove_loop m d s (Suc n) = do {
     c \<leftarrow> m (s - 1);
     m' \<leftarrow> wr m (d - 1) c;
     memmove_loop m' (d - 1) (s - 1) n }"

definition memmove :: "mem \<Rightarrow> ptr \<Rightarrow> ptr \<Rightarrow> nat \<Rightarrow> (ptr \<times> mem) option" where
  "memmove m dstpp srcpp n =
     (if dstpp \<le> srcpp then memcpy m dstpp srcpp n
      else do { m' \<leftarrow> memmove_loop m (dstpp + n) (srcpp + n) n; Some (dstpp, m') })"

fun memset_loop :: "mem \<Rightarrow> ptr \<Rightarrow> int \<Rightarrow> nat \<Rightarrow> mem option" where
  "memset_loop m d c 0 = Some m"
| "memset_loop m d c (Suc n) = do {
     m' \<leftarrow> wr m d (word_of_int c);
     memset_loop m' (Suc d) c n }"

definition memset :: "mem \<Rightarrow> ptr \<Rightarrow> int \<Rightarrow> nat \<Rightarrow> (ptr \<times> mem) option" where
  "memset m dstpp c n = do { m' \<leftarrow> memset_loop m dstpp c n; Some (dstpp, m') }"

partial_function (option) rawmemchr :: "mem \<Rightarrow> ptr \<Rightarrow> int \<Rightarrow> ptr option" where
  "rawmemchr m s c = do {
     b \<leftarrow> m s;
     if b \<noteq> word_of_int c then rawmemchr m (Suc s) c else Some s }"

fun memchr :: "mem \<Rightarrow> ptr \<Rightarrow> int \<Rightarrow> nat \<Rightarrow> ptr option" where
  "memchr m s c 0 = Some NULL"
| "memchr m s c (Suc n) = do {
     b \<leftarrow> m s;
     if b = word_of_int c then Some s else memchr m (Suc s) c n }"

section \<open>Strings: comparison, length, copy\<close>

partial_function (option) strcmp :: "mem \<Rightarrow> ptr \<Rightarrow> ptr \<Rightarrow> int option" where
  "strcmp m s1 s2 = do {
     c1 \<leftarrow> m s1;
     c2 \<leftarrow> m s2;
     if c1 = 0 \<or> c1 \<noteq> c2 then Some (uint c1 - uint c2)
     else strcmp m (Suc s1) (Suc s2) }"

fun strncmp :: "mem \<Rightarrow> ptr \<Rightarrow> ptr \<Rightarrow> nat \<Rightarrow> int option" where
  "strncmp m s1 s2 0 = Some 0"
| "strncmp m s1 s2 (Suc n) = do {
     c1 \<leftarrow> m s1;
     c2 \<leftarrow> m s2;
     if c1 = 0 \<or> c1 \<noteq> c2 then Some (uint c1 - uint c2)
     else strncmp m (Suc s1) (Suc s2) n }"

partial_function (option) strcpy_loop :: "mem \<Rightarrow> ptr \<Rightarrow> ptr \<Rightarrow> (ptr \<times> mem) option" where
  "strcpy_loop m d s = do {
     c \<leftarrow> m s;
     if c \<noteq> 0 then do { m' \<leftarrow> wr m d c; strcpy_loop m' (Suc d) (Suc s) }
     else Some (d, m) }"

definition strcpy :: "mem \<Rightarrow> ptr \<Rightarrow> ptr \<Rightarrow> (ptr \<times> mem) option" where
  "strcpy m dest src = do {
     (d, m1) \<leftarrow> strcpy_loop m dest src;
     m2 \<leftarrow> wr m1 d 0;
     Some (dest, m2) }"

text \<open>The two loops of \<open>strncpy\<close>, both counted by the index \<open>i\<close> up to \<open>n\<close>.\<close>

function strncpy_copy :: "mem \<Rightarrow> ptr \<Rightarrow> ptr \<Rightarrow> nat \<Rightarrow> nat \<Rightarrow> (nat \<times> mem) option" where
  "strncpy_copy m dest src n i =
     (if i < n then do {
        c \<leftarrow> m (src + i);
        if c \<noteq> 0 then do { m' \<leftarrow> wr m (dest + i) c; strncpy_copy m' dest src n (Suc i) }
        else Some (i, m) }
      else Some (i, m))"
  by pat_completeness auto
termination
  by (relation "measure (\<lambda>(m, dest, src, n, i). n - i)") auto

function strncpy_pad :: "mem \<Rightarrow> ptr \<Rightarrow> nat \<Rightarrow> nat \<Rightarrow> mem option" where
  "strncpy_pad m dest n i =
     (if i < n then do { m' \<leftarrow> wr m (dest + i) 0; strncpy_pad m' dest n (Suc i) }
      else Some m)"
  by pat_completeness auto
termination
  by (relation "measure (\<lambda>(m, dest, n, i). n - i)") auto

declare strncpy_copy.simps [simp del] strncpy_pad.simps [simp del]

definition strncpy :: "mem \<Rightarrow> ptr \<Rightarrow> ptr \<Rightarrow> nat \<Rightarrow> (ptr \<times> mem) option" where
  "strncpy m dest src n = do {
     (i, m1) \<leftarrow> strncpy_copy m dest src n 0;
     m2 \<leftarrow> strncpy_pad m1 dest n i;
     Some (dest, m2) }"

partial_function (option) strlen_loop :: "mem \<Rightarrow> ptr \<Rightarrow> nat \<Rightarrow> nat option" where
  "strlen_loop m s i = do {
     c \<leftarrow> m s;
     if c \<noteq> 0 then strlen_loop m (Suc s) (Suc i) else Some i }"

definition strlen :: "mem \<Rightarrow> ptr \<Rightarrow> nat option" where
  "strlen m s = strlen_loop m s 0"

section \<open>Strings: search\<close>

partial_function (option) strchr :: "mem \<Rightarrow> ptr \<Rightarrow> int \<Rightarrow> ptr option" where
  "strchr m s i = do {
     c \<leftarrow> m s;
     if c \<noteq> 0 then (if sint c = i then Some s else strchr m (Suc s) i)
     else Some NULL }"

partial_function (option) strrchr_loop :: "mem \<Rightarrow> ptr \<Rightarrow> int \<Rightarrow> ptr \<Rightarrow> ptr option" where
  "strrchr_loop m s i last' = do {
     c \<leftarrow> m s;
     if c \<noteq> 0 then strrchr_loop m (Suc s) i (if sint c = i then s else last')
     else Some last' }"

definition strrchr :: "mem \<Rightarrow> ptr \<Rightarrow> int \<Rightarrow> ptr option" where
  "strrchr m s i = strrchr_loop m s i NULL"

text \<open>The loop of \<open>strstr\<close>: \<open>h\<close> walks the haystack, \<open>n\<close> the needle, \<open>found\<close> is the start of
  the match in progress or \<open>NULL\<close>.\<close>

partial_function (option) strstr_loop :: "mem \<Rightarrow> ptr \<Rightarrow> ptr \<Rightarrow> ptr \<Rightarrow> ptr \<Rightarrow> ptr option" where
  "strstr_loop m needle h n found = do {
     ch \<leftarrow> m h;
     if ch \<noteq> 0 then do {
       cn \<leftarrow> m n;
       let (found, n) = (if found \<noteq> NULL \<and> ch \<noteq> cn then (NULL, needle) else (found, n));
       cn \<leftarrow> m n;
       if ch = cn then do {
         let found = (if found = NULL then h else found);
         let n = Suc n;
         cn' \<leftarrow> m n;
         if cn' = 0 then Some found else strstr_loop m needle (Suc h) n found }
       else strstr_loop m needle (Suc h) n found }
     else Some NULL }"

definition strstr :: "mem \<Rightarrow> ptr \<Rightarrow> ptr \<Rightarrow> ptr option" where
  "strstr m haystack needle = do {
     c \<leftarrow> m needle;
     if c = 0 then Some haystack else strstr_loop m needle haystack needle NULL }"

text \<open>The inner loop of \<open>strspn\<close> returns the byte \<open>a\<close> stops at: NUL, or the byte sought.\<close>

partial_function (option) strspn_accept :: "mem \<Rightarrow> ptr \<Rightarrow> u8 \<Rightarrow> u8 option" where
  "strspn_accept m a c = do {
     ca \<leftarrow> m a;
     if ca \<noteq> 0 then (if c = ca then Some ca else strspn_accept m (Suc a) c)
     else Some ca }"

partial_function (option) strspn_loop :: "mem \<Rightarrow> ptr \<Rightarrow> ptr \<Rightarrow> nat \<Rightarrow> nat option" where
  "strspn_loop m p accept count = do {
     c \<leftarrow> m p;
     if c \<noteq> 0 then do {
       ca \<leftarrow> strspn_accept m accept c;
       if ca = 0 then Some count else strspn_loop m (Suc p) accept (Suc count) }
     else Some count }"

definition strspn :: "mem \<Rightarrow> ptr \<Rightarrow> ptr \<Rightarrow> nat option" where
  "strspn m s accept = strspn_loop m s accept 0"

partial_function (option) strpbrk_accept :: "mem \<Rightarrow> ptr \<Rightarrow> u8 \<Rightarrow> bool option" where
  "strpbrk_accept m a c = do {
     ca \<leftarrow> m a;
     if ca \<noteq> 0 then (if ca = c then Some True else strpbrk_accept m (Suc a) c)
     else Some False }"

partial_function (option) strpbrk :: "mem \<Rightarrow> ptr \<Rightarrow> ptr \<Rightarrow> ptr option" where
  "strpbrk m s accept = do {
     c \<leftarrow> m s;
     if c \<noteq> 0 then do {
       hit \<leftarrow> strpbrk_accept m accept c;
       if hit then Some s else strpbrk m (Suc s) accept }
     else Some NULL }"

section \<open>Tokens\<close>

text \<open>
  \<open>strtok_r\<close> takes the value of \<open>*saveptr\<close> and returns the token, the new value of
  \<open>*saveptr\<close> and the memory, in which the delimiter after the token is now a NUL.
\<close>

definition strtok_r :: "mem \<Rightarrow> ptr \<Rightarrow> ptr \<Rightarrow> ptr \<Rightarrow> (ptr \<times> ptr \<times> mem) option" where
  "strtok_r m s delim saveptr = do {
     let s = (if s = NULL then saveptr else s);
     k \<leftarrow> strspn m s delim;
     let s = s + k;
     c \<leftarrow> m s;
     if c = 0 then Some (NULL, s, m)
     else do {
       let token = s;
       s \<leftarrow> strpbrk m token delim;
       if s = NULL then do {
         saveptr \<leftarrow> rawmemchr m token 0;
         Some (token, saveptr, m) }
       else do {
         m' \<leftarrow> wr m s 0;
         Some (token, s + 1, m') } } }"

text \<open>\<open>strtok\<close> keeps its save pointer in a static variable, here passed and returned.\<close>

definition strtok :: "mem \<Rightarrow> ptr \<Rightarrow> ptr \<Rightarrow> ptr \<Rightarrow> (ptr \<times> ptr \<times> mem) option" where
  "strtok m s delim global_saveptr = strtok_r m s delim global_saveptr"

definition strerror :: "int \<Rightarrow> string" where
  "strerror errnum = (if errnum = 0 then ''no error'' else ''unexpected error'')"

section \<open>Lemmas on memory blocks\<close>

lemma memcpy_loop_correct:
  assumes "load m src n = Some bs" "mapped m dst n" "dst \<le> src \<or> src + n \<le> dst"
  shows "memcpy_loop m dst src n = Some (store m dst bs)"
  using assms
proof (induction n arbitrary: m dst src bs)
  case (Suc n)
  then obtain b bs' where b: "m src = Some b" "load m (Suc src) n = Some bs'" "bs = b # bs'"
    by (auto simp: bind_eq_Some_conv)
  have "load (m(dst \<mapsto> b)) (Suc src) n = Some bs'"
    using b(2) Suc.prems(3) by (subst load_upd_other) auto
  moreover have "mapped (m(dst \<mapsto> b)) (Suc dst) n" "m dst \<noteq> None"
    using Suc.prems(2) by (auto simp: mapped_Suc)
  moreover have "Suc dst \<le> Suc src \<or> Suc src + n \<le> Suc dst"
    using Suc.prems(3) by auto
  ultimately show ?case
    using b Suc.IH[of "m(dst \<mapsto> b)" "Suc src" bs' "Suc dst"]
    by (simp add: store_Cons del: fun_upd_apply)
qed simp

lemma memmove_loop_correct:
  assumes "load m src n = Some bs" "mapped m dst n" "src \<le> dst"
  shows "memmove_loop m (dst + n) (src + n) n = Some (store m dst bs)"
  using assms
proof (induction n arbitrary: m bs)
  case (Suc n)
  from Suc.prems(1) obtain bs' b where b: "load m src n = Some bs'" "m (src + n) = Some b" "bs = bs' @ [b]"
    by (auto simp only: load_Suc_end)
  have "load (m(dst + n \<mapsto> b)) src n = Some bs'"
    using b(1) Suc.prems(3) by (subst load_upd_other) auto
  moreover have "mapped (m(dst + n \<mapsto> b)) dst n" "m (dst + n) \<noteq> None"
    using Suc.prems(2) by (auto simp: mapped_Suc_end)
  ultimately show ?case
    using b Suc.prems(3) Suc.IH[of "m(dst + n \<mapsto> b)" bs'] length_load[OF b(1)]
    by (simp add: store_snoc store_upd_after del: fun_upd_apply)
qed simp

lemma memset_loop_correct:
  "mapped m d n \<Longrightarrow> memset_loop m d c n = Some (store m d (replicate n (word_of_int c)))"
proof (induction n arbitrary: m d)
  case (Suc n)
  then have "m d \<noteq> None" "mapped (m(d \<mapsto> word_of_int c)) (Suc d) n"
    by (auto simp: mapped_Suc)
  with Suc.IH[OF this(2)] show ?case by (simp add: store_Cons del: fun_upd_apply)
qed simp

lemma memcpy_correct:
  assumes "load m src n = Some bs" "mapped m dst n" "dst \<le> src \<or> src + n \<le> dst"
  shows "memcpy m dst src n = Some (dst, store m dst bs)"
  by (simp add: memcpy_def memcpy_loop_correct[OF assms])

lemma memmove_exact:
  assumes "load m src n = Some bs" "mapped m dst n"
  shows "memmove m dst src n = Some (dst, store m dst bs)"
  using assms by (simp add: memmove_def memcpy_correct memmove_loop_correct)

lemma memset_exact:
  "mapped m d n \<Longrightarrow> memset m d c n = Some (d, store m d (replicate n (word_of_int c)))"
  by (simp add: memset_def memset_loop_correct)

lemma memchr_exact:
  "load m p n = Some bs \<Longrightarrow> memchr m p c n =
     Some (if word_of_int c \<in> set bs then p + length (takeWhile (\<lambda>b. b \<noteq> word_of_int c) bs) else NULL)"
proof (induction n arbitrary: p bs)
  case (Suc n)
  then show ?case by (auto simp: bind_eq_Some_conv)
qed simp

lemma rawmemchr_exact:
  "load m p (Suc (length bs)) = Some (bs @ [word_of_int c]) \<Longrightarrow> word_of_int c \<notin> set bs \<Longrightarrow>
    rawmemchr m p c = Some (p + length bs)"
proof (induction bs arbitrary: p)
  case (Cons b bs)
  then show ?case by (subst rawmemchr.simps) (auto simp: bind_eq_Some_conv)
qed (subst rawmemchr.simps, auto simp: bind_eq_Some_conv)

section \<open>Lemmas on strings: length and copy\<close>

lemma strlen_loop_exact: "cstr m p s \<Longrightarrow> strlen_loop m p i = Some (i + length s)"
  by (induction s arbitrary: p i) (subst strlen_loop.simps, simp)+

lemma strlen_exact: "cstr m p s \<Longrightarrow> strlen m p = Some (length s)"
  by (simp add: strlen_def strlen_loop_exact)

text \<open>Conversely a result of \<open>strlen\<close> means that there is a terminated string at \<open>p\<close>.\<close>

lemma strlen_loop_cstr:
  assumes "strlen_loop m p i = Some n"
  shows "\<exists>s. cstr m p s \<and> n = i + length s"
proof (rule strlen_loop.raw_induct[where P = "\<lambda>m p i n. \<exists>s. cstr m p s \<and> n = i + length s", OF _ assms])
  fix f m s i r
  assume IH: "\<And>m s i r. f m s i = Some r \<Longrightarrow> \<exists>t. cstr m s t \<and> r = i + length t"
    and step: "(m s \<bind> (\<lambda>c. if c \<noteq> 0 then f m (Suc s) (Suc i) else Some i)) = Some r"
  from step obtain c where c: "m s = Some c" "(if c \<noteq> 0 then f m (Suc s) (Suc i) else Some i) = Some r"
    by (auto simp: bind_eq_Some_conv)
  show "\<exists>t. cstr m s t \<and> r = i + length t"
  proof (cases "c = 0")
    case True
    with c have "cstr m s [] \<and> r = i + length ([] :: u8 list)" by simp
    then show ?thesis ..
  next
    case False
    with c IH obtain t where "cstr m (Suc s) t \<and> r = Suc i + length t" by fastforce
    with c False have "cstr m s (c # t) \<and> r = i + length (c # t)" by simp
    then show ?thesis ..
  qed
qed

lemma strlen_Some_iff: "strlen m p = Some n \<longleftrightarrow> (\<exists>s. cstr m p s \<and> n = length s)"
  using strlen_loop_cstr[of m p 0 n] by (auto simp: strlen_def strlen_loop_exact)

text \<open>The copy of a string: the destination must not overlap the bytes still to be read.\<close>

lemma strcpy_loop_exact:
  assumes "cstr m src s" "mapped m dst (length s)" "dst \<le> src \<or> src + length s < dst"
  shows "strcpy_loop m dst src = Some (dst + length s, store m dst s)"
  using assms
proof (induction s arbitrary: m dst src)
  case Nil
  then show ?case by (subst strcpy_loop.simps) simp
next
  case (Cons c s)
  have "cstr (m(dst \<mapsto> c)) (Suc src) s"
    using Cons.prems(1,3) by (auto intro: cstr_cong)
  moreover have "mapped (m(dst \<mapsto> c)) (Suc dst) (length s)" "m dst \<noteq> None"
    using Cons.prems(2) by (auto simp: mapped_Suc)
  moreover have "Suc dst \<le> Suc src \<or> Suc src + length s < Suc dst"
    using Cons.prems(3) by auto
  ultimately show ?case
    using Cons.prems(1) Cons.IH[of "m(dst \<mapsto> c)" "Suc src" "Suc dst"]
    by (subst strcpy_loop.simps) (simp add: store_Cons del: fun_upd_apply)
qed

lemma strcpy_exact:
  assumes "cstr m src s" "mapped m dst (Suc (length s))" "dst \<le> src \<or> src + length s < dst"
  shows "strcpy m dst src = Some (dst, store m dst (s @ [0]))"
proof -
  have "strcpy_loop m dst src = Some (dst + length s, store m dst s)"
    using assms by (intro strcpy_loop_exact) (auto simp: mapped_Suc_end)
  moreover have "store m dst s (dst + length s) \<noteq> None"
    using assms(2) by (simp add: store_outside mapped_Suc_end)
  ultimately show ?thesis by (simp add: strcpy_def store_snoc)
qed

lemma strncpy_pad_exact:
  assumes "mapped m dest n" "i \<le> n"
  shows "strncpy_pad m dest n i = Some (store m (dest + i) (replicate (n - i) 0))"
  using assms
proof (induction m dest n i rule: strncpy_pad.induct)
  case (1 m dest n i)
  show ?case
  proof (cases "i < n")
    case True
    then have i: "n - i = Suc (n - Suc i)" by simp
    have mp: "m (dest + i) \<noteq> None" using True "1.prems"(1) by (simp add: mappedD)
    have "strncpy_pad (m(dest + i \<mapsto> 0)) dest n (Suc i)
        = Some (store (m(dest + i \<mapsto> 0)) (dest + Suc i) (replicate (n - Suc i) 0))"
      using True mp "1.prems" by (intro "1.IH") (auto simp del: fun_upd_apply)
    with True mp show ?thesis
      by (subst strncpy_pad.simps) (simp add: i store_Cons del: fun_upd_apply)
  qed (use "1.prems" in \<open>simp add: strncpy_pad.simps\<close>)
qed

lemma strncpy_copy_exact:
  assumes "cstr m (src + i) s" "mapped m dest n" "i \<le> n"
    "disjnt dest n src (Suc (i + length s))"
  shows "strncpy_copy m dest src n i =
    Some (min n (i + length s), store m (dest + i) (take (n - i) s))"
  using assms
proof (induction s arbitrary: m i)
  case Nil
  then show ?case by (subst strncpy_copy.simps) auto
next
  case (Cons c s)
  show ?case
  proof (cases "i < n")
    case True
    then have i: "n - i = Suc (n - Suc i)" by simp
    have mp: "m (dest + i) \<noteq> None" using True Cons.prems(2) by (simp add: mappedD)
    have "cstr (m(dest + i \<mapsto> c)) (src + Suc i) s"
      using Cons.prems(1,4) True by (auto simp: disjnt_def intro!: cstr_cong[where m = m])
    then have "strncpy_copy (m(dest + i \<mapsto> c)) dest src n (Suc i) =
        Some (min n (Suc i + length s), store (m(dest + i \<mapsto> c)) (dest + Suc i) (take (n - Suc i) s))"
      using True mp Cons.prems by (intro Cons.IH) (auto simp del: fun_upd_apply)
    with True mp Cons.prems(1) show ?thesis
      by (subst strncpy_copy.simps) (simp add: i store_Cons del: fun_upd_apply)
  qed (use Cons.prems in \<open>simp add: strncpy_copy.simps\<close>)
qed

lemma strncpy_exact:
  assumes "cstr m src s" "mapped m dest n" "disjnt dest n src (Suc (length s))"
  shows "strncpy m dest src n =
    Some (dest, store m dest (take n s @ replicate (n - length s) 0))"
proof -
  have "strncpy_copy m dest src n 0 = Some (min n (length s), store m dest (take n s))"
    using strncpy_copy_exact[of m src 0 s dest n] assms by simp
  moreover have "strncpy_pad (store m dest (take n s)) dest n (min n (length s)) =
      Some (store (store m dest (take n s)) (dest + min n (length s)) (replicate (n - min n (length s)) 0))"
    using assms(2) by (intro strncpy_pad_exact) auto
  ultimately show ?thesis
    by (simp add: strncpy_def store_append min_def)
qed

section \<open>Lemmas on strings: search\<close>

lemma strchr_exact:
  "cstr m p s \<Longrightarrow> strchr m p i =
     Some (if i \<in> sint ` set s then p + length (takeWhile (\<lambda>c. sint c \<noteq> i) s) else NULL)"
  by (induction s arbitrary: p) (subst strchr.simps, force)+

lemma strrchr_loop_exact:
  "cstr m p s \<Longrightarrow> strrchr_loop m p i q =
     Some (if i \<in> sint ` set s then p + length (dropWhile (\<lambda>c. sint c \<noteq> i) (rev s)) - 1 else q)"
proof (induction s arbitrary: p q)
  case Nil
  then show ?case by (subst strrchr_loop.simps) simp
next
  case (Cons c s)
  have eq: "strrchr_loop m p i q = strrchr_loop m (Suc p) i (if sint c = i then p else q)"
    using Cons.prems by (subst strrchr_loop.simps) simp
  show ?case
  proof (cases "i \<in> sint ` set s")
    case True
    then have "dropWhile (\<lambda>c. sint c \<noteq> i) (rev s @ [c]) = dropWhile (\<lambda>c. sint c \<noteq> i) (rev s) @ [c]"
      by (auto intro!: dropWhile_append1)
    moreover have "dropWhile (\<lambda>c. sint c \<noteq> i) (rev s) \<noteq> []"
      using True by (auto simp: dropWhile_eq_Nil_conv)
    ultimately show ?thesis
      using Cons True unfolding eq by (simp add: Suc_le_eq)
  next
    case False
    then have "dropWhile (\<lambda>c. sint c \<noteq> i) (rev s @ [c]) = dropWhile (\<lambda>c. sint c \<noteq> i) [c]"
      by (intro dropWhile_append2) auto
    with Cons False show ?thesis unfolding eq by auto
  qed
qed

lemma strrchr_exact:
  "cstr m p s \<Longrightarrow> strrchr m p i =
     Some (if i \<in> sint ` set s then p + length (dropWhile (\<lambda>c. sint c \<noteq> i) (rev s)) - 1 else NULL)"
  by (simp add: strrchr_def strrchr_loop_exact)

lemma strspn_accept_exact:
  "cstr m a acc \<Longrightarrow> strspn_accept m a c = Some (if c \<in> set acc then c else 0)"
  by (induction acc arbitrary: a) (subst strspn_accept.simps, auto)+

lemma strspn_loop_exact:
  "cstr m p s \<Longrightarrow> cstr m a acc \<Longrightarrow>
    strspn_loop m p a k = Some (k + length (takeWhile (\<lambda>c. c \<in> set acc) s))"
  by (induction s arbitrary: p k)
    (subst strspn_loop.simps, auto simp: strspn_accept_exact dest: cstr_no_nul)+

lemma strspn_exact:
  "cstr m p s \<Longrightarrow> cstr m a acc \<Longrightarrow> strspn m p a = Some (length (takeWhile (\<lambda>c. c \<in> set acc) s))"
  by (simp add: strspn_def strspn_loop_exact)

lemma strpbrk_accept_exact:
  "cstr m a acc \<Longrightarrow> strpbrk_accept m a c = Some (c \<in> set acc)"
  by (induction acc arbitrary: a) (subst strpbrk_accept.simps, auto)+

lemma strpbrk_exact:
  "cstr m p s \<Longrightarrow> cstr m a acc \<Longrightarrow> strpbrk m p a =
     Some (if set s \<inter> set acc = {} then NULL else p + length (takeWhile (\<lambda>c. c \<notin> set acc) s))"
proof (induction s arbitrary: p)
  case Nil
  then show ?case by (subst strpbrk.simps) simp
next
  case (Cons c s)
  then show ?case by (subst strpbrk.simps) (simp add: strpbrk_accept_exact)
qed

section \<open>Properties\<close>

text \<open>C7. \<open>memmove\<close> copies a block exactly whatever the overlap of source and destination: the
  destination then holds the bytes the source held before the call, and no other byte changes.\<close>

theorem memmove_copies:
  assumes "load m src n = Some bs" "mapped m dst n"
  shows "\<exists>m'. memmove m dst src n = Some (dst, m') \<and> load m' dst n = Some bs \<and>
    (\<forall>a. a < dst \<or> dst + n \<le> a \<longrightarrow> m' a = m a)"
  using memmove_exact[OF assms] load_store_same[of m dst bs] length_load[OF assms(1)]
  by (auto simp: store_outside)

theorem memmove_copies_witness:
  "\<exists>m'. memmove (bytes_at 10 [1, 2, 3, 4, 5]) 11 10 4 = Some (11, m') \<and> load m' 11 4 = Some [1, 2, 3, 4]"
proof -
  have "load (bytes_at 10 [1, 2, 3, 4, 5]) 10 4 = Some [1, 2, 3, 4]"
    "load (bytes_at 10 [1, 2, 3, 4, 5]) 11 4 = Some [2, 3, 4, 5]"
    by code_simp+
  then show ?thesis
    using memmove_copies[of "bytes_at 10 [1, 2, 3, 4, 5]" 10 4 "[1, 2, 3, 4]" 11]
    by (auto simp: mapped_iff_load)
qed

text \<open>\<open>memcpy\<close> is \<open>memmove\<close> on blocks that do not overlap, and also when the destination
  starts at or before the source: its copy goes upwards.\<close>

theorem memcpy_is_memmove:
  assumes "mapped m src n" "mapped m dst n" "disjnt dst n src n \<or> dst \<le> src"
  shows "memcpy m dst src n = memmove m dst src n"
proof -
  obtain bs where bs: "load m src n = Some bs" using assms(1) by (auto simp: mapped_iff_load)
  show ?thesis
  proof (cases "n = 0")
    case True
    then show ?thesis by (simp add: memmove_def memcpy_def)
  next
    case False
    with assms(3) have "dst \<le> src \<or> src + n \<le> dst" by (auto simp: disjnt_def)
    then show ?thesis using memcpy_correct[OF bs assms(2)] memmove_exact[OF bs assms(2)] by simp
  qed
qed

theorem memcpy_is_memmove_witness:
  "memcpy (bytes_at 10 [1, 2, 3, 4]) 10 11 3 = memmove (bytes_at 10 [1, 2, 3, 4]) 10 11 3"
proof -
  have "load (bytes_at 10 [1, 2, 3, 4]) 11 3 = Some [2, 3, 4]"
    "load (bytes_at 10 [1, 2, 3, 4]) 10 3 = Some [1, 2, 3]"
    by code_simp+
  then have "mapped (bytes_at 10 [1, 2, 3, 4]) 11 3" "mapped (bytes_at 10 [1, 2, 3, 4]) 10 3"
    by (auto simp: mapped_iff_load)
  then show ?thesis by (intro memcpy_is_memmove) auto
qed

text \<open>\<open>memset\<close> fills exactly the block, with the low byte of its \<open>int\<close> argument, and a
  \<open>memchr\<close> of a byte returns the address of the first occurrence, \<open>NULL\<close> when there is none.\<close>

theorem memset_memchr:
  assumes "load m p n = Some bs"
  shows "(\<exists>m'. memset m p c n = Some (p, m') \<and> load m' p n = Some (replicate n (word_of_int c)) \<and>
      (\<forall>a. a < p \<or> p + n \<le> a \<longrightarrow> m' a = m a)) \<and>
    ((\<exists>k < n. memchr m p c n = Some (p + k) \<and> bs ! k = word_of_int c \<and>
            (\<forall>j < k. bs ! j \<noteq> word_of_int c)) \<or>
         memchr m p c n = Some NULL \<and> word_of_int c \<notin> set bs)"
proof
  have "mapped m p n" using assms by (auto simp: mapped_iff_load)
  then have "memset m p c n = Some (p, store m p (replicate n (word_of_int c)))"
    by (rule memset_exact)
  moreover have "load (store m p (replicate n (word_of_int c))) p n = Some (replicate n (word_of_int c))"
    using load_store_same[of m p "replicate n (word_of_int c)"] by simp
  ultimately show "\<exists>m'. memset m p c n = Some (p, m') \<and>
      load m' p n = Some (replicate n (word_of_int c)) \<and> (\<forall>a. a < p \<or> p + n \<le> a \<longrightarrow> m' a = m a)"
    by (auto simp: store_outside)
  show "(\<exists>k < n. memchr m p c n = Some (p + k) \<and> bs ! k = word_of_int c \<and>
            (\<forall>j < k. bs ! j \<noteq> word_of_int c)) \<or>
         memchr m p c n = Some NULL \<and> word_of_int c \<notin> set bs"
    using memchr_exact[OF assms, of c] length_load[OF assms]
      takeWhile_first[of "word_of_int c" bs "\<lambda>b. b \<noteq> word_of_int c"]
    by (cases "word_of_int c \<in> set bs") auto
qed

theorem memset_memchr_witness:
  "(\<exists>m'. memset (bytes_at 10 [1, 2, 3]) 10 256 3 = Some (10, m') \<and> load m' 10 3 = Some [0, 0, 0]) \<and>
   memchr (bytes_at 10 [1, 2, 3]) 10 258 3 = Some 11"
proof -
  have b: "load (bytes_at 10 [1, 2, 3]) 10 3 = Some [1, 2, 3]" "word_of_int 256 = (0 :: u8)"
    "memchr (bytes_at 10 [1, 2, 3]) 10 258 3 = Some 11"
    by code_simp+
  show ?thesis
    using memset_memchr[OF b(1), of 256] b(2,3) by (auto simp: numeral_3_eq_3)
qed

text \<open>C40. \<open>strlen\<close> returns exactly when there is a terminated string at its argument, and then
  returns the number of bytes before the NUL.\<close>

theorem strlen_returns_iff:
  "strlen m p = Some n \<longleftrightarrow> (\<exists>s. cstr m p s \<and> n = length s)"
  by (rule strlen_Some_iff)

text \<open>\<open>strcpy\<close> into enough writable bytes that do not overlap the source leaves a copy of the
  string with its NUL; \<open>strncpy\<close> writes exactly \<open>n\<close> bytes, the first \<open>n\<close> of the string padded
  with NULs, hence a terminated string only if the source is shorter than \<open>n\<close>. The source is
  unchanged by both.\<close>

theorem strcpy_strncpy:
  assumes "cstr m src s" "mapped m dst k" "disjnt dst k src (Suc (length s))"
  shows "(length s < k \<longrightarrow> (\<exists>m'. strcpy m dst src = Some (dst, m') \<and> cstr m' dst s \<and> cstr m' src s \<and>
      (\<forall>a. a < dst \<or> dst + length s < a \<longrightarrow> m' a = m a))) \<and>
    (\<exists>m'. strncpy m dst src k = Some (dst, m') \<and> cstr m' src s \<and>
      load m' dst k = Some (take k s @ replicate (k - length s) 0) \<and>
      (length s < k \<longrightarrow> cstr m' dst s) \<and> (\<forall>a. a < dst \<or> dst + k \<le> a \<longrightarrow> m' a = m a))"
proof (intro conjI impI)
  have s0: "0 \<notin> set s" using assms(1) by (rule cstr_no_nul)
  show "\<exists>m'. strcpy m dst src = Some (dst, m') \<and> cstr m' dst s \<and> cstr m' src s \<and>
      (\<forall>a. a < dst \<or> dst + length s < a \<longrightarrow> m' a = m a)" if lt: "length s < k"
  proof -
    have d: "disjnt src (Suc (length s)) dst (Suc (length s))"
      using assms(3) lt by (auto simp: disjnt_def)
    then have "strcpy m dst src = Some (dst, store m dst (s @ [0]))"
      using assms lt by (intro strcpy_exact) (auto simp: disjnt_def intro: mapped_mono)
    with d show ?thesis
      by (auto simp: cstr_store_same[OF s0] cstr_store_disjnt[OF assms(1)] store_outside)
  qed
  let ?bs = "take k s @ replicate (k - length s) 0"
  have len: "length ?bs = k" by simp
  have "strncpy m dst src k = Some (dst, store m dst ?bs)"
    using assms by (intro strncpy_exact)
  moreover have "cstr (store m dst ?bs) src s"
    using assms(3) len by (intro cstr_store_disjnt[OF assms(1)]) (simp add: disjnt_sym del: length_append)
  moreover have "load (store m dst ?bs) dst k = Some ?bs"
    using load_store_same[of m dst ?bs] unfolding len .
  moreover have "cstr (store m dst ?bs) dst s" if "length s < k"
  proof -
    have "?bs = (s @ [0]) @ replicate (k - Suc (length s)) 0"
      using that by (simp add: Suc_diff_Suc flip: replicate_Suc)
    then have eq: "store m dst ?bs =
        store (store m dst (s @ [0])) (dst + length (s @ [0])) (replicate (k - Suc (length s)) 0)"
      by (simp only: store_append[of m dst "s @ [0]"])
    show ?thesis unfolding eq
      by (intro cstr_store_disjnt cstr_store_same s0) (auto simp: disjnt_def)
  qed
  moreover have "\<forall>a. a < dst \<or> dst + k \<le> a \<longrightarrow> store m dst ?bs a = m a"
    using len by (auto simp: store_outside)
  ultimately show "\<exists>m'. strncpy m dst src k = Some (dst, m') \<and> cstr m' src s \<and>
      load m' dst k = Some ?bs \<and> (length s < k \<longrightarrow> cstr m' dst s) \<and>
      (\<forall>a. a < dst \<or> dst + k \<le> a \<longrightarrow> m' a = m a)"
    by blast
qed

theorem strcpy_strncpy_witness:
  "\<exists>m'. strcpy (bytes_at 10 [104, 105, 0, 7, 7, 7, 7]) 13 10 = Some (13, m') \<and> cstr m' 13 [104, 105]"
proof -
  let ?m = "bytes_at 10 [104, 105, 0, 7, 7, 7, 7]"
  have "cstr ?m 10 [104, 105]" "load ?m 13 4 = Some [7, 7, 7, 7]" "disjnt 13 4 10 (Suc (length [104 :: u8, 105]))"
    by code_simp+
  then have "mapped ?m 13 4" by (auto simp: mapped_iff_load)
  then show ?thesis
    using strcpy_strncpy[OF \<open>cstr ?m 10 [104, 105]\<close> _ \<open>disjnt 13 4 10 (Suc (length [104 :: u8, 105]))\<close>]
    by (auto simp del: cstr.simps)
qed

text \<open>\<open>strchr\<close> and \<open>strrchr\<close> return the first and the last occurrence of a character in a
  string, read as a signed \<open>char\<close>, and \<open>NULL\<close> when the value does not occur. As the scan stops
  at the terminator, the value 0 is never found.\<close>

theorem strchr_strrchr:
  assumes "cstr m p s"
  shows "((\<exists>k < length s. strchr m p i = Some (p + k) \<and> sint (s ! k) = i \<and> (\<forall>j < k. sint (s ! j) \<noteq> i)) \<or>
      strchr m p i = Some NULL \<and> i \<notin> sint ` set s) \<and>
    ((\<exists>k < length s. strrchr m p i = Some (p + k) \<and> sint (s ! k) = i \<and>
        (\<forall>j < length s. k < j \<longrightarrow> sint (s ! j) \<noteq> i)) \<or>
      strrchr m p i = Some NULL \<and> i \<notin> sint ` set s) \<and>
    strchr m p 0 = Some NULL"
proof (intro conjI)
  show "(\<exists>k < length s. strchr m p i = Some (p + k) \<and> sint (s ! k) = i \<and> (\<forall>j < k. sint (s ! j) \<noteq> i)) \<or>
      strchr m p i = Some NULL \<and> i \<notin> sint ` set s"
    using takeWhile_first[of _ s "\<lambda>c. sint c \<noteq> i"]
    by (cases "i \<in> sint ` set s") (auto simp: strchr_exact[OF assms])
  show "(\<exists>k < length s. strrchr m p i = Some (p + k) \<and> sint (s ! k) = i \<and>
        (\<forall>j < length s. k < j \<longrightarrow> sint (s ! j) \<noteq> i)) \<or>
      strrchr m p i = Some NULL \<and> i \<notin> sint ` set s"
  proof (cases "i \<in> sint ` set s")
    case True
    then obtain c where "c \<in> set (rev s)" "\<not> sint c \<noteq> i" by auto
    note last = takeWhile_first[of _ "rev s" "\<lambda>c. sint c \<noteq> i", OF this]
    let ?k = "length (takeWhile (\<lambda>c. sint c \<noteq> i) (rev s))"
    have len: "length (dropWhile (\<lambda>c. sint c \<noteq> i) (rev s)) = length s - ?k"
      by (simp add: dropWhile_eq_drop)
    have "sint (s ! (length s - Suc ?k)) = i" using last by (auto simp: rev_nth)
    moreover have "sint (s ! j) \<noteq> i" if "j < length s" "length s - Suc ?k < j" for j
    proof -
      have "length s - Suc j < ?k" using that by linarith
      with last have "sint (rev s ! (length s - Suc j)) \<noteq> i" by blast
      with that show ?thesis by (simp add: rev_nth)
    qed
    ultimately show ?thesis
      using last True strrchr_exact[OF assms, of i] len
      by (intro disjI1 exI[of _ "length s - Suc ?k"]) auto
  qed (simp add: strrchr_exact[OF assms])
  have "0 \<notin> sint ` set s" using cstr_no_nul[OF assms] sint_inject[where b = "0 :: u8"] by (auto simp del: sint_inject)
  then show "strchr m p 0 = Some NULL" by (simp add: strchr_exact[OF assms])
qed

theorem strchr_strrchr_witness:
  "strchr (string_at 8 ''abca'') 8 97 = Some 8 \<and> strrchr (string_at 8 ''abca'') 8 97 = Some 11 \<and>
   strchr (string_at 8 ''abca'') 8 0 = Some NULL"
proof -
  have c: "cstr (string_at 8 ''abca'') 8 [97, 98, 99, 97]"
    using cstr_string_at[of "''abca''" 8] by simp
  have s: "sint (97 :: u8) = 97" "sint (98 :: u8) = 98" "sint (99 :: u8) = 99" by code_simp+
  show ?thesis
    using strchr_strrchr[OF c, of 97]
    by (auto simp: s less_Suc_eq nth_Cons' strchr_exact[OF c] strrchr_exact[OF c])
qed

text \<open>\<open>strspn\<close> returns the length of the longest prefix of accepted characters, and
  \<open>strpbrk\<close> the address of the first accepted character, \<open>NULL\<close> when there is none.\<close>

theorem strspn_strpbrk:
  assumes "cstr m p s" "cstr m a acc"
  shows "(\<exists>k \<le> length s. strspn m p a = Some k \<and> set (take k s) \<subseteq> set acc \<and>
      (k < length s \<longrightarrow> s ! k \<notin> set acc)) \<and>
    ((\<exists>k < length s. strpbrk m p a = Some (p + k) \<and> s ! k \<in> set acc \<and> set (take k s) \<inter> set acc = {}) \<or>
      strpbrk m p a = Some NULL \<and> set s \<inter> set acc = {})"
proof
  let ?k = "length (takeWhile (\<lambda>c. c \<in> set acc) s)"
  have "take ?k s = takeWhile (\<lambda>c. c \<in> set acc) s"
    by (rule takeWhile_eq_take[symmetric])
  moreover have "?k < length s \<longrightarrow> s ! ?k \<notin> set acc"
    using nth_length_takeWhile[of "\<lambda>c. c \<in> set acc" s] by blast
  ultimately show "\<exists>k \<le> length s. strspn m p a = Some k \<and> set (take k s) \<subseteq> set acc \<and>
      (k < length s \<longrightarrow> s ! k \<notin> set acc)"
    using set_takeWhileD[of _ "\<lambda>c. c \<in> set acc" s] length_takeWhile_le
    by (intro exI[of _ ?k]) (auto simp: strspn_exact[OF assms])
  show "(\<exists>k < length s. strpbrk m p a = Some (p + k) \<and> s ! k \<in> set acc \<and> set (take k s) \<inter> set acc = {}) \<or>
      strpbrk m p a = Some NULL \<and> set s \<inter> set acc = {}"
  proof (cases "set s \<inter> set acc = {}")
    case False
    then obtain c where "c \<in> set s" "\<not> c \<notin> set acc" by auto
    note first = takeWhile_first[of _ s "\<lambda>c. c \<notin> set acc", OF this]
    have "take (length (takeWhile (\<lambda>c. c \<notin> set acc) s)) s = takeWhile (\<lambda>c. c \<notin> set acc) s"
      by (rule takeWhile_eq_take[symmetric])
    then have "set (take (length (takeWhile (\<lambda>c. c \<notin> set acc) s)) s) \<inter> set acc = {}"
      using set_takeWhileD[of _ "\<lambda>c. c \<notin> set acc" s] by auto
    with first False show ?thesis by (auto simp: strpbrk_exact[OF assms])
  qed (simp add: strpbrk_exact[OF assms])
qed

theorem strspn_strpbrk_witness:
  "strspn (store (string_at 8 ''a'') 20 (lit ''b'' @ [0])) 8 20 = Some 0 \<and>
   strpbrk (store (string_at 8 ''a'') 20 (lit ''b'' @ [0])) 8 20 = Some NULL"
proof -
  let ?m = "store (string_at 8 ''a'') 20 (lit ''b'' @ [0])"
  have s: "cstr ?m 8 (lit ''a'')" and a: "cstr ?m 20 (lit ''b'')"
    by (rule cstr_store_disjnt[OF cstr_string_at]; simp add: disjnt_def)
      (rule cstr_store_same, simp)
  show ?thesis
    using strspn_strpbrk[OF s a] by (auto simp: le_Suc_eq)
qed

end
