(* ===== verification/CString_Search.thy ===== *)
theory CString_Search
  imports CString
begin

text \<open>
  What \<open>strstr\<close> and \<open>strtok_r\<close> compute. \<open>strstr\<close> does not back up in the haystack after a
  partial match: it is related to a scan over lists (\<open>strstr_scan\<close>), proved sound for every
  needle and complete for the needles whose first byte does not recur in them; the properties in
  the root theory also exhibit an occurrence that it misses. \<open>strtok_r\<close> is related to the list
  of tokens of the string, call by call and over a whole run of calls.
\<close>

section \<open>\<open>strstr\<close>\<close>

definition occurs_at :: "'a list \<Rightarrow> 'a list \<Rightarrow> nat \<Rightarrow> bool" where
  "occurs_at ns hs k \<longleftrightarrow> take (length ns) (drop k hs) = ns"

lemma occurs_at_nth:
  "occurs_at ns hs k \<longleftrightarrow> (ns = [] \<or> k + length ns \<le> length hs) \<and> (\<forall>i < length ns. hs ! (k + i) = ns ! i)"
proof -
  have aux: "ns = [] \<or> k + length ns \<le> length hs" if "length hs - k = length ns"
    using that by (cases ns) auto
  show ?thesis
    unfolding occurs_at_def
    by (subst list_eq_iff_nth_eq) (auto simp: min_def dest: aux split: if_splits)
qed

text \<open>The loop of \<open>strstr\<close> on lists: \<open>i\<close> bytes of the haystack read, the last \<open>j\<close> of them matched.\<close>

fun strstr_scan :: "u8 list \<Rightarrow> u8 list \<Rightarrow> nat \<Rightarrow> nat \<Rightarrow> nat option" where
  "strstr_scan ns [] i j = None"
| "strstr_scan ns (c # hs) i j =
     (let j = (if c \<noteq> ns ! j then 0 else j) in
      if c = ns ! j then
        (if Suc j = length ns then Some (i - j) else strstr_scan ns hs (Suc i) (Suc j))
      else strstr_scan ns hs (Suc i) j)"

declare strstr_scan.simps(2) [simp del]

lemma strstr_scan_Cons:
  "j' = (if c \<noteq> ns ! j then 0 else j) \<Longrightarrow> strstr_scan ns (c # hs) i j =
     (if c = ns ! j' then
        (if Suc j' = length ns then Some (i - j') else strstr_scan ns hs (Suc i) (Suc j'))
      else strstr_scan ns hs (Suc i) j')"
  by (simp only: strstr_scan.simps(2) Let_def)

lemma strstr_loop_scan:
  assumes "cstr m (hp + i) hs" "cstr m np ns" "j < length ns" "j \<le> i" "hp \<noteq> NULL"
    "found = (if j = 0 then NULL else hp + i - j)"
  shows "strstr_loop m np (hp + i) (np + j) found =
    Some (case strstr_scan ns hs i j of None \<Rightarrow> NULL | Some k \<Rightarrow> hp + k)"
  using assms
proof (induction hs arbitrary: i j found)
  case Nil
  then show ?case by (subst strstr_loop.simps) simp
next
  case (Cons c hs)
  define j' where "j' = (if c \<noteq> ns ! j then 0 else j)"
  have j': "j' < length ns" "j' \<le> i" using Cons.prems by (auto simp: j'_def)
  have n: "m (np + j) = Some (ns ! j)" "m (np + j') = Some (ns ! j')"
    using Cons.prems(2,3) j' by (auto intro: cstr_nth)
  have end_n: "m (np + Suc j') = Some (if Suc j' = length ns then 0 else ns ! Suc j')"
    using Cons.prems(2) j' cstr_nth[of m np ns "Suc j'"] cstr_end[of m np ns] by (auto simp flip: add_Suc_right)
  have no0: "0 \<notin> set ns" using Cons.prems(2) by (rule cstr_no_nul)
  have nth0: "Suc j' \<noteq> length ns \<Longrightarrow> ns ! Suc j' \<noteq> 0"
    using j' no0 by (metis Suc_lessI nth_mem)
  have c: "m (hp + i) = Some c" "c \<noteq> 0" "cstr m (hp + Suc i) hs"
    using Cons.prems(1) by auto
  have step: "strstr_loop m np (hp + i) (np + j) found =
    (if c = ns ! j' then
       (if Suc j' = length ns then Some (hp + i - j')
        else strstr_loop m np (hp + Suc i) (np + Suc j') (hp + i - j'))
     else strstr_loop m np (hp + Suc i) (np + j') (if j' = 0 then NULL else hp + i - j'))"
  proof (cases "j \<noteq> 0 \<and> c \<noteq> ns ! j")
    case True
    then have "j' = 0" "found \<noteq> 0" using Cons.prems(4-6) by (auto simp: j'_def)
    with True show ?thesis
      using c n end_n nth0 by (subst strstr_loop.simps) (simp add: Let_def)
  next
    case False
    then have "j' = j" by (auto simp: j'_def)
    have "found = 0 \<longleftrightarrow> j = 0" using Cons.prems(4-6) by auto
    with False \<open>j' = j\<close> show ?thesis
      using c n end_n nth0 Cons.prems(6) by (subst strstr_loop.simps) auto
  qed
  consider "c = ns ! j'" "Suc j' = length ns" | "c = ns ! j'" "Suc j' \<noteq> length ns" | "c \<noteq> ns ! j'"
    by blast
  then show ?case
  proof cases
    case 1
    then show ?thesis unfolding step strstr_scan_Cons[OF j'_def] using j' by simp
  next
    case 2
    with j' c(3) Cons.prems(2,5) have "strstr_loop m np (hp + Suc i) (np + Suc j') (hp + i - j') =
        Some (case strstr_scan ns hs (Suc i) (Suc j') of None \<Rightarrow> NULL | Some k \<Rightarrow> hp + k)"
      by (intro Cons.IH) auto
    with 2 show ?thesis unfolding step strstr_scan_Cons[OF j'_def] by simp
  next
    case 3
    then have "j' = 0" by (auto simp: j'_def split: if_splits)
    with 3 j' c(3) Cons.prems(2,5) have "strstr_loop m np (hp + Suc i) (np + j') NULL =
        Some (case strstr_scan ns hs (Suc i) j' of None \<Rightarrow> NULL | Some k \<Rightarrow> hp + k)"
      by (intro Cons.IH) auto
    with 3 \<open>j' = 0\<close> show ?thesis unfolding step strstr_scan_Cons[OF j'_def] by simp
  qed
qed

lemma strstr_scan_eq:
  assumes "cstr m hp hs" "cstr m np ns" "ns \<noteq> []" "hp \<noteq> NULL"
  shows "strstr m hp np = Some (case strstr_scan ns hs 0 0 of None \<Rightarrow> NULL | Some k \<Rightarrow> hp + k)"
proof -
  obtain c where "m np = Some c" "c \<noteq> 0" using assms(2,3) by (cases ns) auto
  then show ?thesis
    using strstr_loop_scan[of m hp 0 hs np ns 0 NULL] assms by (simp add: strstr_def)
qed

text \<open>Soundness: the last \<open>j\<close> bytes read always are the first \<open>j\<close> bytes of the needle.\<close>

lemma strstr_scan_sound:
  assumes "strstr_scan ns hs i j = Some k" "length pre = i" "j \<le> i" "j < length ns"
    "drop (i - j) pre = take j ns"
  shows "occurs_at ns (pre @ hs) k"
  using assms
proof (induction hs arbitrary: i j pre)
  case (Cons c hs)
  define j' where "j' = (if c \<noteq> ns ! j then 0 else j)"
  have j': "j' \<le> i" "j' < length ns" "drop (i - j') pre = take j' ns"
    using Cons.prems by (auto simp: j'_def)
  have match: "drop (i - j') (pre @ [c]) = take (Suc j') ns" if "c = ns ! j'"
    using j' that Cons.prems(2) by (simp add: take_Suc_conv_app_nth)
  show ?case
  proof (cases "c = ns ! j'")
    case True
    show ?thesis
    proof (cases "Suc j' = length ns")
      case True
      with \<open>c = ns ! j'\<close> have "k = i - j'"
        using Cons.prems(1) unfolding strstr_scan_Cons[OF j'_def] by simp
      with match[OF \<open>c = ns ! j'\<close>] True j'(1) Cons.prems(2) have "drop k (pre @ [c]) = ns"
        by simp
      then have "pre @ c # hs = take k pre @ ns @ hs"
        using \<open>k = i - j'\<close> Cons.prems(2) append_take_drop_id[of k "pre @ [c]"] by simp
      moreover have "occurs_at ns (take k pre @ ns @ hs) k"
        using \<open>k = i - j'\<close> Cons.prems(2) by (simp add: occurs_at_def)
      ultimately show ?thesis
        by (simp only:)
    next
      case False
      with \<open>c = ns ! j'\<close> have "strstr_scan ns hs (Suc i) (Suc j') = Some k"
        using Cons.prems(1) unfolding strstr_scan_Cons[OF j'_def] by simp
      then show ?thesis
        using j' match[OF \<open>c = ns ! j'\<close>] False Cons.prems(2)
          Cons.IH[of "Suc i" "Suc j'" "pre @ [c]"] by simp
    qed
  next
    case False
    then have "j' = 0" by (auto simp: j'_def split: if_splits)
    with False have "strstr_scan ns hs (Suc i) 0 = Some k"
      using Cons.prems(1) unfolding strstr_scan_Cons[OF j'_def] by simp
    then show ?thesis
      using j' \<open>j' = 0\<close> Cons.prems(2) Cons.IH[of "Suc i" 0 "pre @ [c]"] by simp
  qed
qed simp

text \<open>
  Completeness for a needle whose first byte does not recur: a failed partial match starting at
  \<open>i - j\<close> then excludes every start up to \<open>i\<close>, so nothing is lost by not backing up.
\<close>

lemma occurs_at_excluded:
  assumes "\<And>q. 0 < q \<Longrightarrow> q < length ns \<Longrightarrow> ns ! q \<noteq> ns ! 0" "length pre = i" "j \<le> i" "j < length ns"
    "drop (i - j) pre = take j ns" "c \<noteq> ns ! j" "i - j \<le> k" "k < i"
  shows "\<not> occurs_at ns (pre @ c # hs) k"
proof
  assume occ: "occurs_at ns (pre @ c # hs) k"
  have nth: "pre ! k = ns ! (k - (i - j))"
  proof -
    have "pre ! k = drop (i - j) pre ! (k - (i - j))"
      using assms(2,7,8) by (subst nth_drop) auto
    also have "\<dots> = take j ns ! (k - (i - j))" using assms(5) by simp
    also have "\<dots> = ns ! (k - (i - j))" using assms(3,7,8) by (intro nth_take) simp
    finally show ?thesis .
  qed
  show False
  proof (cases "k = i - j")
    case True
    then have "(pre @ c # hs) ! (k + j) = ns ! j"
      using occ assms(4) by (simp add: occurs_at_nth)
    with True assms(2,3,6) show False by (auto simp: nth_append)
  next
    case False
    have "(pre @ c # hs) ! (k + 0) = ns ! 0"
      using occ assms(4) unfolding occurs_at_nth by (metis gr_zeroI less_zeroE)
    with nth assms(2,8) have "ns ! (k - (i - j)) = ns ! 0" by (simp add: nth_append)
    with False assms(1)[of "k - (i - j)"] assms(3,4,7,8) show False by simp
  qed
qed

lemma strstr_scan_complete:
  assumes "\<And>q. 0 < q \<Longrightarrow> q < length ns \<Longrightarrow> ns ! q \<noteq> ns ! 0" "length pre = i" "j \<le> i" "j < length ns"
    "drop (i - j) pre = take j ns" "\<And>k. k < i - j \<Longrightarrow> \<not> occurs_at ns (pre @ hs) k"
  shows "case strstr_scan ns hs i j of
      None \<Rightarrow> \<forall>k. \<not> occurs_at ns (pre @ hs) k
    | Some k \<Rightarrow> occurs_at ns (pre @ hs) k \<and> (\<forall>k' < k. \<not> occurs_at ns (pre @ hs) k')"
  using assms(2-6)
proof (induction hs arbitrary: i j pre)
  case Nil
  have "\<not> occurs_at ns pre k" for k
  proof
    assume occ: "occurs_at ns pre k"
    with Nil.prems have "\<not> k < i - j" by auto
    with occ Nil.prems show False by (auto simp: occurs_at_nth)
  qed
  then show ?case by simp
next
  case (Cons c hs)
  define j' where "j' = (if c \<noteq> ns ! j then 0 else j)"
  have j': "j' \<le> i" "j' < length ns" "drop (i - j') pre = take j' ns"
    using Cons.prems by (auto simp: j'_def)
  have none: "\<not> occurs_at ns (pre @ c # hs) k" if "k < i - j'" for k
    using that Cons.prems occurs_at_excluded[OF assms(1) Cons.prems(1-4), of c k hs]
    by (cases "k < i - j") (auto simp: j'_def split: if_splits)
  show ?case
  proof (cases "c = ns ! j'")
    case True
    then have match: "drop (i - j') (pre @ [c]) = take (Suc j') ns"
      using j' Cons.prems(1) by (simp add: take_Suc_conv_app_nth)
    show ?thesis
    proof (cases "Suc j' = length ns")
      case True
      have eq: "strstr_scan ns (c # hs) i j = Some (i - j')"
        unfolding strstr_scan_Cons[OF j'_def] using \<open>c = ns ! j'\<close> True by simp
      with strstr_scan_sound[OF eq Cons.prems(1-3) Cons.prems(4)] none show ?thesis by auto
    next
      case False
      then show ?thesis
        using \<open>c = ns ! j'\<close> j' match none Cons.prems(1) 
          Cons.IH[of "pre @ [c]" "Suc i" "Suc j'", unfolded append_assoc append.simps]
        unfolding strstr_scan_Cons[OF j'_def] by simp
    qed
  next
    case False
    then have "j' = 0" by (auto simp: j'_def split: if_splits)
    have "\<not> occurs_at ns (pre @ c # hs) i"
    proof
      assume "occurs_at ns (pre @ c # hs) i"
      then have "(pre @ c # hs) ! (i + 0) = ns ! 0"
        using j'(2) unfolding occurs_at_nth by (metis gr_zeroI less_zeroE)
      with False \<open>j' = 0\<close> Cons.prems(1) show False by (auto simp: nth_append)
    qed
    with none \<open>j' = 0\<close> have "\<not> occurs_at ns (pre @ c # hs) k" if "k < Suc i" for k
      using that by (auto simp: less_Suc_eq)
    with False j' \<open>j' = 0\<close> Cons.prems(1)
      Cons.IH[of "pre @ [c]" "Suc i" 0, unfolded append_assoc append.simps] show ?thesis
      unfolding strstr_scan_Cons[OF j'_def] by simp
  qed
qed

section \<open>\<open>strtok_r\<close>\<close>

lemma token_rest_shorter:
  assumes "dropWhile (\<lambda>c. c \<in> ds) s \<noteq> []"
  shows "length (tl (dropWhile (\<lambda>c. c \<notin> ds) (dropWhile (\<lambda>c. c \<in> ds) s))) < length s"
proof -
  let ?r = "dropWhile (\<lambda>c. c \<in> ds) s"
  have "length (tl (dropWhile (\<lambda>c. c \<notin> ds) ?r)) < length ?r"
    using assms length_dropWhile_le[of "\<lambda>c. c \<notin> ds" ?r]
    by (cases ?r) (auto intro: le_less_trans)
  also have "\<dots> \<le> length s" by (rule length_dropWhile_le)
  finally show ?thesis .
qed

text \<open>The tokens of a string: its maximal non-empty runs of bytes that are not delimiters.\<close>

function tokens :: "u8 list \<Rightarrow> u8 list \<Rightarrow> u8 list list" where
  "tokens ds s =
     (if dropWhile (\<lambda>c. c \<in> set ds) s = [] then []
      else takeWhile (\<lambda>c. c \<notin> set ds) (dropWhile (\<lambda>c. c \<in> set ds) s) #
        tokens ds (tl (dropWhile (\<lambda>c. c \<notin> set ds) (dropWhile (\<lambda>c. c \<in> set ds) s))))"
  by pat_completeness auto
termination
  by (relation "measure (\<lambda>(ds, s). length s)") (simp_all add: token_rest_shorter del: length_tl dropWhile_eq_Nil_conv)

declare tokens.simps [simp del]

text \<open>What a list of tokens is, independently of the order of evaluation.\<close>

lemma tokens_concat: "concat (tokens ds s) = filter (\<lambda>c. c \<notin> set ds) s"
proof (induction ds s rule: tokens.induct)
  case (1 ds s)
  let ?r = "dropWhile (\<lambda>c. c \<in> set ds) s"
  let ?t = "dropWhile (\<lambda>c. c \<notin> set ds) ?r"
  have skip: "filter (\<lambda>c. c \<notin> set ds) s = filter (\<lambda>c. c \<notin> set ds) ?r"
    by (induction s) auto
  have split: "filter (\<lambda>c. c \<notin> set ds) r =
      takeWhile (\<lambda>c. c \<notin> set ds) r @ filter (\<lambda>c. c \<notin> set ds) (tl (dropWhile (\<lambda>c. c \<notin> set ds) r))" for r
    by (induction r) auto
  show ?case
  proof (cases "?r = []")
    case True
    with skip show ?thesis by (simp add: tokens.simps[of ds s])
  next
    case False
    then show ?thesis
      unfolding skip using 1[OF False] split[of ?r] by (auto simp: tokens.simps[of ds s])
  qed
qed

lemma tokens_clean: "t \<in> set (tokens ds s) \<Longrightarrow> t \<noteq> [] \<and> set t \<inter> set ds = {}"
proof (induction ds s rule: tokens.induct)
  case (1 ds s)
  define r where "r = dropWhile (\<lambda>c. c \<in> set ds) s"
  have eq: "tokens ds s = (if r = [] then []
      else takeWhile (\<lambda>c. c \<notin> set ds) r # tokens ds (tl (dropWhile (\<lambda>c. c \<notin> set ds) r)))"
    unfolding r_def by (rule tokens.simps)
  with "1.prems" have ne: "r \<noteq> []" by auto
  have "hd r \<notin> set ds"
    using hd_dropWhile[OF ne[unfolded r_def]] by (simp add: r_def)
  with ne have first: "takeWhile (\<lambda>c. c \<notin> set ds) r \<noteq> []"
    by (simp only: takeWhile_eq_Nil_iff) simp
  have clean: "set (takeWhile (\<lambda>c. c \<notin> set ds) r) \<inter> set ds = {}"
    by (auto dest: set_takeWhileD)
  have "t = takeWhile (\<lambda>c. c \<notin> set ds) r \<or> t \<in> set (tokens ds (tl (dropWhile (\<lambda>c. c \<notin> set ds) r)))"
    using "1.prems" ne by (simp add: eq)
  then show ?case
    using first clean "1.IH"[folded r_def, OF ne] by (elim disjE) simp_all
qed

text \<open>Where the tokens start in the string.\<close>

function token_starts :: "u8 list \<Rightarrow> u8 list \<Rightarrow> nat list" where
  "token_starts ds s =
     (let r = dropWhile (\<lambda>c. c \<in> set ds) s;
          rest = tl (dropWhile (\<lambda>c. c \<notin> set ds) r)
      in if r = [] then []
         else (length s - length r) # map (\<lambda>k. length s - length rest + k) (token_starts ds rest))"
  by pat_completeness auto
termination
  by (relation "measure (\<lambda>(ds, s). length s)") (simp_all add: token_rest_shorter del: length_tl dropWhile_eq_Nil_conv)

declare token_starts.simps [simp del]

text \<open>\<open>t\<close> is a maximal run of non-delimiters of \<open>s\<close>, at the offset \<open>k\<close>.\<close>

definition run_at :: "u8 list \<Rightarrow> u8 list \<Rightarrow> nat \<Rightarrow> u8 list \<Rightarrow> bool" where
  "run_at ds s k t \<longleftrightarrow> t \<noteq> [] \<and> set t \<inter> set ds = {} \<and> k + length t \<le> length s \<and> take (length t) (drop k s) = t \<and>
     (0 < k \<longrightarrow> s ! (k - 1) \<in> set ds) \<and> (k + length t < length s \<longrightarrow> s ! (k + length t) \<in> set ds)"

lemma run_at_append:
  assumes "run_at ds rest k t" "pre \<noteq> []" "last pre \<in> set ds"
  shows "run_at ds (pre @ rest) (length pre + k) t"
proof -
  have "(pre @ rest) ! (length pre + k - 1) \<in> set ds"
  proof (cases k)
    case 0
    then show ?thesis using assms(2,3) by (simp add: nth_append last_conv_nth)
  next
    case (Suc j)
    then show ?thesis using assms(1) by (simp add: run_at_def nth_append)
  qed
  then show ?thesis using assms(1) by (auto simp: run_at_def nth_append)
qed

lemma token_runs:
  "list_all2 (run_at ds s) (token_starts ds s) (tokens ds s) \<and> sorted_wrt (<) (token_starts ds s)"
proof (induction ds s rule: tokens.induct)
  case (1 ds s)
  define a where "a = takeWhile (\<lambda>c. c \<in> set ds) s"
  define r where "r = dropWhile (\<lambda>c. c \<in> set ds) s"
  define t where "t = takeWhile (\<lambda>c. c \<notin> set ds) r"
  define u where "u = dropWhile (\<lambda>c. c \<notin> set ds) r"
  have toks: "tokens ds s = (if r = [] then [] else t # tokens ds (tl u))"
    unfolding r_def t_def u_def by (rule tokens.simps)
  have starts: "token_starts ds s =
      (if r = [] then [] else (length s - length r) # map (\<lambda>k. length s - length (tl u) + k) (token_starts ds (tl u)))"
    unfolding r_def u_def by (simp add: token_starts.simps[of ds s] Let_def)
  have s: "s = a @ r" "r = t @ u" by (simp_all add: a_def r_def t_def u_def)
  show ?case
  proof (cases "r = []")
    case True
    then show ?thesis by (simp add: toks starts)
  next
    case False
    have IH: "list_all2 (run_at ds (tl u)) (token_starts ds (tl u)) (tokens ds (tl u))"
      "sorted_wrt (<) (token_starts ds (tl u))"
      using "1.IH" False unfolding r_def u_def by simp_all
    have "hd r \<notin> set ds" using hd_dropWhile[OF False[unfolded r_def]] by (simp add: r_def)
    then have t: "t \<noteq> []" "set t \<inter> set ds = {}"
      using False by (cases r; auto simp: t_def dest: set_takeWhileD)+
    have la: "a \<noteq> [] \<Longrightarrow> last a \<in> set ds"
      unfolding a_def by (metis last_in_set set_takeWhileD)
    have hu: "u \<noteq> [] \<Longrightarrow> hd u \<in> set ds" using hd_dropWhile[of "\<lambda>c. c \<notin> set ds" r] by (simp add: u_def)
    have first: "run_at ds s (length a) t"
    proof -
      have "0 < length a \<longrightarrow> s ! (length a - 1) \<in> set ds" using la by (auto simp: s nth_append last_conv_nth)
      moreover have "length a + length t < length s \<longrightarrow> s ! (length a + length t) \<in> set ds"
        using hu by (auto simp: s nth_append hd_conv_nth)
      ultimately show ?thesis using t by (simp add: run_at_def s)
    qed
    show ?thesis
    proof (cases u)
      case Nil
      then have "tokens ds (tl u) = []" "token_starts ds (tl u) = []"
        by (simp_all add: tokens.simps token_starts.simps)
      moreover have "length s - length r = length a" using s by simp
      ultimately show ?thesis using first False by (simp add: toks starts)
    next
      case (Cons x rest)
      let ?pre = "a @ t @ [x]"
      have sp: "s = ?pre @ rest" using s Cons by simp
      have "run_at ds s (length ?pre + k) v" if "run_at ds rest k v" for k v
        unfolding sp using hu Cons by (intro run_at_append[OF that]) simp_all
      moreover have l: "length s - length rest = length ?pre" "length s - length r = length a" using sp s by simp_all
      ultimately show ?thesis
        using first IH False Cons t(1)
        by (auto simp: toks starts list_all2_map1 sorted_wrt_map elim!: list_all2_mono)
    qed
  qed
qed

text \<open>One call: the pointers and the memory it returns.\<close>

lemma strtok_r_none:
  assumes "cstr m p s" "cstr m d ds" "p \<noteq> NULL" "q = p \<or> q = NULL \<and> save = p"
    "dropWhile (\<lambda>c. c \<in> set ds) s = []"
  shows "strtok_r m q d save = Some (NULL, p + length s, m)"
proof -
  have all: "length (takeWhile (\<lambda>c. c \<in> set ds) s) = length s"
    using assms(5) by (metis append_Nil2 takeWhile_dropWhile_id)
  show ?thesis
    using assms(3,4)
    by (auto simp: strtok_r_def strspn_exact[OF assms(1,2)] all cstr_end[OF assms(1)] Let_def)
qed

lemma strtok_r_token:
  assumes "cstr m p s" "cstr m d ds" "p \<noteq> NULL" "q = p \<or> q = NULL \<and> save = p"
    and r: "r = dropWhile (\<lambda>c. c \<in> set ds) s" "r \<noteq> []"
    and t: "t = takeWhile (\<lambda>c. c \<notin> set ds) r" and k: "k = length s - length r"
  shows "strtok_r m q d save =
    Some (p + k,
      (if t = r then p + length s else p + k + length t + 1),
      (if t = r then m else m(p + k + length t \<mapsto> 0)))"
proof -
  have len: "length (takeWhile (\<lambda>c. c \<in> set ds) s) = k"
    using arg_cong[OF takeWhile_dropWhile_id[of "\<lambda>c. c \<in> set ds" s], of length]
    unfolding k r(1) length_append by linarith
  have r_drop: "r = drop k s"
    unfolding k r(1) by (rule dropWhile_drop)
  have ks: "k \<le> length s" using k by simp
  have cr: "cstr m (p + k) r"
    unfolding r_drop using assms(1) ks by (rule cstr_drop)
  obtain c where c: "m (p + k) = Some c" "c \<noteq> 0"
    using cr r(2) by (cases r) auto
  have pbrk: "strpbrk m (p + k) d = Some (if set r \<inter> set ds = {} then NULL else p + k + length t)"
    using strpbrk_exact[OF cr assms(2)] by (simp add: t)
  have tr: "t = r \<longleftrightarrow> set r \<inter> set ds = {}"
    unfolding t takeWhile_eq_all_conv by auto
  have sum: "p + k + length r = p + length s" using r_drop ks by simp
  have raw: "rawmemchr m (p + k) 0 = Some (p + length s)"
    using rawmemchr_exact[of m "p + k" r 0] cstr_load[OF cr] cstr_no_nul[OF cr] sum by simp
  have m_end: "t \<noteq> r \<Longrightarrow> m (p + k + length t) \<noteq> None"
    using cstr_mapped[OF cr] length_takeWhile_le[of "\<lambda>c. c \<notin> set ds" r]
    by (auto simp: t mapped_def)
  show ?thesis
    using assms(3,4) c pbrk raw m_end tr
    by (auto simp: strtok_r_def strspn_exact[OF assms(1,2)] len Let_def)
qed

text \<open>
  The contract of one call, over the strings it is given and leaves behind: \<open>NULL\<close> when there is
  no token left; otherwise the first token, now terminated in place, and in \<open>*saveptr\<close> a string
  whose tokens are the remaining ones. Only the bytes of the string are written.
\<close>

lemma strtok_r_step:
  assumes "cstr m p s" "cstr m d ds" "p \<noteq> NULL" "q = p \<or> q = NULL \<and> save = p"
    "disjnt p (Suc (length s)) d (Suc (length ds))"
  shows "case tokens ds s of
      [] \<Rightarrow> strtok_r m q d save = Some (NULL, p + length s, m)
    | t # ts \<Rightarrow> \<exists>tok save' m' rest. strtok_r m q d save = Some (tok, save', m') \<and>
        p \<le> tok \<and> cstr m' tok t \<and> (tok + length t < save' \<or> rest = []) \<and>
        cstr m' save' rest \<and> save' + length rest = p + length s \<and> length rest < length s \<and>
        rest = drop (length s - length rest) s \<and>
        token_starts ds s = (tok - p) # map (\<lambda>k. length s - length rest + k) (token_starts ds rest) \<and>
        tokens ds rest = ts \<and> cstr m' d ds \<and>
        (\<forall>a. m' a = m a \<or> (p \<le> a \<and> a < p + length s \<and> m' a = Some 0 \<and> s ! (a - p) \<in> set ds))"
proof -
  define r where "r = dropWhile (\<lambda>c. c \<in> set ds) s"
  define t where "t = takeWhile (\<lambda>c. c \<notin> set ds) r"
  define u where "u = dropWhile (\<lambda>c. c \<notin> set ds) r"
  define k where "k = length s - length r"
  have toks: "tokens ds s = (if r = [] then [] else t # tokens ds (tl u))"
    unfolding r_def t_def u_def by (rule tokens.simps)
  have starts: "token_starts ds s =
      (if r = [] then [] else k # map (\<lambda>k. length s - length (tl u) + k) (token_starts ds (tl u)))"
    unfolding r_def u_def k_def by (simp add: token_starts.simps[of ds s] Let_def)
  have rtu: "r = t @ u" by (simp add: t_def u_def)
  have kr: "k + length r = length s"
    using length_dropWhile_le[of "\<lambda>c. c \<in> set ds" s] by (simp add: k_def r_def)
  have "r = drop k s" unfolding k_def r_def by (rule dropWhile_drop)
  then have cr: "cstr m (p + k) (t @ u)"
    using assms(1) kr cstr_drop[of m p s k] rtu by simp
  show ?thesis
  proof (cases "r = []")
    case True
    with strtok_r_none[OF assms(1-4)] show ?thesis by (simp add: toks r_def)
  next
    case False
    have call: "strtok_r m q d save = Some (p + k,
        (if t = r then p + length s else p + k + length t + 1),
        (if t = r then m else m(p + k + length t \<mapsto> 0)))"
      using assms(1-4) r_def False t_def k_def by (rule strtok_r_token)
    show ?thesis
    proof (cases u)
      case Nil
      then have "t = r" using rtu by simp
      moreover have "tokens ds [] = []" "token_starts ds [] = []"
        by (simp_all add: tokens.simps token_starts.simps)
      ultimately show ?thesis
        using call False Nil cr kr assms(1,2) by (auto simp: toks starts cstr_end)
    next
      case (Cons x rest)
      then have ne: "t \<noteq> r" using rtu by simp
      define e where "e = p + k + length t"
      have e: "p \<le> e" "e < p + length s" using kr rtu Cons by (auto simp: e_def)
      have s: "s = take k s @ t @ x # rest"
        using \<open>r = drop k s\<close> rtu Cons by (metis append_take_drop_id)
      have tail: "length s - length rest = k + length t + 1" "rest = drop (k + length t + 1) s"
        using arg_cong[OF s, of "drop (k + length t + 1)"] kr rtu Cons by simp_all
      have "\<not> x \<notin> set ds"
        using hd_dropWhile[of "\<lambda>c. c \<notin> set ds" r, folded u_def] Cons by simp
      then have "x \<in> set ds" by simp
      moreover have "s ! (e - p) = x"
        using arg_cong[OF s, of "\<lambda>l. l ! (e - p)"] kr by (simp add: e_def nth_append)
      ultimately have delim: "s ! (e - p) \<in> set ds" by simp
      have "cstr (m(e \<mapsto> 0)) (p + k) t"
        using cr by (auto simp: cstr_append cstr_iff[of _ _ t] load_upd_other e_def)
      moreover have "cstr (m(e \<mapsto> 0)) (e + 1) rest"
        using cr Cons by (auto simp: cstr_append e_def intro: cstr_cong)
      moreover have "cstr (m(e \<mapsto> 0)) d ds"
        using assms(2,5) e by (auto simp: disjnt_def intro: cstr_cong)
      ultimately show ?thesis
        using call ne False Cons kr rtu e delim tail by (auto simp: toks starts e_def)
    qed
  qed
qed

text \<open>
  A run of calls as a client makes them: the first with the string, the next ones with \<open>NULL\<close>,
  until \<open>NULL\<close> is returned. \<open>fuel\<close> bounds the number of calls; one more than the length of the
  string is enough, since every token consumes at least one byte.
\<close>

fun strtok_run :: "nat \<Rightarrow> mem \<Rightarrow> ptr \<Rightarrow> ptr \<Rightarrow> ptr \<Rightarrow> (ptr list \<times> mem) option" where
  "strtok_run 0 m q d save = None"
| "strtok_run (Suc fuel) m q d save = do {
     (tok, save', m') \<leftarrow> strtok_r m q d save;
     if tok = NULL then Some ([], m')
     else do { (toks, m'') \<leftarrow> strtok_run fuel m' NULL d save'; Some (tok # toks, m'') } }"

lemma strtok_run_tokens:
  assumes "cstr m p s" "cstr m d ds" "p \<noteq> NULL" "q = p \<or> q = NULL \<and> save = p"
    "disjnt p (Suc (length s)) d (Suc (length ds))" "length s < fuel"
  shows "\<exists>toks m'. strtok_run fuel m q d save = Some (toks, m') \<and>
    list_all2 (cstr m') toks (tokens ds s) \<and> toks = map (\<lambda>k. p + k) (token_starts ds s) \<and>
    (\<forall>a. m' a = m a \<or> (p \<le> a \<and> a < p + length s \<and> m' a = Some 0 \<and> s ! (a - p) \<in> set ds))"
  using assms
proof (induction fuel arbitrary: m p s q save)
  case (Suc fuel)
  show ?case
  proof (cases "tokens ds s")
    case Nil
    then have "token_starts ds s = []" using token_runs[of ds s] by simp
    then show ?thesis using Nil strtok_r_step[OF Suc.prems(1-5)] by simp
  next
    case (Cons t ts)
    then obtain tok save' m1 rest where call: "strtok_r m q d save = Some (tok, save', m1)"
      and tok: "p \<le> tok" "cstr m1 tok t" "tok + length t < save' \<or> rest = []"
      and rest: "cstr m1 save' rest" "save' + length rest = p + length s" "length rest < length s"
        "tokens ds rest = ts" "cstr m1 d ds"
      and place: "rest = drop (length s - length rest) s"
        "token_starts ds s = (tok - p) # map (\<lambda>k. length s - length rest + k) (token_starts ds rest)"
      and frame: "\<And>a. m1 a = m a \<or> (p \<le> a \<and> a < p + length s \<and> m1 a = Some 0 \<and> s ! (a - p) \<in> set ds)"
      using strtok_r_step[OF Suc.prems(1-5)] by auto
    have "disjnt save' (Suc (length rest)) d (Suc (length ds))"
      using rest(2,3) Suc.prems(5) by (auto simp: disjnt_def)
    moreover have "save' \<noteq> NULL" using rest(2,3) by simp
    ultimately obtain toks m2 where run: "strtok_run fuel m1 NULL d save' = Some (toks, m2)"
      and all: "list_all2 (cstr m2) toks ts" and at: "toks = map (\<lambda>k. save' + k) (token_starts ds rest)"
      and frame2: "\<And>a. m2 a = m1 a \<or>
        (save' \<le> a \<and> a < save' + length rest \<and> m2 a = Some 0 \<and> rest ! (a - save') \<in> set ds)"
      using Suc.IH[of m1 save' rest NULL save'] rest Suc.prems(6) by auto
    have "cstr m2 tok t"
    proof (rule cstr_cong[OF tok(2)])
      fix i assume "i \<le> length t"
      with tok(3) frame2[of "tok + i"] show "m2 (tok + i) = m1 (tok + i)" by auto
    qed
    moreover have "m2 a = m a \<or> (p \<le> a \<and> a < p + length s \<and> m2 a = Some 0 \<and> s ! (a - p) \<in> set ds)" for a
    proof (cases "m2 a = m1 a")
      case True
      then show ?thesis using frame[of a] by auto
    next
      case False
      then have a: "save' \<le> a" "a < save' + length rest" "m2 a = Some 0" "rest ! (a - save') \<in> set ds"
        using frame2[of a] by auto
      have "rest ! (a - save') = s ! (length s - length rest + (a - save'))"
        by (subst place(1)) (simp add: rest(3) less_imp_le)
      also have "length s - length rest + (a - save') = a - p" using a(1) rest(2,3) by simp
      finally show ?thesis using a rest(2,3) by simp
    qed
    moreover have "tok # toks = map (\<lambda>k. p + k) (token_starts ds s)"
      using tok(1) rest(2,3) by (auto simp: place(2) at)
    ultimately show ?thesis
      using call run all Cons tok(1) Suc.prems(3) by (auto simp del: map_map split: prod.splits)
  qed
qed simp

section \<open>Properties\<close>

text \<open>\<open>strstr\<close> on two strings always returns, and every address it returns is an occurrence of
  the needle in the haystack (the haystack itself for an empty needle).\<close>

theorem strstr_sound:
  assumes "cstr m hp hs" "cstr m np ns" "hp \<noteq> NULL"
  shows "\<exists>r. strstr m hp np = Some r \<and> (ns = [] \<longrightarrow> r = hp) \<and>
    (r \<noteq> NULL \<longrightarrow> hp \<le> r \<and> occurs_at ns hs (r - hp))"
proof (cases "ns = []")
  case True
  with assms(2) show ?thesis by (simp add: strstr_def occurs_at_def)
next
  case False
  then have "occurs_at ns hs k" if "strstr_scan ns hs 0 0 = Some k" for k
    using strstr_scan_sound[OF that, of "[]"] by simp
  then show ?thesis
    using strstr_scan_eq[OF assms(1,2) False assms(3)] False by (auto split: option.split)
qed

text \<open>C39. When the first character of the needle does not recur in it, \<open>strstr\<close> is exact: it
  returns the first occurrence, and \<open>NULL\<close> only if there is none.\<close>

theorem strstr_first_occurrence:
  assumes "cstr m hp hs" "cstr m np ns" "ns \<noteq> []" "hp \<noteq> NULL" "hd ns \<notin> set (tl ns)"
  shows "strstr m hp np = Some NULL \<and> (\<forall>k. \<not> occurs_at ns hs k) \<or>
    (\<exists>k. strstr m hp np = Some (hp + k) \<and> occurs_at ns hs k \<and> (\<forall>j < k. \<not> occurs_at ns hs j))"
proof -
  have "ns ! q \<noteq> ns ! 0" if "0 < q" "q < length ns" for q
  proof -
    have "ns ! q = tl ns ! (q - 1)" "q - 1 < length (tl ns)"
      using that assms(3) by (auto simp: nth_tl)
    then have "ns ! q \<in> set (tl ns)" by simp
    with assms(3,5) show ?thesis by (auto simp: hd_conv_nth)
  qed
  then have "case strstr_scan ns hs 0 0 of
      None \<Rightarrow> \<forall>k. \<not> occurs_at ns ([] @ hs) k
    | Some k \<Rightarrow> occurs_at ns ([] @ hs) k \<and> (\<forall>k' < k. \<not> occurs_at ns ([] @ hs) k')"
    using assms(3) by (intro strstr_scan_complete) auto
  then show ?thesis
    using strstr_scan_eq[OF assms(1-4)] by (auto split: option.splits)
qed

theorem strstr_first_occurrence_witness:
  "strstr (store (string_at 8 ''xaabc'') 20 (lit ''ab'' @ [0])) 8 20 = Some 10"
proof -
  let ?m = "store (string_at 8 ''xaabc'') 20 (lit ''ab'' @ [0])"
  have s: "cstr ?m 8 (lit ''xaabc'')" and a: "cstr ?m 20 (lit ''ab'')"
    by (rule cstr_store_disjnt[OF cstr_string_at]; simp add: disjnt_def)
      (rule cstr_store_same, simp)
  have occ: "occurs_at (lit ''ab'') (lit ''xaabc'') k \<longleftrightarrow> k = 2" for k
  proof (cases "k < 5")
    case True
    then have "k = 0 \<or> k = 1 \<or> k = 2 \<or> k = 3 \<or> k = 4" by auto
    then show ?thesis by (auto simp: occurs_at_def)
  qed (simp add: occurs_at_def)
  show ?thesis
    using strstr_first_occurrence[OF s a] unfolding occ by simp
qed

theorem strstr_sound_witness:
  "\<exists>r. strstr (store (string_at 8 ''xaabc'') 20 [0]) 8 20 = Some r \<and> r = 8"
proof -
  let ?m = "store (string_at 8 ''xaabc'') 20 [0]"
  have s: "cstr ?m 8 (lit ''xaabc'')" and a: "cstr ?m 20 []"
    by (rule cstr_store_disjnt[OF cstr_string_at]; simp add: disjnt_def) (simp add: store_def)
  show ?thesis using strstr_sound[OF s a] by auto
qed

text \<open>\<open>strstr\<close> misses an occurrence that overlaps a failed partial match: it restarts the
  needle at the mismatch and never goes back in the haystack. In \<open>aaab\<close> it does not find \<open>aab\<close>.\<close>

theorem strstr_misses:
  "strstr (store (string_at 8 ''aaab'') 20 (lit ''aab'' @ [0])) 8 20 = Some NULL \<and>
   occurs_at (lit ''aab'') (lit ''aaab'') 1"
proof -
  let ?m = "store (string_at 8 ''aaab'') 20 (lit ''aab'' @ [0])"
  have s: "cstr ?m 8 (lit ''aaab'')" and a: "cstr ?m 20 (lit ''aab'')"
    by (rule cstr_store_disjnt[OF cstr_string_at]; simp add: disjnt_def)
      (rule cstr_store_same, simp)
  show ?thesis
    using strstr_scan_eq[OF s a] by (simp add: strstr_scan.simps occurs_at_def)
qed

text \<open>C11. A caller that passes the string and then \<open>NULL\<close> to \<open>strtok_r\<close> until it returns \<open>NULL\<close>
  terminates and obtains one pointer per token of the string, in order: each points into the
  string, to where a maximal run of non-delimiters starts, and is now a terminated string with
  the bytes of the run; together the tokens are all the non-delimiters. The only bytes written
  are delimiters of the string, now NULs. The string is not at \<open>NULL\<close>, and the string of
  delimiters, the same in every call, does not overlap it.\<close>

theorem strtok_r_tokens:
  assumes "cstr m p s" "cstr m d ds" "p \<noteq> NULL" "disjnt p (Suc (length s)) d (Suc (length ds))"
  shows "\<exists>ks m'. strtok_run (Suc (length s)) m p d save = Some (map (\<lambda>k. p + k) ks, m') \<and>
    sorted_wrt (<) ks \<and> list_all2 (run_at ds s) ks (tokens ds s) \<and>
    list_all2 (\<lambda>k. cstr m' (p + k)) ks (tokens ds s) \<and>
    concat (tokens ds s) = filter (\<lambda>c. c \<notin> set ds) s \<and>
    (\<forall>t \<in> set (tokens ds s). t \<noteq> [] \<and> set t \<inter> set ds = {}) \<and>
    (\<forall>a. m' a = m a \<or> (p \<le> a \<and> a < p + length s \<and> m' a = Some 0 \<and> s ! (a - p) \<in> set ds))"
proof -
  obtain toks m' where run: "strtok_run (Suc (length s)) m p d save = Some (toks, m')"
    and all: "list_all2 (cstr m') toks (tokens ds s)" and at: "toks = map (\<lambda>k. p + k) (token_starts ds s)"
    and frame: "\<And>a. m' a = m a \<or> (p \<le> a \<and> a < p + length s \<and> m' a = Some 0 \<and> s ! (a - p) \<in> set ds)"
    using strtok_run_tokens[OF assms(1-3) _ assms(4), of p save "Suc (length s)"] by auto
  have "list_all2 (\<lambda>k. cstr m' (p + k)) (token_starts ds s) (tokens ds s)"
    using all by (simp add: at list_all2_map1)
  then show ?thesis
    using run frame token_runs[of ds s] tokens_concat[of ds s] tokens_clean[of _ ds s]
    unfolding at by (intro exI[of _ "token_starts ds s"] exI[of _ m'] conjI ballI) auto
qed

theorem strtok_r_tokens_witness:
  "\<exists>k l m'. strtok_run 7 (store (string_at 8 '',ab,,c'') 20 (lit '','' @ [0])) 8 20 NULL = Some ([8 + k, 8 + l], m') \<and>
     k < l \<and> cstr m' (8 + k) (lit ''ab'') \<and> cstr m' (8 + l) (lit ''c'') \<and> take 2 (drop k (lit '',ab,,c'')) = lit ''ab''"
proof -
  let ?m = "store (string_at 8 '',ab,,c'') 20 (lit '','' @ [0])"
  have s: "cstr ?m 8 (lit '',ab,,c'')" and a: "cstr ?m 20 (lit '','')"
    by (rule cstr_store_disjnt[OF cstr_string_at]; simp add: disjnt_def)
      (rule cstr_store_same, simp)
  have toks: "tokens (lit '','') (lit '',ab,,c'') = [lit ''ab'', lit ''c'']" by code_simp
  have len: "Suc (length (lit '',ab,,c'')) = 7" by simp
  have dis: "disjnt 8 (Suc (length (lit '',ab,,c''))) 20 (Suc (length (lit '','')))"
    by (simp add: disjnt_def)
  obtain ks m' where run: "strtok_run 7 ?m 8 20 NULL = Some (map (\<lambda>k. 8 + k) ks, m')" "sorted_wrt (<) ks"
    and at: "list_all2 (run_at (lit '','') (lit '',ab,,c'')) ks [lit ''ab'', lit ''c'']"
    "list_all2 (\<lambda>k. cstr m' (8 + k)) ks [lit ''ab'', lit ''c'']"
    using strtok_r_tokens[OF s a _ dis, of NULL] unfolding toks len by auto
  from at obtain k l where "ks = [k, l]" by (auto simp: list_all2_Cons2)
  then have ks: "map (\<lambda>k. 8 + k) ks = [8 + k, 8 + l]" "k < l"
    "cstr m' (8 + k) (lit ''ab'')" "cstr m' (8 + l) (lit ''c'')" "run_at (lit '','') (lit '',ab,,c'') k (lit ''ab'')"
    using run(2) at by simp_all
  then have "take 2 (drop k (lit '',ab,,c'')) = lit ''ab''" by (simp add: run_at_def numeral_2_eq_2)
  then show ?thesis using run(1) ks(2-4) unfolding ks(1) by blast
qed

end
