(* ===== verification/CString_Compare.thy ===== *)
theory CString_Compare
  imports CString Ctype
begin

text \<open>
  The comparison functions of \<open>c/string.c\<close> and \<open>c/strings.c\<close>. All five share one contract, the
  locale \<open>c_comparator\<close>: the sign of the result is the lexicographic order of the keys of the two
  arguments, where the key is the list of the \<open>int\<close> values the function compares. The order
  laws a caller relies on (antisymmetry, transitivity) are proved once in the locale, which is
  interpreted on each function.
\<close>

section \<open>\<open>c/strings.c\<close>\<close>

partial_function (option) strcasecmp :: "mem \<Rightarrow> ptr \<Rightarrow> ptr \<Rightarrow> int option" where
  "strcasecmp m s1 s2 = do {
     b1 \<leftarrow> m s1;
     b2 \<leftarrow> m s2;
     let c1 = (word_of_int (tolower (uint b1)) :: u32);
     let c2 = (word_of_int (tolower (uint b2)) :: u32);
     if c1 = 0 \<or> c1 \<noteq> c2 then Some (sint (c1 - c2))
     else strcasecmp m (Suc s1) (Suc s2) }"

fun strncasecmp :: "mem \<Rightarrow> ptr \<Rightarrow> ptr \<Rightarrow> nat \<Rightarrow> int option" where
  "strncasecmp m s1 s2 0 = Some 0"
| "strncasecmp m s1 s2 (Suc n) = do {
     b1 \<leftarrow> m s1;
     b2 \<leftarrow> m s2;
     let c1 = (word_of_int (tolower (uint b1)) :: u8);
     let c2 = (word_of_int (tolower (uint b2)) :: u8);
     if c1 = 0 \<or> c1 \<noteq> c2 then Some (uint c1 - uint c2)
     else strncasecmp m (Suc s1) (Suc s2) n }"

section \<open>The contract of a comparison\<close>

locale c_comparator =
  fixes cmp :: "mem \<Rightarrow> 'p \<Rightarrow> 'p \<Rightarrow> int option"
    and key :: "mem \<Rightarrow> 'p \<Rightarrow> int list \<Rightarrow> bool"
  assumes cmp_key: "key m p s \<Longrightarrow> key m q t \<Longrightarrow>
    \<exists>r. cmp m p q = Some r \<and> (r < 0 \<longleftrightarrow> ord_class.lexordp s t) \<and> (r = 0 \<longleftrightarrow> s = t)"
begin

lemma cmp_refl: "key m p s \<Longrightarrow> cmp m p p = Some 0"
  using cmp_key[of m p s p s] by auto

lemma cmp_pos: "key m p s \<Longrightarrow> key m q t \<Longrightarrow> cmp m p q = Some r \<Longrightarrow> r > 0 \<longleftrightarrow> ord_class.lexordp t s"
  using cmp_key[of m p s q t] lexordp_linear[of s t] lexordp_antisym[of s t] lexordp_irreflexive'[of s]
  by (auto simp: not_less)

lemma cmp_swap:
  assumes "key m p s" "key m q t" "cmp m p q = Some a" "cmp m q p = Some b"
  shows "sgn b = - sgn a"
proof -
  have "a > 0 \<longleftrightarrow> b < 0" "b > 0 \<longleftrightarrow> a < 0" "a = 0 \<longleftrightarrow> b = 0"
    using assms cmp_key[OF assms(1,2)] cmp_key[OF assms(2,1)]
      cmp_pos[OF assms(1-3)] cmp_pos[OF assms(2,1,4)] by auto
  then show ?thesis by (auto simp: sgn_if)
qed

lemma cmp_trans:
  assumes "key m p s" "key m q t" "key m v u"
    "cmp m p q = Some a" "a \<le> 0" "cmp m q v = Some b" "b \<le> 0"
  shows "\<exists>c. cmp m p v = Some c \<and> c \<le> 0 \<and> (c = 0 \<longleftrightarrow> a = 0 \<and> b = 0)"
proof -
  obtain c where c: "cmp m p v = Some c" "c < 0 \<longleftrightarrow> ord_class.lexordp s u" "c = 0 \<longleftrightarrow> s = u"
    using cmp_key[OF assms(1,3)] by auto
  have a: "a < 0 \<longleftrightarrow> ord_class.lexordp s t" "a = 0 \<longleftrightarrow> s = t"
    using cmp_key[OF assms(1,2)] assms(4) by auto
  have b: "b < 0 \<longleftrightarrow> ord_class.lexordp t u" "b = 0 \<longleftrightarrow> t = u"
    using cmp_key[OF assms(2,3)] assms(6) by auto
  show ?thesis
    using a b c assms(5,7) lexordp_trans[of s t u] lexordp_irreflexive'[of s]
      lexordp_antisym[of s t] by (cases "a = 0"; cases "b = 0") auto
qed

end

section \<open>First differences\<close>

fun diff :: "int list \<Rightarrow> int list \<Rightarrow> int" where
  "diff [] [] = 0"
| "diff [] (b # t) = - b"
| "diff (a # s) [] = a"
| "diff (a # s) (b # t) = (if a = b then diff s t else a - b)"

lemma diff_sign_strings:
  "\<forall>x \<in> set s \<union> set t. 0 < x \<Longrightarrow>
    (diff s t < 0 \<longleftrightarrow> ord_class.lexordp s t) \<and> (diff s t = 0 \<longleftrightarrow> s = t)"
  by (induction s t rule: diff.induct) auto

lemma diff_sign_blocks:
  "length s = length t \<Longrightarrow>
    (diff s t < 0 \<longleftrightarrow> ord_class.lexordp s t) \<and> (diff s t = 0 \<longleftrightarrow> s = t)"
  by (induction s t rule: diff.induct) auto

lemma memcmp_diff:
  "load m p n = Some bs \<Longrightarrow> load m q n = Some cs \<Longrightarrow>
    memcmp m p q n = Some (diff (map sint bs) (map sint cs))"
proof (induction n arbitrary: p q bs cs)
  case (Suc n)
  then show ?case by (auto simp: bind_eq_Some_conv)
qed simp

lemma strcmp_diff:
  "cstr m p s \<Longrightarrow> cstr m q t \<Longrightarrow> strcmp m p q = Some (diff (map uint s) (map uint t))"
proof (induction s arbitrary: p q t)
  case Nil
  then show ?case by (cases t) (subst strcmp.simps, simp)+
next
  case (Cons c s)
  then show ?case by (cases t) (subst strcmp.simps, simp)+
qed

lemma strncmp_diff:
  "cstr m p s \<Longrightarrow> cstr m q t \<Longrightarrow>
    strncmp m p q n = Some (diff (map uint (take n s)) (map uint (take n t)))"
proof (induction n arbitrary: p q s t)
  case (Suc n)
  then show ?case by (cases s; cases t) auto
qed simp

subsection \<open>Case folding\<close>

definition fold_case :: "u8 \<Rightarrow> int" where
  "fold_case b = tolower (uint b)"

lemma fold_case_bounds: "0 \<le> fold_case b \<and> fold_case b < 256 \<and> (fold_case b = 0 \<longleftrightarrow> b = 0)"
proof -
  have "0 \<le> uint b" "uint b < 256" "uint b = 0 \<longleftrightarrow> b = 0"
    using uint_lt2p[of b] by (auto simp: uint_0_iff)
  then show ?thesis
    by (auto simp: fold_case_def tolower_def isupper_iff Let_def)
qed

lemma fold_case_u8: "uint (word_of_int (fold_case b) :: u8) = fold_case b"
  using fold_case_bounds[of b] by (simp add: unsigned_of_int take_bit_int_eq_self)

lemma fold_case_u32: "uint (word_of_int (fold_case b) :: u32) = fold_case b"
  using fold_case_bounds[of b] by (simp add: unsigned_of_int take_bit_int_eq_self)

lemma fold_case_u32_diff:
  "sint (word_of_int (fold_case b) - word_of_int (fold_case c) :: u32) = fold_case b - fold_case c"
proof -
  have "word_of_int (fold_case b) - word_of_int (fold_case c) = (word_of_int (fold_case b - fold_case c) :: u32)"
    by simp
  moreover have "to_int (fold_case b - fold_case c) = fold_case b - fold_case c"
    using fold_case_bounds[of b] fold_case_bounds[of c] by (intro to_int_id) auto
  ultimately show ?thesis by (simp only: to_int_def)
qed

lemma fold_case_u8_eq: "(word_of_int (fold_case b) :: u8) = word_of_int (fold_case c) \<longleftrightarrow> fold_case b = fold_case c"
  by (metis fold_case_u8)

lemma fold_case_u32_eq: "(word_of_int (fold_case b) :: u32) = word_of_int (fold_case c) \<longleftrightarrow> fold_case b = fold_case c"
  by (metis fold_case_u32)

lemma fold_case_0: "(word_of_int (fold_case b) :: u32) = 0 \<longleftrightarrow> b = 0" "(word_of_int (fold_case b) :: u8) = 0 \<longleftrightarrow> b = 0"
  using fold_case_bounds[of b] fold_case_u32[of b] fold_case_u8[of b] by (metis unsigned_0 of_int_0)+

lemma strcasecmp_step:
  "m p = Some b \<Longrightarrow> m q = Some c \<Longrightarrow> strcasecmp m p q =
    (if b = 0 \<or> fold_case b \<noteq> fold_case c then Some (fold_case b - fold_case c)
     else strcasecmp m (Suc p) (Suc q))"
  by (subst strcasecmp.simps)
    (simp add: Let_def fold_case_0 fold_case_u32_eq fold_case_u32_diff flip: fold_case_def)

lemma strcasecmp_diff:
  "cstr m p s \<Longrightarrow> cstr m q t \<Longrightarrow> strcasecmp m p q = Some (diff (map fold_case s) (map fold_case t))"
proof (induction s arbitrary: p q t)
  case Nil
  have "fold_case 0 = 0" using fold_case_bounds[of 0] by simp
  with Nil show ?case by (cases t) (simp_all add: strcasecmp_step)
next
  case (Cons c s)
  have "fold_case 0 = 0" "fold_case c \<noteq> 0" using fold_case_bounds[of 0] fold_case_bounds[of c] Cons.prems by auto
  with Cons show ?case by (cases t) (simp_all add: strcasecmp_step)
qed

lemma strncasecmp_step:
  "m p = Some b \<Longrightarrow> m q = Some c \<Longrightarrow> strncasecmp m p q (Suc n) =
    (if b = 0 \<or> fold_case b \<noteq> fold_case c then Some (fold_case b - fold_case c)
     else strncasecmp m (Suc p) (Suc q) n)"
  by (simp add: Let_def fold_case_0 fold_case_u8_eq fold_case_u8 flip: fold_case_def)

lemma strncasecmp_diff:
  "cstr m p s \<Longrightarrow> cstr m q t \<Longrightarrow> strncasecmp m p q n =
    Some (diff (map fold_case (take n s)) (map fold_case (take n t)))"
proof (induction n arbitrary: p q s t)
  case (Suc n)
  have z: "fold_case 0 = 0" "\<And>c. c \<noteq> 0 \<Longrightarrow> fold_case c \<noteq> 0"
    using fold_case_bounds by auto
  with Suc show ?case
    by (cases s; cases t) (simp_all add: strncasecmp_step del: strncasecmp.simps)
qed simp

section \<open>The five comparisons meet the contract\<close>

definition block_key :: "nat \<Rightarrow> mem \<Rightarrow> ptr \<Rightarrow> int list \<Rightarrow> bool" where
  "block_key n m p k \<longleftrightarrow> (\<exists>bs. load m p n = Some bs \<and> k = map sint bs)"

definition string_key :: "(u8 \<Rightarrow> int) \<Rightarrow> mem \<Rightarrow> ptr \<Rightarrow> int list \<Rightarrow> bool" where
  "string_key f m p k \<longleftrightarrow> (\<exists>s. cstr m p s \<and> k = map f s)"

definition prefix_key :: "(u8 \<Rightarrow> int) \<Rightarrow> nat \<Rightarrow> mem \<Rightarrow> ptr \<Rightarrow> int list \<Rightarrow> bool" where
  "prefix_key f n m p k \<longleftrightarrow> (\<exists>s. cstr m p s \<and> k = map f (take n s))"

lemma string_key_pos: "string_key f m p k \<Longrightarrow> (\<And>b. b \<noteq> 0 \<Longrightarrow> 0 < f b) \<Longrightarrow> \<forall>x \<in> set k. 0 < x"
  by (auto simp: string_key_def) (metis cstr_no_nul)

lemma prefix_key_pos: "prefix_key f n m p k \<Longrightarrow> (\<And>b. b \<noteq> 0 \<Longrightarrow> 0 < f b) \<Longrightarrow> \<forall>x \<in> set k. 0 < x"
  by (auto simp: prefix_key_def) (metis cstr_no_nul in_set_takeD)

lemma uint_pos: "b \<noteq> 0 \<Longrightarrow> 0 < uint (b :: u8)"
  by (simp add: order.strict_iff_order uint_0_iff)

lemma fold_case_pos: "b \<noteq> 0 \<Longrightarrow> 0 < fold_case b"
  using fold_case_bounds[of b] by (simp add: order.strict_iff_order)

lemma contract_of_strings:
  "r = Some (diff s t) \<Longrightarrow> \<forall>x \<in> set s. 0 < x \<Longrightarrow> \<forall>x \<in> set t. 0 < x \<Longrightarrow>
    \<exists>d. r = Some d \<and> (d < 0 \<longleftrightarrow> ord_class.lexordp s t) \<and> (d = 0 \<longleftrightarrow> s = t)"
  using diff_sign_strings[of s t] by auto

lemma contract_of_blocks:
  "r = Some (diff s t) \<Longrightarrow> length s = length t \<Longrightarrow>
    \<exists>d. r = Some d \<and> (d < 0 \<longleftrightarrow> ord_class.lexordp s t) \<and> (d = 0 \<longleftrightarrow> s = t)"
  using diff_sign_blocks[of s t] by auto

interpretation memcmp: c_comparator "\<lambda>m p q. memcmp m p q n" "block_key n" for n
  by unfold_locales
    (rule contract_of_blocks; auto simp: block_key_def memcmp_diff intro: trans[OF length_load length_load[symmetric]])

interpretation strcmp: c_comparator strcmp "string_key uint"
  by unfold_locales
    (rule contract_of_strings; (erule string_key_pos, rule uint_pos)?;
      auto simp: string_key_def strcmp_diff)

interpretation strncmp: c_comparator "\<lambda>m p q. strncmp m p q n" "prefix_key uint n" for n
  by unfold_locales
    (rule contract_of_strings; (erule prefix_key_pos, rule uint_pos)?;
      auto simp: prefix_key_def strncmp_diff)

interpretation strcasecmp: c_comparator strcasecmp "string_key fold_case"
  by unfold_locales
    (rule contract_of_strings; (erule string_key_pos, rule fold_case_pos)?;
      auto simp: string_key_def strcasecmp_diff)

interpretation strncasecmp: c_comparator "\<lambda>m p q. strncasecmp m p q n" "prefix_key fold_case n" for n
  by unfold_locales
    (rule contract_of_strings; (erule prefix_key_pos, rule fold_case_pos)?;
      auto simp: prefix_key_def strncasecmp_diff)

section \<open>Properties\<close>

text \<open>C37. \<open>strcmp\<close> and \<open>strncmp\<close> decide the lexicographic order of their strings as unsigned bytes
  (of at most \<open>n\<close> of them for \<open>strncmp\<close>): negative, zero or positive as the first is smaller,
  equal or greater.\<close>

theorem strcmp_order:
  assumes "cstr m p s" "cstr m q t"
  shows "\<exists>r r'. strcmp m p q = Some r \<and> strncmp m p q n = Some r' \<and>
    (r < 0 \<longleftrightarrow> ord_class.lexordp (map uint s) (map uint t)) \<and> (r = 0 \<longleftrightarrow> s = t) \<and>
    (r > 0 \<longleftrightarrow> ord_class.lexordp (map uint t) (map uint s)) \<and>
    (r' < 0 \<longleftrightarrow> ord_class.lexordp (map uint (take n s)) (map uint (take n t))) \<and>
    (r' = 0 \<longleftrightarrow> take n s = take n t) \<and>
    (r' > 0 \<longleftrightarrow> ord_class.lexordp (map uint (take n t)) (map uint (take n s)))"
proof -
  have k: "string_key uint m p (map uint s)" "string_key uint m q (map uint t)"
    "prefix_key uint n m p (map uint (take n s))" "prefix_key uint n m q (map uint (take n t))"
    using assms by (auto simp: string_key_def prefix_key_def)
  have inj: "map uint x = map uint y \<longleftrightarrow> x = y" for x y :: "u8 list"
    by (simp add: inj_map_eq_map inj_on_def)
  obtain r where r: "strcmp m p q = Some r" "r < 0 \<longleftrightarrow> ord_class.lexordp (map uint s) (map uint t)" "r = 0 \<longleftrightarrow> s = t"
    using strcmp.cmp_key[OF k(1,2)] by (auto simp: inj)
  obtain r' where r': "strncmp m p q n = Some r'" "r' = 0 \<longleftrightarrow> take n s = take n t"
    "r' < 0 \<longleftrightarrow> ord_class.lexordp (map uint (take n s)) (map uint (take n t))"
    using strncmp.cmp_key[OF k(3,4)] unfolding inj by auto
  from r r' strcmp.cmp_pos[OF k(1,2) r(1)] strncmp.cmp_pos[OF k(3,4) r'(1)] show ?thesis
    by (intro exI[of _ r] exI[of _ r']) simp
qed

theorem strcmp_order_witness:
  "\<exists>r. strcmp (store (string_at 8 ''ab'') 20 (lit ''b'' @ [0])) 8 20 = Some r \<and> r < 0"
proof -
  let ?m = "store (string_at 8 ''ab'') 20 (lit ''b'' @ [0])"
  have s: "cstr ?m 8 (lit ''ab'')" and a: "cstr ?m 20 (lit ''b'')"
    by (rule cstr_store_disjnt[OF cstr_string_at]; simp add: disjnt_def)
      (rule cstr_store_same, simp)
  show ?thesis using strcmp_order[OF s a, of 0] by auto
qed

text \<open>\<open>strcasecmp\<close> and \<open>strncasecmp\<close> are consistent orders on the strings with their letters
  folded to lower case: equal exactly when the folded strings are, antisymmetric, transitive.\<close>

theorem strcasecmp_order:
  assumes "cstr m p s" "cstr m q t" "cstr m v u"
  shows "\<exists>a b c d. strcasecmp m p q = Some a \<and> strcasecmp m q p = Some b \<and> strcasecmp m q v = Some c \<and>
    strcasecmp m p v = Some d \<and> (a = 0 \<longleftrightarrow> map fold_case s = map fold_case t) \<and> sgn b = - sgn a \<and>
    (a \<le> 0 \<longrightarrow> c \<le> 0 \<longrightarrow> d \<le> 0 \<and> (d = 0 \<longleftrightarrow> a = 0 \<and> c = 0)) \<and>
    strncasecmp m p q (Suc (max (length s) (length t))) = Some a"
proof -
  have k: "string_key fold_case m p (map fold_case s)" "string_key fold_case m q (map fold_case t)"
    "string_key fold_case m v (map fold_case u)"
    using assms by (auto simp: string_key_def)
  obtain a where a: "strcasecmp m p q = Some a" "a = 0 \<longleftrightarrow> map fold_case s = map fold_case t"
    using strcasecmp.cmp_key[OF k(1,2)] by auto
  obtain b where b: "strcasecmp m q p = Some b" using strcasecmp.cmp_key[OF k(2,1)] by auto
  obtain c where c: "strcasecmp m q v = Some c" using strcasecmp.cmp_key[OF k(2,3)] by auto
  obtain d where d: "strcasecmp m p v = Some d" using strcasecmp.cmp_key[OF k(1,3)] by auto
  have "a \<le> 0 \<longrightarrow> c \<le> 0 \<longrightarrow> d \<le> 0 \<and> (d = 0 \<longleftrightarrow> a = 0 \<and> c = 0)"
    using strcasecmp.cmp_trans[OF k a(1) _ c] d by auto
  moreover have "sgn b = - sgn a" using strcasecmp.cmp_swap[OF k(1,2) a(1) b] .
  moreover have "strncasecmp m p q (Suc (max (length s) (length t))) = Some a"
    using a(1) strcasecmp_diff[OF assms(1,2)] strncasecmp_diff[OF assms(1,2)]
    by (simp del: strncasecmp.simps)
  ultimately show ?thesis using a b c d by blast
qed

theorem strcasecmp_order_witness:
  "\<exists>a. strcasecmp (store (string_at 8 ''Ab'') 20 (lit ''aB'' @ [0])) 8 20 = Some a \<and> a = 0"
proof -
  let ?m = "store (string_at 8 ''Ab'') 20 (lit ''aB'' @ [0])"
  have s: "cstr ?m 8 (lit ''Ab'')" and a: "cstr ?m 20 (lit ''aB'')"
    by (rule cstr_store_disjnt[OF cstr_string_at]; simp add: disjnt_def)
      (rule cstr_store_same, simp)
  have "map fold_case (lit ''Ab'') = map fold_case (lit ''aB'')" by code_simp
  then show ?thesis using strcasecmp_order[OF s a a] by auto
qed

text \<open>\<open>memcmp\<close> returns 0 exactly on equal blocks and is antisymmetric, but it compares the bytes
  as signed \<open>char\<close>s: a byte of 128 or more is ordered before every ASCII byte, unlike in
  \<open>strcmp\<close>.\<close>

theorem memcmp_signed:
  assumes "load m p n = Some bs" "load m q n = Some cs"
  shows "\<exists>a b. memcmp m p q n = Some a \<and> memcmp m q p n = Some b \<and> (a = 0 \<longleftrightarrow> bs = cs) \<and>
    sgn b = - sgn a \<and> (a < 0 \<longleftrightarrow> ord_class.lexordp (map sint bs) (map sint cs))"
proof -
  have k: "block_key n m p (map sint bs)" "block_key n m q (map sint cs)"
    using assms by (auto simp: block_key_def)
  have inj: "map sint x = map sint y \<longleftrightarrow> x = y" for x y :: "u8 list"
    by (simp add: inj_map_eq_map inj_on_def)
  obtain a where a: "memcmp m p q n = Some a" "a = 0 \<longleftrightarrow> bs = cs"
    "a < 0 \<longleftrightarrow> ord_class.lexordp (map sint bs) (map sint cs)"
    using memcmp.cmp_key[OF k] by (auto simp: inj)
  obtain b where b: "memcmp m q p n = Some b" using memcmp.cmp_key[OF k(2,1)] by auto
  show ?thesis using a b memcmp.cmp_swap[OF k a(1) b] by blast
qed

theorem memcmp_signed_witness:
  "\<exists>a. memcmp (bytes_at 8 [200, 65]) 8 9 1 = Some a \<and> a < 0"
proof -
  have l: "load (bytes_at 8 [200, 65]) 8 1 = Some [200]" "load (bytes_at 8 [200, 65]) 9 1 = Some [65]"
    "ord_class.lexordp (map sint [200 :: u8]) (map sint [65 :: u8])"
    by code_simp+
  show ?thesis using memcmp_signed[OF l(1,2)] l(3) by auto
qed

end
