(* ===== verification/Strtox.thy ===== *)
theory Strtox
  imports CString Ctype
begin

text \<open>
  \<open>c/strtox.c\<close>, the template behind \<open>strtol\<close>, \<open>strtoll\<close>, \<open>strtoul\<close> and \<open>strtoull\<close>, its four
  instances in \<open>c/stdlib.c\<close>, and \<open>atol\<close>. The template's macros (the type's signedness and its
  limits) are the arguments of \<open>strtox\<close>. The accumulator \<open>absval\<close> is a 64-bit unsigned word as in
  the code, with the overflow test done before it is multiplied. The result is shown to be the
  mathematical value of the digits, saturated at the limits of the type.
\<close>

section \<open>The template\<close>

text \<open>Limits of the types (\<open>c/include/limits.h\<close>), as the words the code assigns to \<open>absval\<close>.\<close>

definition LONG_MAX :: u64 where "LONG_MAX = 9223372036854775807"
definition LONG_MIN :: u64 where "LONG_MIN = - 9223372036854775807 - 1"
definition ULONG_MAX :: u64 where "ULONG_MAX = 18446744073709551615"

text \<open>\<open>strncmp\<close> of a string in memory against a string literal, whose bytes are given.\<close>

fun strncmp_lit :: "mem \<Rightarrow> ptr \<Rightarrow> u8 list \<Rightarrow> nat \<Rightarrow> int option" where
  "strncmp_lit m s1 l 0 = Some 0"
| "strncmp_lit m s1 l (Suc n) = do {
     c1 \<leftarrow> m s1;
     let c2 = (case l of [] \<Rightarrow> 0 | b # _ \<Rightarrow> b);
     if c1 = 0 \<or> c1 \<noteq> c2 then Some (uint c1 - uint c2)
     else strncmp_lit m (Suc s1) (tl l) n }"

lemma strncmp_lit_eq: "cstr m q t \<Longrightarrow> strncmp m p q n = strncmp_lit m p t n"
proof (induction n arbitrary: p q t)
  case (Suc n)
  then show ?case by (cases t) (auto split: Option.bind_splits simp: Let_def)
qed simp

lemma strncmp_lit_prefix:
  "cstr m p s \<Longrightarrow> 0 \<notin> set l \<Longrightarrow>
    \<exists>r. strncmp_lit m p l n = Some r \<and> (r = 0 \<longleftrightarrow> take n s = take n l)"
proof (induction n arbitrary: p s l)
  case (Suc n)
  then show ?case by (cases s; cases l) (auto simp: Let_def uint_0_iff)
qed simp

record strtox_cfg =
  cfg_base :: int
  dtop :: int
  ltop :: int
  utop :: int
  max_last_digit :: u64
  max_unshifted_absval :: u64

text \<open>\<open>while (*s && isspace( *s)) s++;\<close>\<close>

partial_function (option) strtox_spaces :: "mem \<Rightarrow> ptr \<Rightarrow> ptr option" where
  "strtox_spaces m s = do {
     c \<leftarrow> m s;
     if c \<noteq> 0 \<and> isspace (sint c) then strtox_spaces m (Suc s) else Some s }"

text \<open>The sign: \<open>positive\<close> and the new \<open>s\<close>.\<close>

definition strtox_sign :: "mem \<Rightarrow> ptr \<Rightarrow> (bool \<times> ptr) option" where
  "strtox_sign m s = do {
     c \<leftarrow> m s;
     Some (if c = of_char (CHR ''+'') then (True, s + 1)
           else if c = of_char (CHR ''-'') then (False, s + 1)
           else (True, s)) }"

definition strtox_hex_prefix :: "mem \<Rightarrow> ptr \<Rightarrow> bool option" where
  "strtox_hex_prefix m s = do {
     r \<leftarrow> strncmp_lit m s (lit ''0x'') 2;
     if r = 0 then Some True
     else do { r \<leftarrow> strncmp_lit m s (lit ''0X'') 2; Some (r = 0) } }"

text \<open>Base detection: the base to use, \<open>endc\<close> and \<open>s\<close>.\<close>

definition strtox_base :: "mem \<Rightarrow> ptr \<Rightarrow> ptr \<Rightarrow> int \<Rightarrow> (int \<times> ptr \<times> ptr) option" where
  "strtox_base m endc s base =
     (if base = 0 then do {
        hex \<leftarrow> strtox_hex_prefix m s;
        if hex then Some (16, s + 1, s + 2)
        else do {
          c \<leftarrow> m s;
          if c = of_char (CHR ''0'') then Some (8, endc, s) else Some (10, endc, s) } }
      else if base = 16 then do {
        hex \<leftarrow> strtox_hex_prefix m s;
        if hex then Some (16, s + 1, s + 2) else Some (base, endc, s) }
      else Some (base, endc, s))"

text \<open>The allowed digits and the overflow threshold.\<close>

definition strtox_config :: "bool \<Rightarrow> u64 \<Rightarrow> u64 \<Rightarrow> bool \<Rightarrow> int \<Rightarrow> strtox_cfg" where
  "strtox_config variant_unsigned intmin intmax positive base =
     (let limit = (if variant_unsigned then intmax else if positive then intmax else - intmin) in
      \<lparr> cfg_base = base,
        dtop = (if base \<le> 10 then 48 + base - 1 else 48 + 9),
        ltop = (if base \<le> 10 then 0 else 97 + (base - 10) - 1),
        utop = (if base \<le> 10 then 0 else 65 + (base - 10) - 1),
        max_last_digit = limit mod word_of_int base,
        max_unshifted_absval = limit div word_of_int base \<rparr>)"

definition strtox_digit :: "strtox_cfg \<Rightarrow> u8 \<Rightarrow> u64 option" where
  "strtox_digit cfg b =
     (let c = sint b in
      if c \<ge> 48 \<and> c \<le> dtop cfg then Some (word_of_int (c - 48))
      else if c \<ge> 97 \<and> c \<le> ltop cfg then Some (word_of_int (10 + (c - 97)))
      else if c \<ge> 65 \<and> c \<le> utop cfg then Some (word_of_int (10 + (c - 65)))
      else None)"

definition strtox_step :: "strtox_cfg \<Rightarrow> u64 \<Rightarrow> u64 \<times> bool \<Rightarrow> u64 \<times> bool" where
  "strtox_step cfg digit = (\<lambda>(absval, overflow).
     if \<not> overflow then
       (if absval > max_unshifted_absval cfg then (absval, True)
        else if absval = max_unshifted_absval cfg \<and> digit > max_last_digit cfg then (absval, True)
        else (absval * word_of_int (cfg_base cfg) + digit, False))
     else (absval, overflow))"

partial_function (option) strtox_loop ::
  "strtox_cfg \<Rightarrow> mem \<Rightarrow> ptr \<Rightarrow> ptr \<Rightarrow> u64 \<times> bool \<Rightarrow> ((u64 \<times> bool) \<times> ptr) option" where
  "strtox_loop cfg m s endc acc = do {
     c \<leftarrow> m s;
     if c \<noteq> 0 then
       (case strtox_digit cfg c of
          None \<Rightarrow> Some (acc, endc)
        | Some digit \<Rightarrow> strtox_loop cfg m (Suc s) (Suc s) (strtox_step cfg digit acc))
     else Some (acc, endc) }"

text \<open>The result is \<open>absval\<close> and the value stored in \<open>*endptr\<close>, \<open>None\<close> when it is not stored.\<close>

definition strtox :: "bool \<Rightarrow> u64 \<Rightarrow> u64 \<Rightarrow> mem \<Rightarrow> ptr \<Rightarrow> int \<Rightarrow> (u64 \<times> ptr option) option" where
  "strtox variant_unsigned intmin intmax m nptr base =
     (if \<not> (base = 0 \<or> base \<ge> 2 \<and> base \<le> 36) then Some (0, None)
      else do {
        s \<leftarrow> strtox_spaces m nptr;
        (positive, s) \<leftarrow> strtox_sign m s;
        (base, endc, s) \<leftarrow> strtox_base m nptr s base;
        let cfg = strtox_config variant_unsigned intmin intmax positive base;
        ((absval, overflow), endc) \<leftarrow> strtox_loop cfg m s endc (0, False);
        let absval =
          (if overflow then (if \<not> variant_unsigned \<and> \<not> positive then intmin else intmax)
           else if \<not> positive then - absval
           else absval);
        Some (absval, Some endc) })"

definition strtol :: "mem \<Rightarrow> ptr \<Rightarrow> int \<Rightarrow> (int \<times> ptr option) option" where
  "strtol m nptr base = map_option (\<lambda>(v, e). (sint v, e)) (strtox False LONG_MIN LONG_MAX m nptr base)"

definition strtoll :: "mem \<Rightarrow> ptr \<Rightarrow> int \<Rightarrow> (int \<times> ptr option) option" where
  "strtoll m nptr base = map_option (\<lambda>(v, e). (sint v, e)) (strtox False LONG_MIN LONG_MAX m nptr base)"

definition strtoul :: "mem \<Rightarrow> ptr \<Rightarrow> int \<Rightarrow> (int \<times> ptr option) option" where
  "strtoul m nptr base = map_option (\<lambda>(v, e). (uint v, e)) (strtox True 0 ULONG_MAX m nptr base)"

definition strtoull :: "mem \<Rightarrow> ptr \<Rightarrow> int \<Rightarrow> (int \<times> ptr option) option" where
  "strtoull m nptr base = map_option (\<lambda>(v, e). (uint v, e)) (strtox True 0 ULONG_MAX m nptr base)"

definition atol :: "mem \<Rightarrow> ptr \<Rightarrow> int option" where
  "atol m nptr = map_option fst (strtol m nptr 10)"

section \<open>What a numeral denotes\<close>

text \<open>The value of a character as a digit of base \<open>b\<close>.\<close>

definition digit_val :: "int \<Rightarrow> u8 \<Rightarrow> int option" where
  "digit_val b c =
     (let u = uint c;
          v = (if 48 \<le> u \<and> u \<le> 57 then u - 48
               else if 97 \<le> u \<and> u \<le> 122 then u - 97 + 10
               else if 65 \<le> u \<and> u \<le> 90 then u - 65 + 10 else 36)
      in if v < b then Some v else None)"

text \<open>The digits a string of characters starts with, and the number they denote after \<open>a\<close>.\<close>

fun digit_prefix :: "int \<Rightarrow> u8 list \<Rightarrow> int list" where
  "digit_prefix b [] = []"
| "digit_prefix b (c # s) = (case digit_val b c of None \<Rightarrow> [] | Some d \<Rightarrow> d # digit_prefix b s)"

fun horner :: "int \<Rightarrow> int \<Rightarrow> int list \<Rightarrow> int" where
  "horner b a [] = a"
| "horner b a (d # ds) = horner b (a * b + d) ds"

lemma digit_val_bounds: "digit_val b c = Some d \<Longrightarrow> 0 \<le> d \<and> d < b"
  by (auto simp: digit_val_def Let_def split: if_splits)

lemma horner_mono: "1 \<le> b \<Longrightarrow> 0 \<le> a \<Longrightarrow> \<forall>d \<in> set ds. 0 \<le> d \<Longrightarrow> a \<le> horner b a ds"
proof (induction ds arbitrary: a)
  case (Cons d ds)
  have "a \<le> a * b + d"
    using Cons.prems mult_left_mono[of 1 b a] by simp
  also have "\<dots> \<le> horner b (a * b + d) ds"
    using Cons.prems by (intro Cons.IH) auto
  finally show ?case by simp
qed simp

lemma digit_prefix_nonneg: "\<forall>d \<in> set (digit_prefix b s). 0 \<le> d"
proof (induction s)
  case (Cons c s)
  then show ?case using digit_val_bounds[of b c] by (auto split: option.split)
qed simp

lemma length_digit_prefix: "length (digit_prefix b s) \<le> length s"
  by (induction s) (auto split: option.splits)

section \<open>The digit loop\<close>

lemma strtox_digit_val:
  assumes "2 \<le> base" "base \<le> 36"
  shows "strtox_digit (strtox_config uns mn mx pos base) c = map_option word_of_int (digit_val base c)"
proof -
  show ?thesis
    using assms uint_u8_bounds[of c]
    by (auto simp: strtox_digit_def strtox_config_def digit_val_def Let_def sint_u8)
qed

text \<open>The limit that \<open>max_unshifted_absval\<close> and \<open>max_last_digit\<close> encode.\<close>

definition strtox_limit :: "bool \<Rightarrow> u64 \<Rightarrow> u64 \<Rightarrow> bool \<Rightarrow> int" where
  "strtox_limit uns intmin intmax pos = uint (if uns \<or> pos then intmax else - intmin)"

lemma strtox_threshold:
  fixes A M b d :: int
  assumes "0 \<le> d" "d < b"
  shows "A > M div b \<or> A = M div b \<and> d > M mod b \<longleftrightarrow> M < A * b + d"
proof -
  have M: "M = M div b * b + M mod b" by simp
  have r: "0 \<le> M mod b" "M mod b < b" using assms by auto
  consider "A > M div b" | "A = M div b" | "A < M div b" by linarith
  then show ?thesis
  proof cases
    case 1
    then have "(M div b + 1) * b \<le> A * b" using assms by (intro mult_right_mono) auto
    then have "M div b * b + b \<le> A * b" by (simp add: distrib_right)
    then have "M < A * b + d" using M r assms(1) by linarith
    with 1 show ?thesis by simp
  next
    case 2
    then have "A * b = M - M mod b" by (simp add: minus_mod_eq_div_mult)
    then have "M < A * b + d \<longleftrightarrow> d > M mod b" by linarith
    with 2 show ?thesis by simp
  next
    case 3
    then have "(A + 1) * b \<le> M div b * b" using assms by (intro mult_right_mono) auto
    then have "A * b + b \<le> M div b * b" by (simp add: distrib_right)
    then have "\<not> M < A * b + d" using M r assms(2) by linarith
    with 3 show ?thesis by simp
  qed
qed

lemma strtox_step_correct:
  assumes b: "2 \<le> base" "base \<le> 36" and d: "0 \<le> d" "d < base"
    and step: "strtox_step (strtox_config uns mn mx pos base) (word_of_int d) (a, False) = (a', ov')"
  shows "(ov' \<longleftrightarrow> strtox_limit uns mn mx pos < uint a * base + d) \<and> (\<not> ov' \<longrightarrow> uint a' = uint a * base + d)"
proof -
  define limit where "limit = (if uns \<or> pos then mx else - mn)"
  define M where "M = uint limit"
  have M: "strtox_limit uns mn mx pos = M" by (simp add: M_def limit_def strtox_limit_def)
  have ub: "uint (word_of_int base :: u64) = base" "uint (word_of_int d :: u64) = d"
    using b d by (simp_all add: unsigned_of_int take_bit_int_eq_self)
  have cfg: "max_unshifted_absval (strtox_config uns mn mx pos base) = limit div word_of_int base"
    "max_last_digit (strtox_config uns mn mx pos base) = limit mod word_of_int base"
    "cfg_base (strtox_config uns mn mx pos base) = base"
    by (auto simp: strtox_config_def limit_def Let_def)
  have cmp: "a > limit div word_of_int base \<longleftrightarrow> uint a > M div base"
    "a = limit div word_of_int base \<longleftrightarrow> uint a = M div base"
    "word_of_int d > limit mod word_of_int base \<longleftrightarrow> d > M mod base"
    by (simp_all add: word_less_def word_uint_eq_iff uint_div_distrib uint_mod_distrib ub M_def)
  have ov: "ov' \<longleftrightarrow> M < uint a * base + d"
    using step strtox_threshold[OF d, of M "uint a"]
    by (auto simp: strtox_step_def cfg cmp split: if_splits)
  moreover have "uint a' = uint a * base + d" if "\<not> ov'"
  proof -
    have "a' = a * word_of_int base + word_of_int d"
      using step that by (auto simp: strtox_step_def cfg split: if_splits)
    then have "a' = word_of_int (uint a * base + d)" by simp
    moreover have "uint a * base + d < 2 ^ 64"
      using ov that uint_lt2p[of limit] by (simp add: M_def)
    moreover have "0 \<le> uint a * base + d" using b d by simp
    ultimately show ?thesis by (simp only: uint_u64_id)
  qed
  ultimately show ?thesis by (simp add: M)
qed

lemma strtox_loop_correct:
  assumes "cstr m s str" "2 \<le> base" "base \<le> 36" "\<not> ov \<longrightarrow> uint a \<le> strtox_limit uns mn mx pos"
  shows "\<exists>a'. strtox_loop (strtox_config uns mn mx pos base) m s endc (a, ov) =
      Some ((a', ov \<or> strtox_limit uns mn mx pos < horner base (uint a) (digit_prefix base str)),
            if digit_prefix base str = [] then endc else s + length (digit_prefix base str)) \<and>
    (\<not> ov \<and> \<not> strtox_limit uns mn mx pos < horner base (uint a) (digit_prefix base str) \<longrightarrow>
       uint a' = horner base (uint a) (digit_prefix base str))"
  using assms(1,4)
proof (induction str arbitrary: s endc a ov)
  case Nil
  then show ?case by (subst strtox_loop.simps) auto
next
  case (Cons c str)
  let ?cfg = "strtox_config uns mn mx pos base" and ?M = "strtox_limit uns mn mx pos"
  have c: "m s = Some c" "c \<noteq> 0" "cstr m (Suc s) str" using Cons.prems(1) by auto
  show ?case
  proof (cases "digit_val base c")
    case None
    with c Cons.prems(2) show ?thesis
      by (subst strtox_loop.simps) (auto simp: strtox_digit_val[OF assms(2,3)])
  next
    case (Some d)
    have d: "0 \<le> d" "d < base" using digit_val_bounds[OF Some] by auto
    obtain a1 ov1 where step: "strtox_step ?cfg (word_of_int d) (a, ov) = (a1, ov1)"
      by (cases "strtox_step ?cfg (word_of_int d) (a, ov)")
    have loop: "strtox_loop ?cfg m s endc (a, ov) = strtox_loop ?cfg m (Suc s) (Suc s) (a1, ov1)"
      using c Some step by (subst strtox_loop.simps) (simp add: strtox_digit_val[OF assms(2,3)])
    have ds: "digit_prefix base (c # str) = d # digit_prefix base str" using Some by simp
    show ?thesis
    proof (cases ov)
      case True
      then have "ov1" using step by (auto simp: strtox_step_def)
      then show ?thesis
        using Cons.IH[OF c(3), of ov1 a1 "Suc s"] True unfolding loop ds by auto
    next
      case False
      with step have st: "ov1 \<longleftrightarrow> ?M < uint a * base + d" "\<not> ov1 \<longrightarrow> uint a1 = uint a * base + d"
        using strtox_step_correct[OF assms(2,3) d, of uns mn mx pos a a1 ov1] by auto
      have "uint a * base + d \<le> horner base (uint a * base + d) (digit_prefix base str)"
        using assms(2) d by (intro horner_mono) (auto simp: digit_prefix_nonneg)
      with st show ?thesis
        using Cons.IH[OF c(3), of ov1 a1 "Suc s"] False unfolding loop ds
        by (cases ov1) auto
    qed
  qed
qed

section \<open>The whole conversion\<close>

text \<open>
  What the numeral at the start of a string is: leading white space, an optional sign, a base
  prefix, digits. \<open>num_end\<close> is the offset stored in \<open>*endptr\<close>.
\<close>

record numeral =
  num_positive :: bool
  num_base :: int
  num_digits :: "int list"
  num_end :: nat

definition num_abs :: "numeral \<Rightarrow> int" where
  "num_abs n = horner (num_base n) 0 (num_digits n)"

definition has_sign :: "u8 list \<Rightarrow> bool" where
  "has_sign s \<longleftrightarrow> (case s of [] \<Rightarrow> False | c # _ \<Rightarrow> c = of_char (CHR ''+'') \<or> c = of_char (CHR ''-''))"

definition is_minus :: "u8 list \<Rightarrow> bool" where
  "is_minus s \<longleftrightarrow> (case s of [] \<Rightarrow> False | c # _ \<Rightarrow> c = of_char (CHR ''-''))"

definition hex_prefix :: "u8 list \<Rightarrow> bool" where
  "hex_prefix s \<longleftrightarrow> take 2 s = lit ''0x'' \<or> take 2 s = lit ''0X''"

definition scan_numeral :: "int \<Rightarrow> u8 list \<Rightarrow> numeral" where
  "scan_numeral base s =
     (let ws = length (takeWhile (\<lambda>c. isspace (sint c)) s);
          s1 = drop ws s;
          sg = (if has_sign s1 then 1 else 0);
          s2 = drop sg s1;
          hex = (base = 0 \<or> base = 16) \<and> hex_prefix s2;
          b = (if hex then 16 else if base = 0 then (if take 1 s2 = lit ''0'' then 8 else 10) else base);
          ds = digit_prefix b (drop (if hex then 2 else 0) s2)
      in \<lparr> num_positive = \<not> is_minus s1, num_base = b, num_digits = ds,
           num_end = (if ds \<noteq> [] then ws + sg + (if hex then 2 else 0) + length ds
                      else if hex then ws + sg + 1 else 0) \<rparr>)"

lemma hex_prefix_length: "hex_prefix s \<Longrightarrow> 2 \<le> length s"
  by (cases s; cases "tl s") (auto simp: hex_prefix_def)

lemma strtox_spaces_exact:
  "cstr m p s \<Longrightarrow> strtox_spaces m p = Some (p + length (takeWhile (\<lambda>c. isspace (sint c)) s))"
proof (induction s arbitrary: p)
  case Nil
  then show ?case by (subst strtox_spaces.simps) simp
next
  case (Cons c s)
  then show ?case by (subst strtox_spaces.simps) simp
qed

lemma strtox_sign_exact:
  "cstr m p s \<Longrightarrow> strtox_sign m p = Some (\<not> is_minus s, p + (if has_sign s then 1 else 0))"
  by (cases s) (auto simp: strtox_sign_def is_minus_def has_sign_def)

lemma strtox_hex_prefix_exact: "cstr m p s \<Longrightarrow> strtox_hex_prefix m p = Some (hex_prefix s)"
proof -
  assume p: "cstr m p s"
  obtain r1 r2 where r: "strncmp_lit m p (lit ''0x'') 2 = Some r1" "r1 = 0 \<longleftrightarrow> take 2 s = lit ''0x''"
    "strncmp_lit m p (lit ''0X'') 2 = Some r2" "r2 = 0 \<longleftrightarrow> take 2 s = lit ''0X''"
    using strncmp_lit_prefix[OF p, of "lit ''0x''" 2] strncmp_lit_prefix[OF p, of "lit ''0X''" 2]
    by (auto simp: lit_def)
  then show ?thesis
    by (simp add: strtox_hex_prefix_def hex_prefix_def del: lit_simps)
qed

lemma strtox_base_exact:
  assumes "cstr m p s"
  shows "strtox_base m endc p base =
    (let hex = (base = 0 \<or> base = 16) \<and> hex_prefix s in
     Some (if hex then 16 else if base = 0 then (if take 1 s = lit ''0'' then 8 else 10) else base,
           if hex then p + 1 else endc, p + (if hex then 2 else 0)))"
  using assms strtox_hex_prefix_exact[OF assms]
  by (cases s) (auto simp: strtox_base_def Let_def)

theorem strtox_correct:
  assumes "cstr m p s" "base = 0 \<or> 2 \<le> base \<and> base \<le> 36" and n: "n = scan_numeral base s"
  shows "strtox uns mn mx m p base =
    Some (if strtox_limit uns mn mx (num_positive n) < num_abs n
            then (if \<not> uns \<and> \<not> num_positive n then mn else mx)
          else if num_positive n then word_of_int (num_abs n) else - word_of_int (num_abs n),
          Some (p + num_end n))"
proof -
  define ws where "ws = length (takeWhile (\<lambda>c. isspace (sint c)) s)"
  define s1 where "s1 = drop ws s"
  define sg where "sg = (if has_sign s1 then 1 else 0 :: nat)"
  define s2 where "s2 = drop sg s1"
  define hex where "hex \<longleftrightarrow> (base = 0 \<or> base = 16) \<and> hex_prefix s2"
  define b where "b = (if hex then 16 else if base = 0 then (if take 1 s2 = lit ''0'' then 8 else 10) else base)"
  define k where "k = (if hex then 2 else 0 :: nat)"
  define ds where "ds = digit_prefix b (drop k s2)"
  define pos where "pos \<longleftrightarrow> \<not> is_minus s1"
  have n_eq: "n = \<lparr> num_positive = pos, num_base = b, num_digits = ds,
      num_end = (if ds \<noteq> [] then ws + sg + k + length ds else if hex then ws + sg + 1 else 0) \<rparr>"
    by (simp only: n scan_numeral_def ws_def[symmetric] Let_def s1_def[symmetric] sg_def[symmetric]
        s2_def[symmetric] hex_def[symmetric] b_def[symmetric] k_def[symmetric] ds_def[symmetric]
        pos_def[symmetric])
  have b: "2 \<le> b" "b \<le> 36" using assms(2) by (auto simp: b_def)
  have c1: "cstr m (p + ws) s1"
    unfolding s1_def using assms(1) length_takeWhile_le by (intro cstr_drop) (auto simp: ws_def)
  have "sg \<le> length s1" by (cases s1) (auto simp: sg_def has_sign_def)
  with c1 have c2: "cstr m (p + ws + sg) s2" unfolding s2_def by (intro cstr_drop)
  have "k \<le> length s2" using hex_prefix_length[of s2] by (auto simp: k_def hex_def)
  with c2 have c3: "cstr m (p + ws + sg + k) (drop k s2)" by (intro cstr_drop)
  define endc where "endc = (if hex then p + ws + sg + 1 else p)"
  have base: "strtox_base m p (p + ws + sg) base = Some (b, endc, p + ws + sg + k)"
    using strtox_base_exact[OF c2, of p base] by (simp add: Let_def hex_def b_def k_def endc_def)
  let ?M = "strtox_limit uns mn mx pos"
  have "0 \<le> ?M" by (simp add: strtox_limit_def)
  then obtain a where loop: "strtox_loop (strtox_config uns mn mx pos b) m (p + ws + sg + k) endc (0, False) =
      Some ((a, ?M < horner b 0 ds), if ds = [] then endc else p + ws + sg + k + length ds)"
    and a: "\<not> ?M < horner b 0 ds \<Longrightarrow> uint a = horner b 0 ds"
    using strtox_loop_correct[OF c3 b, of False 0 uns mn mx pos endc, folded ds_def] by auto
  have a': "a = word_of_int (horner b 0 ds)" if "\<not> ?M < horner b 0 ds"
    using a[OF that] by (metis word_of_int_uint)
  have "strtox uns mn mx m p base = Some
      (if ?M < horner b 0 ds then (if \<not> uns \<and> \<not> pos then mn else mx) else if \<not> pos then - a else a,
       Some (if ds = [] then endc else p + ws + sg + k + length ds))"
    using assms(2) strtox_spaces_exact[OF assms(1)] strtox_sign_exact[OF c1] base loop
    by (simp add: strtox_def ws_def[symmetric] sg_def[symmetric] pos_def[symmetric] Let_def)
  moreover have "(if ds = [] then endc else p + ws + sg + k + length ds) = p + num_end n"
    by (simp add: n_eq endc_def)
  ultimately show ?thesis
    by (auto simp: n_eq num_abs_def a')
qed

lemma num_abs_nonneg: "base = 0 \<or> 2 \<le> base \<and> base \<le> 36 \<Longrightarrow> 0 \<le> num_abs (scan_numeral base s)"
  unfolding num_abs_def scan_numeral_def Let_def numeral.simps
  by (intro horner_mono) (auto simp: digit_prefix_nonneg)

lemma strtox_limits:
  "strtox_limit False LONG_MIN LONG_MAX pos = (if pos then 2 ^ 63 - 1 else 2 ^ 63)"
  "strtox_limit True 0 ULONG_MAX pos = 2 ^ 64 - 1"
  by (auto simp: strtox_limit_def LONG_MIN_def LONG_MAX_def ULONG_MAX_def)

text \<open>The value of each instance, as a function of the numeral.\<close>

definition saturate_signed :: "numeral \<Rightarrow> int" where
  "saturate_signed n =
     (let v = (if num_positive n then num_abs n else - num_abs n)
      in max (- (2 ^ 63)) (min (2 ^ 63 - 1) v))"

definition saturate_unsigned :: "numeral \<Rightarrow> int" where
  "saturate_unsigned n =
     (if num_abs n \<ge> 2 ^ 64 then 2 ^ 64 - 1
      else if num_positive n then num_abs n else (- num_abs n) mod 2 ^ 64)"

lemma strtol_exact:
  assumes "cstr m p s" "base = 0 \<or> 2 \<le> base \<and> base \<le> 36"
  shows "strtol m p base =
    Some (saturate_signed (scan_numeral base s), Some (p + num_end (scan_numeral base s)))"
proof -
  define n where "n = scan_numeral base s"
  have v: "0 \<le> num_abs n" unfolding n_def using assms(2) by (rule num_abs_nonneg)
  have neg: "sint (- word_of_int (num_abs n) :: u64) = - num_abs n" if "num_abs n \<le> 2 ^ 63"
    using sint_u64_id[of "- num_abs n"] v that by simp
  have pos: "sint (word_of_int (num_abs n) :: u64) = num_abs n" if "num_abs n < 2 ^ 63"
    using v that by (intro sint_u64_id) auto
  have lim: "sint LONG_MIN = - (2 ^ 63)" "sint LONG_MAX = 2 ^ 63 - 1"
    by (simp_all add: LONG_MIN_def LONG_MAX_def)
  show ?thesis
    unfolding strtol_def strtox_correct[OF assms n_def] n_def[symmetric] saturate_signed_def
    using v neg pos lim by (auto simp: strtox_limits Let_def max_def min_def)
qed

lemma strtoul_exact:
  assumes "cstr m p s" "base = 0 \<or> 2 \<le> base \<and> base \<le> 36"
  shows "strtoul m p base =
    Some (saturate_unsigned (scan_numeral base s), Some (p + num_end (scan_numeral base s)))"
proof -
  define n where "n = scan_numeral base s"
  have v: "0 \<le> num_abs n" unfolding n_def using assms(2) by (rule num_abs_nonneg)
  have neg: "uint (- word_of_int (num_abs n) :: u64) = (- num_abs n) mod 2 ^ 64"
    using unsigned_of_int[of "- num_abs n", where 'a = int and 'b = 64] by (simp add: take_bit_eq_mod)
  have pos: "uint (word_of_int (num_abs n) :: u64) = num_abs n" if "num_abs n < 2 ^ 64"
    using v that by (intro uint_u64_id) auto
  have lim: "uint ULONG_MAX = 2 ^ 64 - 1" by (simp add: ULONG_MAX_def)
  show ?thesis
    unfolding strtoul_def strtox_correct[OF assms n_def] n_def[symmetric] saturate_unsigned_def
    using v neg pos lim by (auto simp: strtox_limits)
qed

section \<open>Decimal numerals\<close>

text \<open>The decimal digits of a number, most significant first, as characters.\<close>

fun dec :: "nat \<Rightarrow> u8 list" where
  "dec n = (if n < 10 then [word_of_nat (48 + n)] else dec (n div 10) @ [word_of_nat (48 + n mod 10)])"

declare dec.simps [simp del]

definition dec_int :: "int \<Rightarrow> u8 list" where
  "dec_int i = (if i < 0 then of_char (CHR ''-'') # dec (nat (- i)) else dec (nat i))"

lemma digit_char: "k < 10 \<Longrightarrow> uint (word_of_nat (48 + k) :: u8) = 48 + int k"
proof -
  assume "k < 10"
  then have "uint (word_of_int (48 + int k) :: u8) = 48 + int k"
    by (intro uint_of_int_id) auto
  moreover have "(word_of_nat (48 + k) :: u8) = word_of_int (48 + int k)"
    by simp
  ultimately show ?thesis by (simp only:)
qed

lemma digit_prefix_append:
  "\<forall>c \<in> set s. digit_val b c \<noteq> None \<Longrightarrow>
    digit_prefix b (s @ t) = map (\<lambda>c. the (digit_val b c)) s @ digit_prefix b t"
  by (induction s) auto

lemma horner_append: "horner b a (xs @ ys) = horner b (horner b a xs) ys"
  by (induction xs arbitrary: a) auto

lemma dec_chars: "c \<in> set (dec n) \<Longrightarrow> 48 \<le> uint c \<and> uint c \<le> 57"
proof (induction n rule: dec.induct)
  case (1 n)
  show ?case
  proof (cases "n < 10")
    case True
    with "1.prems" digit_char[of n] show ?thesis by (simp add: dec.simps[of n])
  next
    case False
    with 1 digit_char[of "n mod 10"] show ?thesis by (auto simp: dec.simps[of n])
  qed
qed

lemma dec_digit_val: "c \<in> set (dec n) \<Longrightarrow> digit_val 10 c = Some (uint c - 48)"
  by (auto dest!: dec_chars simp: digit_val_def)

lemma dec_value: "horner 10 0 (map (\<lambda>c. uint c - 48) (dec n)) = int n"
proof (induction n rule: dec.induct)
  case (1 n)
  show ?case
  proof (cases "n < 10")
    case True
    then show ?thesis using digit_char[of n] by (simp add: dec.simps[of n])
  next
    case False
    then show ?thesis
      using 1 digit_char[of "n mod 10"] div_mult_mod_eq[of "int n" 10]
      by (simp add: dec.simps[of n] horner_append zdiv_int zmod_int)
  qed
qed

lemma dec_ne: "dec n \<noteq> []"
  by (subst dec.simps) simp

lemma dec_prefix: "digit_prefix 10 (dec n) = map (\<lambda>c. uint c - 48) (dec n)"
  using digit_prefix_append[of "dec n" 10 "[]"] dec_digit_val by auto

lemma scan_dec_int:
  "scan_numeral 10 (dec_int i) =
    \<lparr> num_positive = (0 \<le> i), num_base = 10, num_digits = map (\<lambda>c. uint c - 48) (dec (nat \<bar>i\<bar>)),
      num_end = length (dec_int i) \<rparr>"
proof -
  obtain c cs where d: "dec (nat i) = c # cs" using dec_ne by (meson list.exhaust)
  have c: "48 \<le> uint c" "uint c \<le> 57" using dec_chars[of c "nat i"] d by auto
  then have sc: "sint c = uint c" by (simp add: sint_u8)
  have "c \<noteq> 45" "c \<noteq> 43" using c by auto
  then have sg: "\<not> has_sign (dec (nat i))" "\<not> is_minus (dec (nat i))"
    by (auto simp: d has_sign_def is_minus_def)
  have ws: "takeWhile (\<lambda>c. isspace (sint c)) (dec (nat i)) = []"
    using c by (simp add: d isspace_iff sc)
  show ?thesis
  proof (cases "i < 0")
    case True
    then show ?thesis
      using dec_ne[of "nat (- i)"]
      by (simp add: scan_numeral_def dec_int_def isspace_iff has_sign_def is_minus_def dec_prefix)
  next
    case False
    then show ?thesis
      using dec_ne[of "nat i"]
      by (simp add: scan_numeral_def dec_int_def ws sg dec_prefix Let_def)
  qed
qed

lemma saturate_dec_int:
  "- (2 ^ 63) \<le> i \<Longrightarrow> i < 2 ^ 63 \<Longrightarrow> saturate_signed (scan_numeral 10 (dec_int i)) = i"
  by (auto simp: saturate_signed_def num_abs_def scan_dec_int dec_value Let_def)

section \<open>Properties\<close>

text \<open>C5. \<open>strtol\<close> and \<open>strtoll\<close> on any NUL-terminated string and any base: with a base that is
  neither 0 nor between 2 and 36 they return 0 and leave \<open>*endptr\<close> alone; otherwise they return
  the value of the longest numeral at the start of the string, saturated at the limits of the
  type, and store the address after it (after the 0 of a bare \<open>0x\<close>, the start when there is no
  numeral).\<close>

theorem strtol_value:
  assumes "cstr m p s"
  shows "strtol m p base =
      (if base = 0 \<or> 2 \<le> base \<and> base \<le> 36
       then Some (saturate_signed (scan_numeral base s), Some (p + num_end (scan_numeral base s)))
       else Some (0, None)) \<and>
    strtoll m p base = strtol m p base"
  using strtol_exact[OF assms, of base] by (auto simp: strtol_def strtoll_def strtox_def)

theorem strtol_value_witness:
  "strtol (string_at 64 '' -0x1Fz'') 64 0 = Some (-31, Some 70) \<and>
   strtol (string_at 64 ''9223372036854775808'') 64 10 = Some (9223372036854775807, Some 83) \<and>
   strtol (string_at 64 ''12'') 64 37 = Some (0, None)"
proof -
  have "saturate_signed (scan_numeral 0 (lit '' -0x1Fz'')) = -31"
    "num_end (scan_numeral 0 (lit '' -0x1Fz'')) = 6"
    "saturate_signed (scan_numeral 10 (lit ''9223372036854775808'')) = 9223372036854775807"
    "num_end (scan_numeral 10 (lit ''9223372036854775808'')) = 19"
    by code_simp+
  then show ?thesis
    using strtol_value[OF cstr_string_at[of "'' -0x1Fz''" 64], of 0]
      strtol_value[OF cstr_string_at[of "''9223372036854775808''" 64], of 10]
      strtol_value[OF cstr_string_at[of "''12''" 64], of 37]
    by simp
qed

text \<open>\<open>strtoul\<close> and \<open>strtoull\<close> on any NUL-terminated string and any base: the same numeral,
  with a value that exceeds 64 bits saturated at \<open>ULONG_MAX\<close> whatever its sign, and a smaller one
  negated modulo 2^64 when it has a minus sign.\<close>

theorem strtoul_value:
  assumes "cstr m p s"
  shows "strtoul m p base =
      (if base = 0 \<or> 2 \<le> base \<and> base \<le> 36
       then Some (saturate_unsigned (scan_numeral base s), Some (p + num_end (scan_numeral base s)))
       else Some (0, None)) \<and>
    strtoull m p base = strtoul m p base"
  using strtoul_exact[OF assms, of base] by (auto simp: strtoul_def strtoull_def strtox_def)

theorem strtoul_value_witness:
  "strtoul (string_at 64 ''-1'') 64 10 = Some (18446744073709551615, Some 66) \<and>
   strtoul (string_at 64 ''0777'') 64 0 = Some (511, Some 68) \<and>
   strtoul (string_at 64 ''-fffffffffffffffff'') 64 16 = Some (18446744073709551615, Some 82)"
proof -
  have "saturate_unsigned (scan_numeral 10 (lit ''-1'')) = 18446744073709551615"
    "num_end (scan_numeral 10 (lit ''-1'')) = 2"
    "saturate_unsigned (scan_numeral 0 (lit ''0777'')) = 511"
    "num_end (scan_numeral 0 (lit ''0777'')) = 4"
    "saturate_unsigned (scan_numeral 16 (lit ''-fffffffffffffffff'')) = 18446744073709551615"
    "num_end (scan_numeral 16 (lit ''-fffffffffffffffff'')) = 18"
    by code_simp+
  then show ?thesis
    using strtoul_value[OF cstr_string_at[of "''-1''" 64], of 10]
      strtoul_value[OF cstr_string_at[of "''0777''" 64], of 0]
      strtoul_value[OF cstr_string_at[of "''-fffffffffffffffff''" 64], of 16]
    by simp
qed

text \<open>C23. Reading back a printed number: on the decimal representation of any 64-bit signed value,
  \<open>strtol\<close> and \<open>atol\<close> return that value and \<open>strtol\<close> stops at the end of the string.\<close>

theorem strtol_roundtrip:
  assumes "cstr m p (dec_int i)" "- (2 ^ 63) \<le> i" "i < 2 ^ 63"
  shows "strtol m p 10 = Some (i, Some (p + length (dec_int i))) \<and> atol m p = Some i"
  using strtol_exact[OF assms(1), of 10] saturate_dec_int[OF assms(2,3)]
  by (simp add: atol_def scan_dec_int)

theorem strtol_roundtrip_witness:
  "strtol (bytes_at 8 (dec_int (-305) @ [0])) 8 10 = Some (-305, Some 12)"
proof -
  have "0 \<notin> set (dec_int (-305))" "length (dec_int (-305)) = 4"
    by code_simp+
  then show ?thesis
    using strtol_roundtrip[OF cstr_store_same[of "dec_int (-305)" "\<lambda>_. None" 8]]
    by (simp add: bytes_at_def)
qed

end
