(* ===== verification/Libc.thy ===== *)
theory Libc
  imports Prelude
begin

text \<open>
  \<open>c/libc.h\<close>, \<open>c/libc_internals.h\<close> and \<open>c/libc.c\<close>: the hooks to the underlying runtime, the state
  the library keeps (its three streams and the hooks) and its initialisation.

  The runtime is everything below the library: its state is the type \<open>'w\<close>, on which each hook
  acts. A writer is given the bytes of the block its caller points to and returns the \<open>ssize_t\<close>
  result with the new state. Allocation hooks also act on the memory. An operation of the library
  that can reach \<open>exit\<close> has an \<open>outcome\<close>.
\<close>

type_synonym 'w writer = "u8 list \<Rightarrow> 'w \<Rightarrow> int \<times> 'w"

text \<open>\<open>struct nnlc_sysdeps\<close>. The \<open>bool\<close> of the exit hook tells that the hook did not return, the
  triple of a clock is its return value, the seconds and the nanoseconds.\<close>

record 'w nnlc_sysdeps =
  sys_malloc :: "u64 \<Rightarrow> mem \<Rightarrow> 'w \<Rightarrow> ptr \<times> mem \<times> 'w"
  sys_free :: "ptr \<Rightarrow> mem \<Rightarrow> 'w \<Rightarrow> mem \<times> 'w"
  sys_write_stdout :: "'w writer"
  sys_write_stderr :: "'w writer"
  sys_exit :: "int \<Rightarrow> 'w \<Rightarrow> bool \<times> 'w"
  sys_usleep :: "u64 \<Rightarrow> 'w \<Rightarrow> u64 \<times> 'w"
  sys_gettime_monotonic :: "'w \<Rightarrow> (int \<times> u64 \<times> u64) \<times> 'w"
  sys_gettime_wall :: "'w \<Rightarrow> (int \<times> u64 \<times> u64) \<times> 'w"

text \<open>\<open>struct _FILE_DESCR\<close>. A \<open>FILE *\<close> is \<open>None\<close> for \<open>NULL\<close>, and a hook \<open>None\<close> likewise.\<close>

record 'w FILE_DESCR =
  magic :: int
  file_write :: "'w writer option"

definition NNLC_STDIO_MAGIC :: int where "NNLC_STDIO_MAGIC = 7886729"

record 'w nnlc_internal_data =
  libc_stdin :: "'w FILE_DESCR"
  libc_stdout :: "'w FILE_DESCR"
  libc_stderr :: "'w FILE_DESCR"
  sysdeps :: "'w nnlc_sysdeps option"

text \<open>The global \<open>__nnlc_internal_data\<close> before initialisation: all bits zero.\<close>

definition nnlc_internal_data0 :: "'w nnlc_internal_data" where
  "nnlc_internal_data0 =
     \<lparr> libc_stdin = \<lparr> magic = 0, file_write = None \<rparr>, libc_stdout = \<lparr> magic = 0, file_write = None \<rparr>,
       libc_stderr = \<lparr> magic = 0, file_write = None \<rparr>, sysdeps = None \<rparr>"

definition nnlc_initialize ::
  "'w nnlc_sysdeps \<Rightarrow> 'w nnlc_internal_data \<Rightarrow> int \<times> 'w nnlc_internal_data" where
  "nnlc_initialize sd d =
     (let d = d\<lparr> sysdeps := Some sd \<rparr>;
          d = d\<lparr> libc_stdin := \<lparr> magic = NNLC_STDIO_MAGIC, file_write = None \<rparr> \<rparr>;
          d = d\<lparr> libc_stdout := \<lparr> magic = NNLC_STDIO_MAGIC, file_write = Some (sys_write_stdout sd) \<rparr> \<rparr>;
          d = d\<lparr> libc_stderr := \<lparr> magic = NNLC_STDIO_MAGIC, file_write = Some (sys_write_stderr sd) \<rparr> \<rparr>
      in (0, d))"

lemma nnlc_initialize_fields:
  "nnlc_initialize sd d = (r, d') \<Longrightarrow>
    r = 0 \<and> sysdeps d' = Some sd \<and> magic (libc_stdout d') = NNLC_STDIO_MAGIC \<and>
    file_write (libc_stdout d') = Some (sys_write_stdout sd) \<and>
    magic (libc_stderr d') = NNLC_STDIO_MAGIC \<and>
    file_write (libc_stderr d') = Some (sys_write_stderr sd) \<and> file_write (libc_stdin d') = None"
  by (auto simp: nnlc_initialize_def Let_def)

text \<open>
  What a call does: it returns a value, it calls \<open>abort\<close>, the process has exited with a status, it
  loops for ever, or it is undefined (a call through a null hook, an unmapped access).
\<close>

datatype ('a, 'w) outcome = Returns 'a 'w | Aborts 'w | Exits int 'w | Hangs 'w | Faults

fun andthen :: "('a, 'w) outcome \<Rightarrow> ('a \<Rightarrow> 'w \<Rightarrow> ('b, 'w) outcome) \<Rightarrow> ('b, 'w) outcome" where
  "andthen (Returns a w) f = f a w"
| "andthen (Aborts w) f = Aborts w"
| "andthen (Exits i w) f = Exits i w"
| "andthen (Hangs w) f = Hangs w"
| "andthen Faults f = Faults"

lemma andthen_Returns_iff:
  "andthen r f = Returns b w' \<longleftrightarrow> (\<exists>a w. r = Returns a w \<and> f a w = Returns b w')"
  by (cases r) auto

text \<open>Conversions to \<open>ssize_t\<close>, as written in the code.\<close>

definition to_ssize :: "nat \<Rightarrow> int" where
  "to_ssize n = sint (word_of_nat n :: u64)"

lemma to_ssize_id: "n < 2 ^ 63 \<Longrightarrow> to_ssize n = int n"
  using sint_u64_id[of "int n"] unfolding to_ssize_def of_int_of_nat_eq
  by simp

section \<open>The contract of a writer\<close>

text \<open>
  The part of the hooks' contract that output relies on: a block of acceptable characters is
  written whole, after what has been written before, and its size is returned. \<open>out\<close> is what the
  device has received, \<open>emit\<close> what it receives for a block.
\<close>

locale stream_writer =
  fixes writer :: "'w writer"
    and good :: "u8 \<Rightarrow> bool"
    and out :: "'w \<Rightarrow> 'c list"
    and emit :: "u8 list \<Rightarrow> 'c list"
  assumes write_all: "\<forall>b \<in> set bs. good b \<Longrightarrow> length bs < 2 ^ 63 \<Longrightarrow>
      \<exists>w'. writer bs w = (int (length bs), w') \<and> out w' = out w @ emit bs"
    and emit_append: "emit (bs @ cs) = emit bs @ emit cs"
begin

lemma emit_Nil [simp]: "emit [] = []"
  using emit_append[of "[]" "[]"] by simp

lemma emit_snoc: "emit (bs @ [c]) = emit bs @ emit [c]"
  by (rule emit_append)

lemma emit_concat: "emit (concat bss) = concat (map emit bss)"
  by (induction bss) (auto simp: emit_append)

end

end
