(* ===== verification/Stdio.thy ===== *)
theory Stdio
  imports Libc CString
begin

text \<open>
  \<open>c/stdio.c\<close>: character and block output, and the three \<open>printf\<close> families. The formatter
  \<open>tfp_format\<close> of tinyprintf is not part of the repository: it is the parameter \<open>tfp\<close>, the
  characters it produces for a format and its arguments, each of which it passes to the callback
  with the caller's data. The callbacks and the buffers they fill are modelled as they are written.
  A stream that is not valid, or has no writer, is rejected as in the code; \<open>puts\<close> and \<open>putchar\<close>,
  which call the hook unchecked, are \<open>Faults\<close> without one.
\<close>

section \<open>Characters, strings and blocks\<close>

definition EOF :: int where "EOF = -1"

fun is_valid_FILE :: "'w FILE_DESCR option \<Rightarrow> bool" where
  "is_valid_FILE None = False"
| "is_valid_FILE (Some f) = (magic f = NNLC_STDIO_MAGIC)"

text \<open>The guard of the output functions: the writer of a valid stream that has one.\<close>

definition stream_write :: "'w FILE_DESCR option \<Rightarrow> 'w writer option" where
  "stream_write stream =
     (if \<not> is_valid_FILE stream then None
      else case stream of None \<Rightarrow> None | Some f \<Rightarrow> file_write f)"

definition fputc :: "int \<Rightarrow> 'w FILE_DESCR option \<Rightarrow> 'w \<Rightarrow> int \<times> 'w" where
  "fputc c stream w =
     (let uc = (word_of_int c :: u8) in
      case stream_write stream of
        None \<Rightarrow> (EOF, w)
      | Some wrt \<Rightarrow> (let (n, w') = wrt [uc] w in if n \<noteq> 1 then (EOF, w') else (uint uc, w')))"

definition putc :: "int \<Rightarrow> 'w FILE_DESCR option \<Rightarrow> 'w \<Rightarrow> int \<times> 'w" where
  "putc c stream w = fputc c stream w"

definition fputs :: "mem \<Rightarrow> ptr \<Rightarrow> 'w FILE_DESCR option \<Rightarrow> 'w \<Rightarrow> (int, 'w) outcome" where
  "fputs m s stream w =
     (case stream_write stream of
        None \<Rightarrow> Returns EOF w
      | Some wrt \<Rightarrow>
          (case do { len \<leftarrow> strlen m s; load m s len } of
             None \<Rightarrow> Faults
           | Some bs \<Rightarrow> (let (n, w') = wrt bs w in
               if n \<noteq> to_ssize (length bs) then Returns EOF w' else Returns 1 w')))"

definition putchar :: "'w nnlc_internal_data \<Rightarrow> int \<Rightarrow> 'w \<Rightarrow> (int, 'w) outcome" where
  "putchar d c w =
     (let uc = (word_of_int c :: u8) in
      case file_write (libc_stdout d) of
        None \<Rightarrow> Faults
      | Some wrt \<Rightarrow> (let (n, w') = wrt [uc] w in
          if n \<noteq> 1 then Returns EOF w' else Returns (uint uc) w'))"

definition puts :: "'w nnlc_internal_data \<Rightarrow> mem \<Rightarrow> ptr \<Rightarrow> 'w \<Rightarrow> (int, 'w) outcome" where
  "puts d m s w =
     (case do { len \<leftarrow> strlen m s; load m s len } of
        None \<Rightarrow> Faults
      | Some bs \<Rightarrow>
          (case file_write (libc_stdout d) of
             None \<Rightarrow> Faults
           | Some wrt \<Rightarrow> (let (n, w') = wrt bs w in
               if n \<noteq> to_ssize (length bs) then Returns EOF w'
               else (let (n, w'') = wrt [10] w' in
                 if n \<noteq> 1 then Returns EOF w'' else Returns 1 w''))))"

text \<open>The loop of \<open>fwrite\<close>: \<open>k\<close> elements are left, \<open>i\<close> have been written.\<close>

fun fwrite_loop :: "'w writer \<Rightarrow> mem \<Rightarrow> ptr \<Rightarrow> nat \<Rightarrow> nat \<Rightarrow> nat \<Rightarrow> 'w \<Rightarrow> (nat, 'w) outcome" where
  "fwrite_loop wrt m p sz i 0 w = Returns i w"
| "fwrite_loop wrt m p sz i (Suc k) w =
     (case load m (p + i * sz) sz of
        None \<Rightarrow> Faults
      | Some bs \<Rightarrow> (let (n, w') = wrt bs w in
          if n \<noteq> to_ssize sz then Returns i w' else fwrite_loop wrt m p sz (Suc i) k w'))"

definition fwrite :: "mem \<Rightarrow> ptr \<Rightarrow> nat \<Rightarrow> nat \<Rightarrow> 'w FILE_DESCR option \<Rightarrow> 'w \<Rightarrow> (nat, 'w) outcome" where
  "fwrite m p sz nmemb stream w =
     (case stream_write stream of
        None \<Rightarrow> Returns 0 w
      | Some wrt \<Rightarrow> fwrite_loop wrt m p sz 0 nmemb w)"

definition fflush :: "'w FILE_DESCR option \<Rightarrow> int" where
  "fflush stream = (if \<not> is_valid_FILE stream then -1 else 0)"

section \<open>The formatter and its callbacks\<close>

text \<open>What a callback does with a character: it updates the data, calls \<open>abort\<close>, or faults.\<close>

datatype 'd putres = Next 'd | Abort_in 'd | Bad_put

fun fold_put :: "('d \<Rightarrow> u8 \<Rightarrow> 'd putres) \<Rightarrow> u8 list \<Rightarrow> 'd \<Rightarrow> 'd putres" where
  "fold_put put [] d = Next d"
| "fold_put put (c # cs) d = (case put d c of Next d' \<Rightarrow> fold_put put cs d' | r \<Rightarrow> r)"

datatype va_arg = va_ptr ptr | va_int int

type_synonym formatter = "mem \<Rightarrow> u8 list \<Rightarrow> va_arg list \<Rightarrow> u8 list"

definition tfp_format ::
  "formatter \<Rightarrow> 'd \<Rightarrow> ('d \<Rightarrow> u8 \<Rightarrow> 'd putres) \<Rightarrow> mem \<Rightarrow> u8 list \<Rightarrow> va_arg list \<Rightarrow> 'd putres" where
  "tfp_format tfp data putcf m fmt ap = fold_put putcf (tfp m fmt ap) data"

subsection \<open>\<open>vfprintf\<close>\<close>

record 'w vprintf_putcf_data =
  vp_stream :: "'w writer"
  buff :: "u8 list"
  buff_capacity :: nat
  nbuffered :: nat
  total_written :: nat

text \<open>A call of the writer from the buffer; \<open>int n\<close> is the narrowed result.\<close>

definition vprintf_flush :: "'w vprintf_putcf_data \<Rightarrow> 'w \<Rightarrow> 'w vprintf_putcf_data \<times> 'w" where
  "vprintf_flush data w =
     (let (r, w') = vp_stream data (take (nbuffered data) (buff data)) w;
          n = to_int r
      in (if n > 0 then data\<lparr> total_written := total_written data + nat n \<rparr> else data, w'))"

definition vprintf_putcf ::
  "'w vprintf_putcf_data \<times> 'w \<Rightarrow> u8 \<Rightarrow> ('w vprintf_putcf_data \<times> 'w) putres" where
  "vprintf_putcf = (\<lambda>(data, w) c.
     if nbuffered data \<ge> buff_capacity data then Abort_in (data, w)
     else
       let data = data\<lparr> buff := (buff data)[nbuffered data := c], nbuffered := nbuffered data + 1 \<rparr> in
       if nbuffered data \<ge> buff_capacity data then
         (let (data, w) = vprintf_flush data w in Next (data\<lparr> nbuffered := 0 \<rparr>, w))
       else Next (data, w))"

text \<open>\<open>char buff[64]\<close> on the stack; its initial contents are never read.\<close>

definition vfprintf ::
  "formatter \<Rightarrow> mem \<Rightarrow> 'w FILE_DESCR option \<Rightarrow> u8 list \<Rightarrow> va_arg list \<Rightarrow> 'w \<Rightarrow> (int, 'w) outcome" where
  "vfprintf tfp m stream fmt ap w =
     (case stream_write stream of
        None \<Rightarrow> Returns (-1) w
      | Some wrt \<Rightarrow>
          let data = \<lparr> vp_stream = wrt, buff = replicate 64 0, buff_capacity = 64, nbuffered = 0,
                       total_written = 0 \<rparr> in
          (case tfp_format tfp (data, w) vprintf_putcf m fmt ap of
             Bad_put \<Rightarrow> Faults
           | Abort_in (data, w) \<Rightarrow> Aborts w
           | Next (data, w) \<Rightarrow>
               let (data, w) = (if nbuffered data > 0 then vprintf_flush data w else (data, w)) in
               Returns (to_int (int (total_written data))) w))"

definition fprintf ::
  "formatter \<Rightarrow> mem \<Rightarrow> 'w FILE_DESCR option \<Rightarrow> u8 list \<Rightarrow> va_arg list \<Rightarrow> 'w \<Rightarrow> (int, 'w) outcome" where
  "fprintf tfp m stream fmt args w = vfprintf tfp m stream fmt args w"

definition vprintf ::
  "formatter \<Rightarrow> 'w nnlc_internal_data \<Rightarrow> mem \<Rightarrow> u8 list \<Rightarrow> va_arg list \<Rightarrow> 'w \<Rightarrow> (int, 'w) outcome" where
  "vprintf tfp d m fmt ap w = vfprintf tfp m (Some (libc_stdout d)) fmt ap w"

definition printf ::
  "formatter \<Rightarrow> 'w nnlc_internal_data \<Rightarrow> mem \<Rightarrow> u8 list \<Rightarrow> va_arg list \<Rightarrow> 'w \<Rightarrow> (int, 'w) outcome" where
  "printf tfp d m fmt args w = vprintf tfp d m fmt args w"

definition perror :: "formatter \<Rightarrow> 'w nnlc_internal_data \<Rightarrow> mem \<Rightarrow> ptr \<Rightarrow> 'w \<Rightarrow> (int, 'w) outcome" where
  "perror tfp d m s w =
     andthen (fprintf tfp m (Some (libc_stderr d)) (lit ''Error: %s'' @ [10]) [va_ptr s] w)
       (\<lambda>_ w. Returns 0 w)"

subsection \<open>\<open>vsnprintf\<close> and \<open>vsprintf\<close>\<close>

record vsnprintf_putcf_data =
  dest_capacity :: nat
  sn_dest :: ptr
  sn_used :: nat

definition vsnprintf_putcf ::
  "vsnprintf_putcf_data \<times> mem \<Rightarrow> u8 \<Rightarrow> (vsnprintf_putcf_data \<times> mem) putres" where
  "vsnprintf_putcf = (\<lambda>(data, m) c.
     case (if sn_used data < dest_capacity data then wr m (sn_dest data + sn_used data) c else Some m) of
       None \<Rightarrow> Bad_put
     | Some m' \<Rightarrow> Next (data\<lparr> sn_used := sn_used data + 1 \<rparr>, m'))"

definition vsnprintf ::
  "formatter \<Rightarrow> mem \<Rightarrow> ptr \<Rightarrow> nat \<Rightarrow> u8 list \<Rightarrow> va_arg list \<Rightarrow> (int \<times> mem) option" where
  "vsnprintf tfp m str sz fmt ap =
     (let data = \<lparr> dest_capacity = sz, sn_dest = str, sn_used = 0 \<rparr> in
      case tfp_format tfp (data, m) vsnprintf_putcf m fmt ap of
        Next (data, m) \<Rightarrow> do {
          m \<leftarrow> (if sn_used data < sz then wr m (sn_dest data + sn_used data) 0
               else if sz > 0 then wr m (sn_dest data + (sz - 1)) 0
               else Some m);
          Some (to_int (int (sn_used data)), m) }
      | _ \<Rightarrow> None)"

definition snprintf ::
  "formatter \<Rightarrow> mem \<Rightarrow> ptr \<Rightarrow> nat \<Rightarrow> u8 list \<Rightarrow> va_arg list \<Rightarrow> (int \<times> mem) option" where
  "snprintf tfp m str sz fmt args = vsnprintf tfp m str sz fmt args"

record vsprintf_putcf_data =
  s_dest :: ptr
  s_used :: nat

definition vsprintf_putcf ::
  "vsprintf_putcf_data \<times> mem \<Rightarrow> u8 \<Rightarrow> (vsprintf_putcf_data \<times> mem) putres" where
  "vsprintf_putcf = (\<lambda>(data, m) c.
     case wr m (s_dest data + s_used data) c of
       None \<Rightarrow> Bad_put
     | Some m' \<Rightarrow> Next (data\<lparr> s_used := s_used data + 1 \<rparr>, m'))"

definition vsprintf ::
  "formatter \<Rightarrow> mem \<Rightarrow> ptr \<Rightarrow> u8 list \<Rightarrow> va_arg list \<Rightarrow> (int \<times> mem) option" where
  "vsprintf tfp m str fmt ap =
     (let data = \<lparr> s_dest = str, s_used = 0 \<rparr> in
      case tfp_format tfp (data, m) vsprintf_putcf m fmt ap of
        Next (data, m) \<Rightarrow> do {
          m \<leftarrow> wr m (s_dest data + s_used data) 0;
          Some (to_int (int (s_used data)), m) }
      | _ \<Rightarrow> None)"

definition sprintf ::
  "formatter \<Rightarrow> mem \<Rightarrow> ptr \<Rightarrow> u8 list \<Rightarrow> va_arg list \<Rightarrow> (int \<times> mem) option" where
  "sprintf tfp m str fmt args = vsprintf tfp m str fmt args"

section \<open>The contract of the callbacks\<close>

text \<open>
  All three callbacks keep the data a faithful image \<open>rep\<close> of the text received so far, as long as
  the text is acceptable (\<open>lim\<close>). Hence after a whole format the data represents its whole text,
  and no callback aborts or faults.
\<close>

locale putc_sink =
  fixes put :: "'d \<Rightarrow> u8 \<Rightarrow> 'd putres"
    and rep :: "'d \<Rightarrow> u8 list \<Rightarrow> bool"
    and lim :: "u8 list \<Rightarrow> bool"
  assumes put_step: "rep d t \<Longrightarrow> lim (t @ [c]) \<Longrightarrow> \<exists>d'. put d c = Next d' \<and> rep d' (t @ [c])"
    and lim_prefix: "lim (t @ u) \<Longrightarrow> lim t"
begin

lemma fold_rep:
  "rep d t \<Longrightarrow> lim (t @ cs) \<Longrightarrow> \<exists>d'. fold_put put cs d = Next d' \<and> rep d' (t @ cs)"
proof (induction cs arbitrary: d t)
  case (Cons c cs)
  have "lim (t @ [c])" using Cons.prems(2) lim_prefix[of "t @ [c]" cs] by simp
  then obtain d1 where d1: "put d c = Next d1" "rep d1 (t @ [c])"
    using put_step Cons.prems(1) by blast
  with Cons.IH[OF d1(2)] Cons.prems(2) show ?case by simp
qed simp

lemma tfp_format_rep:
  "rep d [] \<Longrightarrow> lim (tfp m fmt ap) \<Longrightarrow>
    \<exists>d'. tfp_format tfp d put m fmt ap = Next d' \<and> rep d' (tfp m fmt ap)"
  using fold_rep[of d "[]" "tfp m fmt ap"] by (simp add: tfp_format_def)

end

text \<open>The image kept by \<open>vsnprintf\<close>: the first \<open>sz\<close> characters are in memory, all are counted.\<close>

definition vsnprintf_rep :: "mem \<Rightarrow> ptr \<Rightarrow> nat \<Rightarrow> vsnprintf_putcf_data \<times> mem \<Rightarrow> u8 list \<Rightarrow> bool" where
  "vsnprintf_rep m0 str sz = (\<lambda>(data, m) t.
     data = \<lparr> dest_capacity = sz, sn_dest = str, sn_used = length t \<rparr> \<and> m = store m0 str (take sz t))"

definition vsprintf_rep :: "mem \<Rightarrow> ptr \<Rightarrow> vsprintf_putcf_data \<times> mem \<Rightarrow> u8 list \<Rightarrow> bool" where
  "vsprintf_rep m0 str = (\<lambda>(data, m) t. data = \<lparr> s_dest = str, s_used = length t \<rparr> \<and> m = store m0 str t)"

lemma store_mapped_at: "m p \<noteq> None \<Longrightarrow> store m q bs p \<noteq> None"
  by (auto simp: store_def)

interpretation vsnprintf: putc_sink vsnprintf_putcf "vsnprintf_rep m0 str sz" "\<lambda>t. mapped m0 str sz"
  for m0 str sz
proof unfold_locales
  fix d t c
  assume rep: "vsnprintf_rep m0 str sz d t" and lim: "mapped m0 str sz"
  show "\<exists>d'. vsnprintf_putcf d c = Next d' \<and> vsnprintf_rep m0 str sz d' (t @ [c])"
  proof (cases "length t < sz")
    case True
    then have "store m0 str t (str + length t) \<noteq> None"
      using mappedD[OF lim True] by (rule_tac store_mapped_at) auto
    with True rep show ?thesis
      by (cases d) (auto simp: vsnprintf_rep_def vsnprintf_putcf_def store_snoc)
  next
    case False
    with rep show ?thesis
      by (cases d) (auto simp: vsnprintf_rep_def vsnprintf_putcf_def)
  qed
qed

interpretation vsprintf: putc_sink vsprintf_putcf "vsprintf_rep m0 str" "\<lambda>t. mapped m0 str (length t)"
  for m0 str
proof unfold_locales
  fix d t c
  assume rep: "vsprintf_rep m0 str d t" and lim: "mapped m0 str (length (t @ [c]))"
  have "store m0 str t (str + length t) \<noteq> None"
    using mappedD[OF lim, of "length t"] by (rule_tac store_mapped_at) auto
  with rep show "\<exists>d'. vsprintf_putcf d c = Next d' \<and> vsprintf_rep m0 str d' (t @ [c])"
    by (cases d) (auto simp: vsprintf_rep_def vsprintf_putcf_def store_snoc)
qed (auto simp: mapped_def)


text \<open>
  The image kept by \<open>vfprintf\<close>: of the characters received, a first part has been written and the
  rest is at the start of the buffer, which is never left full.
\<close>

definition vprintf_rep ::
  "'w writer \<Rightarrow> ('w \<Rightarrow> 'c list) \<Rightarrow> (u8 list \<Rightarrow> 'c list) \<Rightarrow> 'w \<Rightarrow> 'w vprintf_putcf_data \<times> 'w \<Rightarrow> u8 list \<Rightarrow> bool" where
  "vprintf_rep wrt out emit w0 = (\<lambda>(d, w) t.
     vp_stream d = wrt \<and> length (buff d) = 64 \<and> buff_capacity d = 64 \<and> nbuffered d < 64 \<and>
     total_written d + nbuffered d = length t \<and>
     take (nbuffered d) (buff d) = drop (total_written d) t \<and>
     out w = out w0 @ emit (take (total_written d) t))"

context stream_writer begin

lemma vprintf_flush_rep:
  assumes "vp_stream d = writer" "\<forall>b \<in> set t. good b" "0 < nbuffered d" "nbuffered d \<le> 64"
    "total_written d + nbuffered d = length t" "take (nbuffered d) (buff d) = drop (total_written d) t"
    "out w = out w0 @ emit (take (total_written d) t)"
  shows "\<exists>w'. vprintf_flush d w = (d\<lparr> total_written := length t \<rparr>, w') \<and> out w' = out w0 @ emit t"
proof -
  let ?bs = "drop (total_written d) t"
  have len: "length ?bs = nbuffered d" using assms(5) by simp
  have "\<forall>b \<in> set ?bs. good b" using assms(2) by (auto dest: in_set_dropD)
  then obtain w' where w': "writer ?bs w = (int (nbuffered d), w')" "out w' = out w @ emit ?bs"
    using write_all[of ?bs w] len assms(4) by auto
  have "emit (take (total_written d) t) @ emit ?bs = emit t"
    by (simp flip: emit_append)
  then show ?thesis
    using w' assms by (simp add: vprintf_flush_def)
qed

lemma vprintf_put_rep:
  assumes rep: "vprintf_rep writer out emit w0 (d, w) t" and good: "\<forall>b \<in> set (t @ [c]). good b"
  shows "\<exists>d' w'. vprintf_putcf (d, w) c = Next (d', w') \<and> vprintf_rep writer out emit w0 (d', w') (t @ [c])"
proof -
  define d1 where "d1 = d\<lparr> buff := (buff d)[nbuffered d := c], nbuffered := nbuffered d + 1 \<rparr>"
  have r: "vp_stream d = writer" "length (buff d) = 64" "buff_capacity d = 64" "nbuffered d < 64"
    "total_written d + nbuffered d = length t" "take (nbuffered d) (buff d) = drop (total_written d) t"
    "out w = out w0 @ emit (take (total_written d) t)"
    using rep by (auto simp: vprintf_rep_def)
  have d1: "vp_stream d1 = writer" "length (buff d1) = 64" "buff_capacity d1 = 64"
    "nbuffered d1 = nbuffered d + 1" "total_written d1 = total_written d"
    "take (nbuffered d1) (buff d1) = drop (total_written d1) (t @ [c])"
    "take (total_written d1) (t @ [c]) = take (total_written d) t"
    using r by (simp_all add: d1_def take_Suc_conv_app_nth)
  have eq: "vprintf_putcf (d, w) c = (if 64 \<le> nbuffered d1
      then (let (data, w) = vprintf_flush d1 w in Next (data\<lparr> nbuffered := 0 \<rparr>, w)) else Next (d1, w))"
    using r by (simp add: vprintf_putcf_def d1_def)
  show ?thesis
  proof (cases "nbuffered d1 \<ge> 64")
    case True
    obtain w' where "vprintf_flush d1 w = (d1\<lparr> total_written := length (t @ [c]) \<rparr>, w')"
      "out w' = out w0 @ emit (t @ [c])"
      using vprintf_flush_rep[of d1 "t @ [c]" w w0] d1 r good by auto
    with True r d1 show ?thesis
      by (simp add: eq vprintf_rep_def)
  next
    case False
    with r d1 show ?thesis
      by (simp add: eq vprintf_rep_def)
  qed
qed

end

sublocale stream_writer \<subseteq> vprintf: putc_sink vprintf_putcf "vprintf_rep writer out emit w0"
    "\<lambda>t. \<forall>b \<in> set t. good b" for w0
proof unfold_locales
  fix d t c
  assume "vprintf_rep writer out emit w0 d t" "\<forall>b \<in> set (t @ [c]). good b"
  then show "\<exists>d'. vprintf_putcf d c = Next d' \<and> vprintf_rep writer out emit w0 d' (t @ [c])"
    using vprintf_put_rep[of w0 "fst d" "snd d" t c] by auto
qed auto

context stream_writer begin

lemma vfprintf_emits:
  assumes "stream_write stream = Some writer" "\<forall>b \<in> set (tfp m fmt ap). good b"
  shows "\<exists>w'. vfprintf tfp m stream fmt ap w = Returns (to_int (int (length (tfp m fmt ap)))) w' \<and>
    out w' = out w @ emit (tfp m fmt ap)"
proof -
  let ?t = "tfp m fmt ap"
  define d0 where "d0 = \<lparr> vp_stream = writer, buff = replicate 64 0, buff_capacity = 64, nbuffered = 0,
    total_written = 0 \<rparr>"
  have "vprintf_rep writer out emit w (d0, w) []"
    by (simp add: vprintf_rep_def d0_def)
  then obtain d w1 where fmt: "tfp_format tfp (d0, w) vprintf_putcf m fmt ap = Next (d, w1)"
    and rep: "vprintf_rep writer out emit w (d, w1) ?t"
    using vprintf.tfp_format_rep[of w "(d0, w)" tfp m fmt ap] assms(2) by auto
  have r: "vp_stream d = writer" "nbuffered d \<le> 64" "total_written d + nbuffered d = length ?t"
    "take (nbuffered d) (buff d) = drop (total_written d) ?t"
    "out w1 = out w @ emit (take (total_written d) ?t)"
    using rep by (auto simp: vprintf_rep_def)
  show ?thesis
  proof (cases "nbuffered d > 0")
    case True
    then obtain w' where "vprintf_flush d w1 = (d\<lparr> total_written := length ?t \<rparr>, w')" "out w' = out w @ emit ?t"
      using vprintf_flush_rep[OF r(1) assms(2) True r(2-5)] by auto
    with True fmt show ?thesis
      by (simp add: vfprintf_def assms(1) flip: d0_def)
  next
    case False
    with fmt r show ?thesis
      by (simp add: vfprintf_def assms(1) flip: d0_def)
  qed
qed

lemma fputc_emits:
  assumes "stream_write stream = Some writer" "good (word_of_int c)"
  shows "\<exists>w'. fputc c stream w = (uint (word_of_int c :: u8), w') \<and> out w' = out w @ emit [word_of_int c]"
  using write_all[of "[word_of_int c]" w] assms by (auto simp: fputc_def)

lemma fputs_emits:
  assumes "stream_write stream = Some writer" "cstr m s bs" "\<forall>b \<in> set bs. good b" "length bs < 2 ^ 63"
  shows "\<exists>w'. fputs m s stream w = Returns 1 w' \<and> out w' = out w @ emit bs"
  using write_all[OF assms(3,4), of w] assms(1,2) to_ssize_id[OF assms(4)]
  by (auto simp: fputs_def strlen_exact cstr_iff)

lemma puts_emits:
  assumes "file_write (libc_stdout d) = Some writer" "cstr m s bs" "\<forall>b \<in> set bs. good b" "good 10"
    "length bs < 2 ^ 63"
  shows "\<exists>w'. puts d m s w = Returns 1 w' \<and> out w' = out w @ emit (bs @ [10])"
proof -
  obtain w1 where w1: "writer bs w = (int (length bs), w1)" "out w1 = out w @ emit bs"
    using write_all[OF assms(3,5), of w] by auto
  obtain w2 where w2: "writer [10] w1 = (1, w2)" "out w2 = out w1 @ emit [10]"
    using write_all[of "[10]" w1] assms(4) by auto
  show ?thesis
    using w1 w2 assms(1) to_ssize_id[OF assms(5)] strlen_exact[OF assms(2)] assms(2)
    by (simp add: puts_def cstr_iff emit_append)
qed

lemma fwrite_loop_emits:
  assumes "load m (p + i * sz) (k * sz) = Some bs" "\<forall>b \<in> set bs. good b" "sz < 2 ^ 63"
  shows "\<exists>w'. fwrite_loop writer m p sz i k w = Returns (i + k) w' \<and> out w' = out w @ emit bs"
  using assms(1,2)
proof (induction k arbitrary: i w bs)
  case (Suc k)
  obtain b1 b2 where b: "load m (p + i * sz) sz = Some b1" "load m (p + Suc i * sz) (k * sz) = Some b2"
    "bs = b1 @ b2"
    using Suc.prems(1) load_append[of m "p + i * sz" sz "k * sz"]
    by (auto simp: bind_eq_Some_conv ac_simps)
  obtain w1 where w1: "writer b1 w = (int sz, w1)" "out w1 = out w @ emit b1"
    using write_all[of b1 w] Suc.prems(2) b(3) assms(3) length_load[OF b(1)] by auto
  then show ?case
    using Suc.IH[OF b(2), of w1] Suc.prems(2) b to_ssize_id[OF assms(3)] by (auto simp: emit_append)
qed simp

lemma fwrite_emits:
  assumes "stream_write stream = Some writer" "load m p (nmemb * sz) = Some bs" "\<forall>b \<in> set bs. good b"
    "sz < 2 ^ 63"
  shows "\<exists>w'. fwrite m p sz nmemb stream w = Returns nmemb w' \<and> out w' = out w @ emit bs"
  using fwrite_loop_emits[of m p 0 sz nmemb bs w] assms by (auto simp: fwrite_def)

end

section \<open>Blocks\<close>

text \<open>A text cut in blocks of \<open>n\<close> characters, and the calls of a writer on a list of blocks.\<close>

function chunks :: "nat \<Rightarrow> 'a list \<Rightarrow> 'a list list" where
  "chunks n xs = (if xs = [] \<or> n = 0 then [] else take n xs # chunks n (drop n xs))"
  by pat_completeness auto
termination
  by (relation "measure (\<lambda>(n, xs). length xs)") auto

declare chunks.simps [simp del]

lemma concat_chunks: "0 < n \<Longrightarrow> concat (chunks n xs) = xs"
proof (induction n xs rule: chunks.induct)
  case (1 n xs)
  then show ?case by (cases "xs = []") (simp_all add: chunks.simps[of n])
qed

lemma chunks_short: "length xs < n \<Longrightarrow> chunks n xs = (if xs = [] then [] else [xs])"
  by (simp add: chunks.simps[of n xs] chunks.simps[of n "[]"])

lemma chunks_full: "length xs = n \<Longrightarrow> 0 < n \<Longrightarrow> chunks n (xs @ ys) = xs # chunks n ys"
  by (auto simp: chunks.simps[of n "xs @ ys"])

fun write_blocks :: "'w writer \<Rightarrow> u8 list list \<Rightarrow> 'w \<Rightarrow> nat \<Rightarrow> nat \<times> 'w" where
  "write_blocks wrt [] w n = (n, w)"
| "write_blocks wrt (b # bs) w n =
     (let (r, w') = wrt b w; k = to_int r in write_blocks wrt bs w' (if k > 0 then n + nat k else n))"

lemma vprintf_fold_blocks:
  assumes "vp_stream d = wrt" "length (buff d) = 64" "buff_capacity d = 64" "nbuffered d < 64"
  shows "\<exists>d' w'. fold_put vprintf_putcf cs (d, w) = Next (d', w') \<and>
    write_blocks wrt (chunks 64 (take (nbuffered d) (buff d) @ cs)) w (total_written d) =
      (let (d, w) = (if nbuffered d' > 0 then vprintf_flush d' w' else (d', w')) in (total_written d, w))"
  using assms
proof (induction cs arbitrary: d w)
  case Nil
  then show ?case
    by (auto simp: chunks_short vprintf_flush_def Let_def split: prod.splits)
next
  case (Cons c cs)
  define d1 where "d1 = d\<lparr> buff := (buff d)[nbuffered d := c], nbuffered := nbuffered d + 1 \<rparr>"
  have d1: "vp_stream d1 = wrt" "length (buff d1) = 64" "buff_capacity d1 = 64"
    "nbuffered d1 = nbuffered d + 1" "total_written d1 = total_written d"
    "take (nbuffered d1) (buff d1) = take (nbuffered d) (buff d) @ [c]"
    using Cons.prems by (simp_all add: d1_def take_Suc_conv_app_nth)
  have eq: "vprintf_putcf (d, w) c = (if 64 \<le> nbuffered d1
      then (let (data, w) = vprintf_flush d1 w in Next (data\<lparr> nbuffered := 0 \<rparr>, w)) else Next (d1, w))"
    using Cons.prems by (simp add: vprintf_putcf_def d1_def)
  show ?case
  proof (cases "64 \<le> nbuffered d1")
    case False
    then show ?thesis
      using Cons.IH[of d1 w] d1 eq by (simp add: d1(5,6))
  next
    case True
    obtain r w1 where r: "wrt (take (nbuffered d1) (buff d1)) w = (r, w1)" by fastforce
    define d2 where "d2 = (if to_int r > 0 then d1\<lparr> total_written := total_written d1 + nat (to_int r) \<rparr> else d1)
      \<lparr> nbuffered := 0 \<rparr>"
    have eq': "vprintf_putcf (d, w) c = Next (d2, w1)"
      using True eq r d1(1) by (simp add: vprintf_flush_def d2_def)
    have d2: "vp_stream d2 = wrt" "length (buff d2) = 64" "buff_capacity d2 = 64" "nbuffered d2 = 0"
      "total_written d2 = (if to_int r > 0 then total_written d + nat (to_int r) else total_written d)"
      using d1 by (auto simp: d2_def)
    have "chunks 64 (take (nbuffered d) (buff d) @ c # cs) = take (nbuffered d1) (buff d1) # chunks 64 cs"
      using chunks_full[of "take (nbuffered d) (buff d) @ [c]" 64 cs] True d1 Cons.prems by simp
    then show ?thesis
      using Cons.IH[of d2 w1] d2 eq' r by (simp add: Let_def del: split_paired_Ex)
  qed
qed

lemma vfprintf_exact:
  "vfprintf tfp m stream fmt ap w =
     (case stream_write stream of
        None \<Rightarrow> Returns (-1) w
      | Some wrt \<Rightarrow> (let (n, w') = write_blocks wrt (chunks 64 (tfp m fmt ap)) w 0 in
                     Returns (to_int (int n)) w'))"
proof (cases "stream_write stream")
  case (Some wrt)
  obtain d w1 where fmt: "fold_put vprintf_putcf (tfp m fmt ap)
      (\<lparr> vp_stream = wrt, buff = replicate 64 0, buff_capacity = 64, nbuffered = 0, total_written = 0 \<rparr>, w) =
      Next (d, w1)"
    and n: "write_blocks wrt (chunks 64 (tfp m fmt ap)) w 0 =
      (let (d, w) = (if nbuffered d > 0 then vprintf_flush d w1 else (d, w1)) in (total_written d, w))"
    using vprintf_fold_blocks[of "\<lparr> vp_stream = wrt, buff = replicate 64 0, buff_capacity = 64, nbuffered = 0,
      total_written = 0 \<rparr>" wrt "tfp m fmt ap" w] by auto
  show ?thesis
    using n by (simp add: vfprintf_def tfp_format_def Some fmt split: prod.splits)
qed (simp add: vfprintf_def)

section \<open>The results of \<open>vsnprintf\<close> and \<open>vsprintf\<close>\<close>

lemma vsnprintf_exact:
  assumes "mapped m str sz" "t = tfp m fmt ap"
  shows "vsnprintf tfp m str sz fmt ap = Some (to_int (int (length t)),
    if sz = 0 then m
    else if length t < sz then store m str (t @ [0])
    else store m str (take (sz - 1) t @ [0]))"
proof -
  let ?d0 = "\<lparr> dest_capacity = sz, sn_dest = str, sn_used = 0 \<rparr>"
  have "vsnprintf_rep m str sz (?d0, m) []" by (simp add: vsnprintf_rep_def)
  then have fmt: "tfp_format tfp (?d0, m) vsnprintf_putcf m fmt ap =
      Next (\<lparr> dest_capacity = sz, sn_dest = str, sn_used = length t \<rparr>, store m str (take sz t))"
    using vsnprintf.tfp_format_rep[of m str sz "(?d0, m)" tfp m fmt ap] assms
    by (auto simp: vsnprintf_rep_def)
  have mp: "m (str + i) \<noteq> None" if "i < sz" for i
    using mappedD[OF assms(1) that] .
  consider "length t < sz" | "sz \<le> length t" "sz \<noteq> 0" | "sz \<le> length t" "sz = 0" by linarith
  then show ?thesis
  proof cases
    case 1
    then have "wr (store m str t) (str + length t) 0 = Some (store m str (t @ [0]))"
      using store_mapped_at[of m "str + length t" str t] mp[OF 1] by (simp add: store_snoc)
    with 1 show ?thesis by (simp add: vsnprintf_def fmt)
  next
    case 2
    then have "wr (store m str (take sz t)) (str + (sz - 1)) 0 =
        Some ((store m str (take sz t))(str + (sz - 1) \<mapsto> 0))"
      using mp[of "sz - 1"] by (intro wr_mapped store_mapped_at) auto
    moreover have "take sz t = take (sz - 1) t @ [t ! (sz - 1)]"
      using 2 take_Suc_conv_app_nth[of "sz - 1" t] by simp
    then have "(store m str (take sz t))(str + (sz - 1) \<mapsto> 0) = store m str (take (sz - 1) t @ [0])"
      using 2 min_absorb2[of "sz - 1" "length t"] by (simp add: store_snoc)
    ultimately show ?thesis using 2 by (simp add: vsnprintf_def fmt)
  next
    case 3
    with fmt show ?thesis by (simp add: vsnprintf_def)
  qed
qed

lemma vsprintf_exact:
  assumes "mapped m str (Suc (length t))" "t = tfp m fmt ap"
  shows "vsprintf tfp m str fmt ap = Some (to_int (int (length t)), store m str (t @ [0]))"
proof -
  let ?d0 = "\<lparr> s_dest = str, s_used = 0 \<rparr>"
  have "vsprintf_rep m str (?d0, m) []" by (simp add: vsprintf_rep_def)
  moreover have "mapped m str (length t)" using assms(1) by (auto intro: mapped_mono)
  ultimately have fmt: "tfp_format tfp (?d0, m) vsprintf_putcf m fmt ap =
      Next (\<lparr> s_dest = str, s_used = length t \<rparr>, store m str t)"
    using vsprintf.tfp_format_rep[of m str "(?d0, m)" tfp m fmt ap] assms(2)
    by (auto simp: vsprintf_rep_def)
  have "store m str t (str + length t) \<noteq> None"
    using mappedD[OF assms(1), of "length t"] by (intro store_mapped_at) auto
  then show ?thesis by (simp add: vsprintf_def fmt store_snoc)
qed

section \<open>Properties\<close>

text \<open>C10. \<open>vsnprintf\<close> never writes outside the \<open>sz\<close> bytes it is given, whatever the text: it leaves
  the longest prefix of the text that fits, followed by a NUL (nothing when \<open>sz\<close> is 0), which is a C string
  when the text has no NUL. It returns the length of the whole text as an \<open>int\<close>; for texts
  shorter than 2^31 that is the length itself, so the text was cut exactly when the result is at least
  \<open>sz\<close>, and for longer ones it wraps around.\<close>

theorem vsnprintf_truncates:
  assumes "mapped m str sz"
  shows "\<exists>r m'. vsnprintf tfp m str sz fmt ap = Some (r, m') \<and>
    snprintf tfp m str sz fmt ap = vsnprintf tfp m str sz fmt ap \<and>
    r = to_int (int (length (tfp m fmt ap))) \<and>
    (length (tfp m fmt ap) < 2 ^ 31 \<longrightarrow> r = int (length (tfp m fmt ap))) \<and>
    (sz > 0 \<longrightarrow> load m' str (Suc (length (take (sz - 1) (tfp m fmt ap)))) = Some (take (sz - 1) (tfp m fmt ap) @ [0])) \<and>
    (sz > 0 \<and> 0 \<notin> set (tfp m fmt ap) \<longrightarrow> cstr m' str (take (sz - 1) (tfp m fmt ap))) \<and>
    (\<forall>a. a < str \<or> str + sz \<le> a \<longrightarrow> m' a = m a)"
proof -
  define t where "t = tfp m fmt ap"
  define u where "u = take (sz - 1) t"
  define m' where "m' = (if sz = 0 then m else store m str (u @ [0]))"
  have "vsnprintf tfp m str sz fmt ap = Some (to_int (int (length t)), m')"
    using vsnprintf_exact[where t = t and tfp = tfp and fmt = fmt and ap = ap, OF assms t_def] by (auto simp: m'_def u_def)
  moreover have "length t < 2 ^ 31 \<longrightarrow> to_int (int (length t)) = int (length t)" by (auto intro!: to_int_id)
  moreover have "sz > 0 \<longrightarrow> load m' str (Suc (length u)) = Some (u @ [0])"
    using load_store_same[of m str "u @ [0]"] by (simp add: m'_def)
  moreover have "sz > 0 \<and> 0 \<notin> set t \<longrightarrow> cstr m' str u"
    by (auto simp: m'_def u_def intro!: cstr_store_same dest: in_set_takeD)
  moreover have "\<forall>a. a < str \<or> str + sz \<le> a \<longrightarrow> m' a = m a"
    by (auto simp: m'_def u_def store_outside)
  ultimately show ?thesis unfolding t_def[symmetric] u_def[symmetric]
    by (intro exI[of _ "to_int (int (length t))"] exI[of _ m']) (simp add: snprintf_def del: load.simps)
qed

theorem vsnprintf_truncates_witness:
  "\<exists>m'. vsnprintf (\<lambda>m f a. f) (bytes_at 8 [1, 1, 1]) 8 3 (lit ''abcd'') [] = Some (4, m') \<and> cstr m' 8 (lit ''ab'')"
proof -
  have "load (bytes_at 8 [1, 1, 1]) 8 3 = Some [1, 1, 1]" by code_simp
  then have "mapped (bytes_at 8 [1, 1, 1]) 8 3" by (auto simp: mapped_iff_load)
  then show ?thesis
    using vsnprintf_truncates[of "bytes_at 8 [1, 1, 1]" 8 3 "\<lambda>m f a. f" "lit ''abcd''" "[]"]
    by (auto simp del: cstr.simps load.simps)
qed

text \<open>\<open>vsprintf\<close> writes the whole text with its terminator and nothing else, and returns its
  length. On a buffer large enough for the text it leaves the same memory as \<open>vsnprintf\<close>.\<close>

theorem vsprintf_is_vsnprintf:
  assumes "mapped m str sz" "length (tfp m fmt ap) < sz" "0 \<notin> set (tfp m fmt ap)"
  shows "\<exists>m'. vsprintf tfp m str fmt ap = Some (to_int (int (length (tfp m fmt ap))), m') \<and>
    cstr m' str (tfp m fmt ap) \<and> vsprintf tfp m str fmt ap = vsnprintf tfp m str sz fmt ap \<and>
    sprintf tfp m str fmt ap = vsprintf tfp m str fmt ap"
proof -
  have "mapped m str (Suc (length (tfp m fmt ap)))" using assms(1,2) by (auto intro: mapped_mono)
  from vsprintf_exact[of m str "tfp m fmt ap" tfp fmt ap] vsnprintf_exact[of m str sz "tfp m fmt ap" tfp fmt ap] assms(1,2) this
  show ?thesis by (simp add: sprintf_def cstr_store_same[OF assms(3)])
qed

theorem vsprintf_is_vsnprintf_witness:
  "\<exists>m'. vsprintf (\<lambda>m f a. f) (bytes_at 8 [1, 1, 1]) 8 (lit ''ab'') [] = Some (2, m') \<and> cstr m' 8 (lit ''ab'')"
proof -
  have "load (bytes_at 8 [1, 1, 1]) 8 3 = Some [1, 1, 1]" by code_simp
  then have "mapped (bytes_at 8 [1, 1, 1]) 8 3" by (auto simp: mapped_iff_load)
  then show ?thesis
    using vsprintf_is_vsnprintf[of "bytes_at 8 [1, 1, 1]" 8 3 "\<lambda>m f a. f" "lit ''ab''" "[]"]
    by (auto simp del: cstr.simps)
qed

text \<open>C8. \<open>vfprintf\<close> passes exactly the formatted text to the stream's writer, in blocks of 64
  characters and a last shorter one, whatever the writer returns; it returns the sum of the
  positive counts, and never reaches the \<open>abort\<close> in its callback. An unusable stream gives -1.\<close>

theorem vfprintf_blocks:
  "vfprintf tfp m stream fmt ap w =
     (case stream_write stream of
        None \<Rightarrow> Returns (-1) w
      | Some wrt \<Rightarrow> (let (n, w') = write_blocks wrt (chunks 64 (tfp m fmt ap)) w 0 in
                     Returns (to_int (int n)) w'))"
  by (rule vfprintf_exact)

end
