(* ===== verification/Stdlib.thy ===== *)
theory Stdlib
  imports Stdio
begin

text \<open>
  \<open>c/assert.c\<close>, \<open>c/unistd.c\<close> and the process functions of \<open>c/stdlib.c\<close>: \<open>exit\<close>, \<open>abort\<close>,
  \<open>sleep\<close> and \<open>usleep\<close>, the assertion functions and \<open>write\<close>. The hook of \<open>exit\<close> normally does
  not return; when it does, the code complains and loops for ever.
\<close>

section \<open>Process functions\<close>

definition exit_failed_format :: "u8 list" where
  "exit_failed_format = lit ''exit() failed!!! Infinite loop...'' @ [10]"

text \<open>The result type is that of the caller: no value is ever returned.\<close>

definition exit' :: "formatter \<Rightarrow> 'w nnlc_internal_data \<Rightarrow> mem \<Rightarrow> int \<Rightarrow> 'w \<Rightarrow> ('a, 'w) outcome" where
  "exit' tfp d m status w =
     (case sysdeps d of
        None \<Rightarrow> Faults
      | Some sd \<Rightarrow>
          (let (left, w) = sys_exit sd status w in
           if left then Exits status w
           else andthen (fprintf tfp m (Some (libc_stderr d)) exit_failed_format [] w) (\<lambda>_ w. Hangs w)))"

definition abort :: "formatter \<Rightarrow> 'w nnlc_internal_data \<Rightarrow> mem \<Rightarrow> 'w \<Rightarrow> ('a, 'w) outcome" where
  "abort tfp d m w = exit' tfp d m (-1) w"

text \<open>\<open>unsigned int\<close> arguments and results are 32-bit words.\<close>

definition sleep :: "'w nnlc_internal_data \<Rightarrow> u32 \<Rightarrow> 'w \<Rightarrow> (u32 \<times> 'w) option" where
  "sleep d seconds w =
     (case sysdeps d of
        None \<Rightarrow> None
      | Some sd \<Rightarrow> (let (r, w') = sys_usleep sd (ucast seconds * 1000000) w in Some (ucast r, w')))"

definition usleep :: "'w nnlc_internal_data \<Rightarrow> u32 \<Rightarrow> 'w \<Rightarrow> (u32 \<times> 'w) option" where
  "usleep d useconds w =
     (case sysdeps d of
        None \<Rightarrow> None
      | Some sd \<Rightarrow> (let (r, w') = sys_usleep sd (ucast useconds) w in Some (ucast r, w')))"

section \<open>Assertions\<close>

definition assert_format :: "u8 list" where
  "assert_format = lit ''Assertion '' @ [39] @ lit ''%s'' @ [39] @ lit '' failed in %s (%s:%d)'' @ [10]"

definition nnlc_assert ::
  "formatter \<Rightarrow> 'w nnlc_internal_data \<Rightarrow> mem \<Rightarrow> int \<Rightarrow> ptr \<Rightarrow> ptr \<Rightarrow> int \<Rightarrow> ptr \<Rightarrow> 'w \<Rightarrow> (unit, 'w) outcome" where
  "nnlc_assert tfp d m val expr fname line funcname w =
     (if val \<noteq> 0 then Returns () w
      else andthen (fprintf tfp m (Some (libc_stderr d)) assert_format [va_ptr expr, va_ptr funcname, va_ptr fname, va_int line] w)
             (\<lambda>_ w. abort tfp d m w))"

text \<open>The macro \<open>assert\<close> converts its expression to \<open>int\<close>. The strings and the line are the arguments \<open>here\<close>.\<close>

definition assert_macro ::
  "formatter \<Rightarrow> 'w nnlc_internal_data \<Rightarrow> mem \<Rightarrow> ptr \<times> ptr \<times> int \<times> ptr \<Rightarrow> int \<Rightarrow> 'w \<Rightarrow> (unit, 'w) outcome" where
  "assert_macro tfp d m here val w =
     (let v_assert_val = to_int val; (expr, fname, line, funcname) = here in
      nnlc_assert tfp d m v_assert_val expr fname line funcname w)"

text \<open>\<open>msg\<close> is the address of the literal \<open>"Assertion failed!\n"\<close>.\<close>

definition nanolibc_default_assert ::
  "formatter \<Rightarrow> 'w nnlc_internal_data \<Rightarrow> mem \<Rightarrow> ptr \<Rightarrow> int \<Rightarrow> 'w \<Rightarrow> (unit, 'w) outcome" where
  "nanolibc_default_assert tfp d m msg val w =
     (if val \<noteq> 0 then Returns () w
      else andthen (fputs m msg (Some (libc_stderr d)) w) (\<lambda>_ w. abort tfp d m w))"

section \<open>\<open>write\<close>\<close>

definition write_fd ::
  "formatter \<Rightarrow> 'w nnlc_internal_data \<Rightarrow> mem \<Rightarrow> ptr \<times> ptr \<times> int \<times> ptr \<Rightarrow> int \<Rightarrow> ptr \<Rightarrow> nat \<Rightarrow> 'w
    \<Rightarrow> (nat, 'w) outcome" where
  "write_fd tfp d m here fd buf count w =
     (andthen (assert_macro tfp d m here (of_bool (fd = 1 \<or> fd = 2)) w)
        (\<lambda>_ w. fwrite m buf 1 count (Some (if fd = 1 then libc_stdout d else libc_stderr d)) w))"

section \<open>Lemmas\<close>

lemma exit_not_returns: "exit' tfp d m status w \<noteq> Returns a w'"
  by (auto simp: exit'_def andthen_Returns_iff split: option.splits prod.splits if_splits)

lemma abort_not_returns: "abort tfp d m w \<noteq> Returns a w'"
  by (simp add: abort_def exit_not_returns)

lemma nnlc_assert_Returns_iff:
  "nnlc_assert tfp d m val e f l fn w = Returns u w' \<longleftrightarrow> val \<noteq> 0 \<and> w' = w"
  by (auto simp: nnlc_assert_def andthen_Returns_iff abort_not_returns)

lemma to_int_eq_0: "to_int i = 0 \<longleftrightarrow> 2 ^ 32 dvd i"
proof -
  have "to_int i = 0 \<longleftrightarrow> (word_of_int i :: u32) = 0"
    unfolding to_int_def using signed_word_eqI[of "word_of_int i :: u32" 0] by auto
  then show ?thesis by (simp add: word_of_int_eq_0_iff)
qed

text \<open>So an assertion of a 64-bit value, say of a pointer, also fails on the values whose low half is zero.\<close>

lemma assert_macro_Returns_iff:
  "assert_macro tfp d m here val w = Returns u w' \<longleftrightarrow> \<not> 2 ^ 32 dvd val \<and> w' = w"
  by (simp add: assert_macro_def nnlc_assert_Returns_iff to_int_eq_0 split: prod.splits)

lemma assert_macro_bool: "assert_macro tfp d m (e, f, l, fn) (of_bool b) w = nnlc_assert tfp d m (of_bool b) e f l fn w"
  by (simp add: assert_macro_def)

lemma default_assert_Returns_iff:
  "nanolibc_default_assert tfp d m msg val w = Returns u w' \<longleftrightarrow> val \<noteq> 0 \<and> w' = w"
  by (auto simp: nanolibc_default_assert_def andthen_Returns_iff abort_not_returns)

lemma fprintf_Returns:
  "\<exists>r w'. fprintf tfp m stream fmt args w = Returns r w'"
  unfolding fprintf_def vfprintf_exact
  by (auto split: option.splits prod.splits)

section \<open>Properties\<close>

text \<open>A failed assertion stops the program and a true one has no effect: \<open>assert\<close> returns exactly
  when its value is not 0; otherwise, when the runtime's exit does not return, the process exits
  with status -1 after one message on \<open>stderr\<close>.\<close>

theorem assert_stops:
  "(nnlc_assert tfp d m val e f l fn w = Returns () w' \<longleftrightarrow> val \<noteq> 0 \<and> w' = w) \<and>
   (\<exists>r w1. fprintf tfp m (Some (libc_stderr d)) assert_format [va_ptr e, va_ptr fn, va_ptr f, va_int l] w = Returns r w1 \<and>
      nnlc_assert tfp d m 0 e f l fn w =
        (case sysdeps d of None \<Rightarrow> Faults | Some sd \<Rightarrow>
           (let (left, w2) = sys_exit sd (-1) w1 in
            if left then Exits (-1) w2
            else andthen (fprintf tfp m (Some (libc_stderr d)) exit_failed_format [] w2) (\<lambda>_ w. Hangs w))))"
proof
  obtain r w1 where "fprintf tfp m (Some (libc_stderr d)) assert_format [va_ptr e, va_ptr fn, va_ptr f, va_int l] w = Returns r w1"
    using fprintf_Returns by metis
  then show "\<exists>r w1. fprintf tfp m (Some (libc_stderr d)) assert_format [va_ptr e, va_ptr fn, va_ptr f, va_int l] w = Returns r w1 \<and>
      nnlc_assert tfp d m 0 e f l fn w =
        (case sysdeps d of None \<Rightarrow> Faults | Some sd \<Rightarrow>
           (let (left, w2) = sys_exit sd (-1) w1 in
            if left then Exits (-1) w2
            else andthen (fprintf tfp m (Some (libc_stderr d)) exit_failed_format [] w2) (\<lambda>_ w. Hangs w)))"
    by (simp add: nnlc_assert_def abort_def exit'_def)
qed (simp add: nnlc_assert_Returns_iff)

end
