(* ===== verification/Byte_Order.thy ===== *)
theory Byte_Order
  imports Prelude
begin

text \<open>
  Words in memory, and the byte order conversions of \<open>c/include/endian.h\<close>, \<open>c/include/byteswap.h\<close> and
  \<open>c/include/netinet/in.h\<close> on the little-endian target. The swaps are compiler builtins, modelled as
  what they are documented to do: reverse the bytes of a word.
\<close>

section \<open>Words in memory\<close>

fun to_le :: "nat \<Rightarrow> nat \<Rightarrow> u8 list" where
  "to_le 0 n = []"
| "to_le (Suc k) n = word_of_nat (n mod 256) # to_le k (n div 256)"

fun of_le :: "u8 list \<Rightarrow> nat" where
  "of_le [] = 0"
| "of_le (b # bs) = unat b + 256 * of_le bs"

lemma length_to_le [simp]: "length (to_le k n) = k"
  by (induction k arbitrary: n) auto

lemma of_le_to_le: "of_le (to_le k n) = n mod 256 ^ k"
proof (induction k arbitrary: n)
  case (Suc k)
  have "unat (word_of_nat (n mod 256) :: u8) = n mod 256"
    by (simp add: unat_of_nat)
  then show ?case using mod_mult2_eq[of n 256 "256 ^ k"] Suc by simp
qed simp

definition load_u64 :: "mem \<Rightarrow> ptr \<Rightarrow> u64 option" where
  "load_u64 m p = do { bs \<leftarrow> load m p 8; Some (word_of_nat (of_le bs)) }"

fun wr_bytes :: "mem \<Rightarrow> ptr \<Rightarrow> u8 list \<Rightarrow> mem option" where
  "wr_bytes m p [] = Some m"
| "wr_bytes m p (b # bs) = do { m' \<leftarrow> wr m p b; wr_bytes m' (Suc p) bs }"

definition store_u64 :: "mem \<Rightarrow> ptr \<Rightarrow> u64 \<Rightarrow> mem option" where
  "store_u64 m p v = wr_bytes m p (to_le 8 (unat v))"

lemma wr_bytes_exact: "mapped m p (length bs) \<Longrightarrow> wr_bytes m p bs = Some (store m p bs)"
proof (induction bs arbitrary: m p)
  case (Cons b bs)
  then have "m p \<noteq> None" "mapped (m(p \<mapsto> b)) (Suc p) (length bs)"
    by (auto simp: mapped_Suc)
  with Cons.IH[OF this(2)] show ?case by (simp add: store_Cons del: fun_upd_apply)
qed simp

lemma store_u64_exact: "mapped m p 8 \<Longrightarrow> store_u64 m p v = Some (store m p (to_le 8 (unat v)))"
  by (simp add: store_u64_def wr_bytes_exact)

lemma of_le_word: "(word_of_nat (of_le (to_le 8 (unat v))) :: u64) = v"
proof -
  have "unat v < 256 ^ 8" using unsigned_less[of v, where 'a = nat] by simp
  then show ?thesis by (simp add: of_le_to_le)
qed

lemma load_u64_exact: "load m p 8 = Some (to_le 8 (unat v)) \<Longrightarrow> load_u64 m p = Some v"
  by (simp add: load_u64_def of_le_word)

section \<open>Byte order\<close>

lemma of_le_bound: "of_le bs < 256 ^ length bs"
proof (induction bs)
  case (Cons b bs)
  have "unat b < 256" using unsigned_less[of b, where 'a = nat] by simp
  then have "unat b + 256 * of_le bs < 256 * Suc (of_le bs)" by simp
  also have "\<dots> \<le> 256 * 256 ^ length bs" using Cons.IH by (intro mult_le_mono2) simp
  finally show ?case by simp
qed simp

lemma to_le_of_le [simp]: "to_le (length bs) (of_le bs) = bs"
proof (induction bs)
  case (Cons b bs)
  have "unat b < 256" using unsigned_less[of b, where 'a = nat] by simp
  then have "(unat b + 256 * of_le bs) mod 256 = unat b" "(unat b + 256 * of_le bs) div 256 = of_le bs" by simp_all
  then show ?case using Cons.IH by simp
qed simp

definition bswap_16 :: "u16 \<Rightarrow> u16" where
  "bswap_16 x = word_of_nat (of_le (rev (to_le 2 (unat x))))"

definition bswap_32 :: "u32 \<Rightarrow> u32" where
  "bswap_32 x = word_of_nat (of_le (rev (to_le 4 (unat x))))"

definition bswap_64 :: "u64 \<Rightarrow> u64" where
  "bswap_64 x = word_of_nat (of_le (rev (to_le 8 (unat x))))"

definition htobe64 :: "u64 \<Rightarrow> u64" where "htobe64 x = bswap_64 x"
definition htole64 :: "u64 \<Rightarrow> u64" where "htole64 x = x"
definition be64toh :: "u64 \<Rightarrow> u64" where "be64toh x = bswap_64 x"
definition le64toh :: "u64 \<Rightarrow> u64" where "le64toh x = x"
definition htobe32 :: "u32 \<Rightarrow> u32" where "htobe32 x = bswap_32 x"
definition htole32 :: "u32 \<Rightarrow> u32" where "htole32 x = x"
definition be32toh :: "u32 \<Rightarrow> u32" where "be32toh x = bswap_32 x"
definition le32toh :: "u32 \<Rightarrow> u32" where "le32toh x = x"
definition htobe16 :: "u16 \<Rightarrow> u16" where "htobe16 x = bswap_16 x"
definition htole16 :: "u16 \<Rightarrow> u16" where "htole16 x = x"
definition be16toh :: "u16 \<Rightarrow> u16" where "be16toh x = bswap_16 x"
definition le16toh :: "u16 \<Rightarrow> u16" where "le16toh x = x"

definition ntohl :: "u32 \<Rightarrow> u32" where "ntohl x = be32toh x"
definition htonl :: "u32 \<Rightarrow> u32" where "htonl x = htobe32 x"

text \<open>The same names on a big-endian target.\<close>

definition htobe64_big :: "u64 \<Rightarrow> u64" where "htobe64_big x = x"
definition htole64_big :: "u64 \<Rightarrow> u64" where "htole64_big x = bswap_64 x"
definition be64toh_big :: "u64 \<Rightarrow> u64" where "be64toh_big x = x"
definition le64toh_big :: "u64 \<Rightarrow> u64" where "le64toh_big x = bswap_64 x"
definition htobe32_big :: "u32 \<Rightarrow> u32" where "htobe32_big x = x"
definition htole32_big :: "u32 \<Rightarrow> u32" where "htole32_big x = bswap_32 x"
definition be32toh_big :: "u32 \<Rightarrow> u32" where "be32toh_big x = x"
definition le32toh_big :: "u32 \<Rightarrow> u32" where "le32toh_big x = bswap_32 x"
definition htobe16_big :: "u16 \<Rightarrow> u16" where "htobe16_big x = x"
definition htole16_big :: "u16 \<Rightarrow> u16" where "htole16_big x = bswap_16 x"
definition be16toh_big :: "u16 \<Rightarrow> u16" where "be16toh_big x = x"
definition le16toh_big :: "u16 \<Rightarrow> u16" where "le16toh_big x = bswap_16 x"

lemmas big_endian_defs =
  htobe64_big_def htole64_big_def be64toh_big_def le64toh_big_def htobe32_big_def htole32_big_def be32toh_big_def
  le32toh_big_def htobe16_big_def htole16_big_def be16toh_big_def le16toh_big_def

lemmas byte_order_defs =
  htobe64_def htole64_def be64toh_def le64toh_def htobe32_def htole32_def be32toh_def le32toh_def
  htobe16_def htole16_def be16toh_def le16toh_def ntohl_def htonl_def

text \<open>The bytes of a swapped word are those of the word, reversed.\<close>

lemma swapped_bytes:
  assumes "LENGTH('a) = 8 * k"
  shows "to_le k (unat (word_of_nat (of_le (rev (to_le k n))) :: 'a::len word)) = rev (to_le k n)"
proof -
  have "of_le (rev (to_le k n)) < 256 ^ k" using of_le_bound[of "rev (to_le k n)"] by simp
  moreover have "(256 :: nat) ^ k = 2 ^ LENGTH('a)" using assms by (simp add: power_mult)
  ultimately have "unat (word_of_nat (of_le (rev (to_le k n))) :: 'a word) = of_le (rev (to_le k n))"
    by (simp add: unat_of_nat)
  then show ?thesis using to_le_of_le[of "rev (to_le k n)"] by simp
qed

lemma bswap_bytes:
  "to_le 2 (unat (bswap_16 a)) = rev (to_le 2 (unat a))"
  "to_le 4 (unat (bswap_32 b)) = rev (to_le 4 (unat b))"
  "to_le 8 (unat (bswap_64 c)) = rev (to_le 8 (unat c))"
  unfolding bswap_16_def bswap_32_def bswap_64_def by (rule swapped_bytes, simp)+

lemma word_of_bytes:
  assumes "LENGTH('a) = 8 * k"
  shows "(word_of_nat (of_le (to_le k (unat x))) :: 'a::len word) = x"
proof -
  have "(256 :: nat) ^ k = 2 ^ LENGTH('a)" using assms by (simp add: power_mult)
  then have "of_le (to_le k (unat x)) = unat x"
    using unsigned_less[of x, where 'a = nat] by (simp add: of_le_to_le)
  then show ?thesis by simp
qed

lemma bswap_bswap: "bswap_16 (bswap_16 a) = a" "bswap_32 (bswap_32 b) = b" "bswap_64 (bswap_64 c) = c"
  using word_of_bytes[where 'a = 16, of 2 a] word_of_bytes[where 'a = 32, of 4 b] word_of_bytes[where 'a = 64, of 8 c]
  by (simp_all add: bswap_16_def[of "bswap_16 a"] bswap_32_def[of "bswap_32 b"] bswap_64_def[of "bswap_64 c"]
      bswap_bytes)

text \<open>The number that bytes denote with the most significant one first.\<close>

definition of_be :: "u8 list \<Rightarrow> nat" where
  "of_be bs = foldl (\<lambda>n b. 256 * n + unat b) 0 bs"

lemma of_be_rev: "of_be (rev bs) = of_le bs"
  by (induction bs) (simp_all add: of_be_def)

text \<open>The byte order conversions keep the value and put the bytes in order: what \<open>htobe\<close> gives is in
  memory the number most significant byte first, what \<open>htole\<close> gives the number least significant
  byte first, and the conversions back to the host undo them at every width, as do \<open>ntohl\<close> and \<open>htonl\<close>.\<close>

theorem byte_order_roundtrip:
  "(of_be (to_le 2 (unat (htobe16 a))) = unat a \<and> of_be (to_le 4 (unat (htobe32 b))) = unat b \<and>
    of_be (to_le 8 (unat (htobe64 c))) = unat c) \<and>
   (of_le (to_le 2 (unat (htole16 a))) = unat a \<and> of_le (to_le 4 (unat (htole32 b))) = unat b \<and>
    of_le (to_le 8 (unat (htole64 c))) = unat c) \<and>
   (be16toh (htobe16 a) = a \<and> be32toh (htobe32 b) = b \<and> be64toh (htobe64 c) = c) \<and>
   (le16toh (htole16 a) = a \<and> le32toh (htole32 b) = b \<and> le64toh (htole64 c) = c) \<and>
   ntohl (htonl b) = b"
  using unsigned_less[of a, where 'a = nat] unsigned_less[of b, where 'a = nat] unsigned_less[of c, where 'a = nat]
  by (simp add: byte_order_defs bswap_bytes bswap_bswap of_be_rev of_le_to_le)

text \<open>The header keeps its promises on both kinds of target: on a big-endian one, whose words lie in memory
  most significant byte first, \<open>htobe\<close> and \<open>htole\<close> give the same bytes in memory as on a
  little-endian one.\<close>

theorem endian_targets_agree:
  "rev (to_le 2 (unat (htobe16_big a))) = to_le 2 (unat (htobe16 a)) \<and>
   rev (to_le 4 (unat (htobe32_big b))) = to_le 4 (unat (htobe32 b)) \<and>
   rev (to_le 8 (unat (htobe64_big c))) = to_le 8 (unat (htobe64 c)) \<and>
   rev (to_le 2 (unat (htole16_big a))) = to_le 2 (unat (htole16 a)) \<and>
   rev (to_le 4 (unat (htole32_big b))) = to_le 4 (unat (htole32 b)) \<and>
   rev (to_le 8 (unat (htole64_big c))) = to_le 8 (unat (htole64 c)) \<and>
   be16toh_big (htobe16_big a) = a \<and> be32toh_big (htobe32_big b) = b \<and> be64toh_big (htobe64_big c) = c \<and>
   le16toh_big (htole16_big a) = a \<and> le32toh_big (htole32_big b) = b \<and> le64toh_big (htole64_big c) = c"
  by (simp add: byte_order_defs big_endian_defs bswap_bytes bswap_bswap)

end
