(* ===== verification/Malloc.thy ===== *)
theory Malloc
  imports Libc CString Byte_Order
begin

text \<open>
  \<open>c/malloc.c\<close>, and \<open>strdup\<close> and \<open>strndup\<close> of \<open>c/string.c\<close>. An allocation is a block of the
  runtime's allocator with, at the first aligned address that leaves room for it, a header that
  holds the runtime's pointer and the size asked for; the program's pointer is just after the
  header. Both fields are kept in memory, little endian, as the target does. Sizes and addresses
  are 64-bit words in the arithmetic, so that the sum of the size and the header wraps around.

  The allocator of the runtime is not part of the repository: what the code relies on is the
  predicate \<open>runtime_heap\<close>.
\<close>

section \<open>The allocator\<close>

definition NNLC_MALLOC_ALIGNMENT :: u64 where "NNLC_MALLOC_ALIGNMENT = 16"

definition NNLC_ALIGNMENT_MASK :: u64 where "NNLC_ALIGNMENT_MASK = NNLC_MALLOC_ALIGNMENT - 1"

text \<open>\<open>sizeof(struct malloc_block)\<close>: a pointer and a size; \<open>data\<close> has no size.\<close>

definition sizeof_malloc_block :: u64 where "sizeof_malloc_block = 16"

text \<open>The code computes it in \<open>intptr_t\<close>, with the same bits wherever that does not overflow.\<close>

definition pad_for_alignment :: "u64 \<Rightarrow> u64" where
  "pad_for_alignment requested_size = requested_size + NNLC_MALLOC_ALIGNMENT - 1"

definition align_after :: "ptr \<Rightarrow> u64 \<Rightarrow> ptr" where
  "align_after mem reserved_space =
     (let p = word_of_nat mem + reserved_space in unat (pad_for_alignment p AND NOT NNLC_ALIGNMENT_MASK))"

definition get_malloc_block :: "ptr \<Rightarrow> ptr" where
  "get_malloc_block p = p - unat sizeof_malloc_block"

text \<open>The fields of the header at address \<open>b\<close>: \<open>mem\<close> at offset 0, \<open>nbytes\<close> at offset 8.\<close>

definition malloc :: "'w nnlc_internal_data \<Rightarrow> u64 \<Rightarrow> mem \<Rightarrow> 'w \<Rightarrow> (ptr \<times> mem \<times> 'w) option" where
  "malloc d sz m w =
     (let mem_size = pad_for_alignment sz + sizeof_malloc_block in
      if sz \<le> 0 then Some (NULL, m, w)
      else do {
        sd \<leftarrow> sysdeps d;
        let (mem, m, w) = sys_malloc sd mem_size m w;
        if mem = NULL then Some (NULL, m, w)
        else do {
          let p = align_after mem sizeof_malloc_block;
          let b = get_malloc_block p;
          m \<leftarrow> store_u64 m b (word_of_nat mem);
          m \<leftarrow> store_u64 m (b + 8) sz;
          Some (p, m, w) } })"

definition free :: "'w nnlc_internal_data \<Rightarrow> ptr \<Rightarrow> mem \<Rightarrow> 'w \<Rightarrow> (mem \<times> 'w) option" where
  "free d p m w =
     (if p = NULL then Some (m, w)
      else do {
        sd \<leftarrow> sysdeps d;
        mem \<leftarrow> load_u64 m (get_malloc_block p);
        Some (sys_free sd (unat mem) m w) })"

definition calloc :: "'w nnlc_internal_data \<Rightarrow> u64 \<Rightarrow> u64 \<Rightarrow> mem \<Rightarrow> 'w \<Rightarrow> (ptr \<times> mem \<times> 'w) option" where
  "calloc d num sz m w =
     (let len = num * sz in
      if sz = 0 \<or> num \<noteq> len div sz then Some (NULL, m, w)
      else do {
        (buf, m, w) \<leftarrow> malloc d len m w;
        (_, m) \<leftarrow> memset m buf 0 (unat len);
        Some (buf, m, w) })"

definition realloc :: "'w nnlc_internal_data \<Rightarrow> ptr \<Rightarrow> u64 \<Rightarrow> mem \<Rightarrow> 'w \<Rightarrow> (ptr \<times> mem \<times> 'w) option" where
  "realloc d p sz m w =
     (if p = NULL then malloc d sz m w
      else if sz \<le> 0 then do { (m, w) \<leftarrow> free d p m w; Some (NULL, m, w) }
      else do {
        prev_size \<leftarrow> load_u64 m (get_malloc_block p + 8);
        if sz \<le> prev_size then Some (p, m, w)
        else do {
          (new_ptr, m, w) \<leftarrow> malloc d sz m w;
          m \<leftarrow> (if new_ptr \<noteq> NULL then map_option snd (memcpy m new_ptr p (unat prev_size)) else Some m);
          (m, w) \<leftarrow> free d p m w;
          Some (new_ptr, m, w) } })"

definition strdup :: "'w nnlc_internal_data \<Rightarrow> ptr \<Rightarrow> mem \<Rightarrow> 'w \<Rightarrow> (ptr \<times> mem \<times> 'w) option" where
  "strdup d s m w = do {
     len \<leftarrow> strlen m s;
     (result, m, w) \<leftarrow> malloc d (word_of_nat len + 1) m w;
     if result \<noteq> NULL then do { (_, m) \<leftarrow> strcpy m result s; Some (result, m, w) }
     else Some (result, m, w) }"

definition strndup :: "'w nnlc_internal_data \<Rightarrow> ptr \<Rightarrow> nat \<Rightarrow> mem \<Rightarrow> 'w \<Rightarrow> (ptr \<times> mem \<times> 'w) option" where
  "strndup d s n m w = do {
     len \<leftarrow> strlen m s;
     let len = (if n < len then n else len);
     (result, m, w) \<leftarrow> malloc d (word_of_nat len + 1) m w;
     if result \<noteq> NULL then do {
       (_, m) \<leftarrow> memcpy m result s len;
       m \<leftarrow> wr m (result + len) 0;
       Some (result, m, w) }
     else Some (result, m, w) }"

section \<open>Alignment\<close>

lemma and_not_mask: "x AND NOT (mask n) = push_bit n (drop_bit n x)" for x :: "'a::len word"
  by (rule bit_eqI) (auto simp: bit_simps)

lemma align_after_exact:
  assumes "q + 31 < 2 ^ 64"
  shows "align_after q sizeof_malloc_block = (q + 31) div 16 * 16"
proof -
  have mask: "NNLC_ALIGNMENT_MASK = mask 4"
    by (simp add: NNLC_ALIGNMENT_MASK_def NNLC_MALLOC_ALIGNMENT_def mask_eq_exp_minus_1)
  have u: "unat (word_of_nat (q + 31) :: u64) = q + 31"
    using assms unfolding unsigned_of_nat by (simp add: take_bit_nat_eq_self)
  have "word_of_nat q + sizeof_malloc_block + NNLC_MALLOC_ALIGNMENT - 1 = (word_of_nat (q + 31) :: u64)"
    by (simp add: sizeof_malloc_block_def NNLC_MALLOC_ALIGNMENT_def)
  then have "align_after q sizeof_malloc_block = unat (push_bit 4 (drop_bit 4 (word_of_nat (q + 31) :: u64)))"
    unfolding align_after_def Let_def pad_for_alignment_def mask and_not_mask by (simp only:)
  also have "\<dots> = take_bit 64 ((q + 31) div 16 * 16)"
    unfolding unsigned_push_bit_eq unsigned_drop_bit_eq u
    using assms by (simp add: take_bit_nat_eq_self push_bit_eq_mult drop_bit_eq_div)
  also have "\<dots> = (q + 31) div 16 * 16"
    using assms by (simp add: take_bit_nat_eq_self)
  finally show ?thesis .
qed

lemma align_after_bounds:
  assumes "q + 31 < 2 ^ 64" "p = align_after q sizeof_malloc_block"
  shows "16 dvd p \<and> q + 16 \<le> p \<and> p \<le> q + 31"
  unfolding assms(2) align_after_exact[OF assms(1)] by presburger

section \<open>The runtime's allocator\<close>

text \<open>
  What \<open>malloc.c\<close> relies on. \<open>live\<close> is the set of blocks the runtime has handed out, address and
  size; \<open>rt\<close> relates the addresses that are mapped to the runtime's state. An allocation of a
  positive size returns \<open>NULL\<close> and changes nothing, or a block that was not mapped before, within
  the address space. Releasing a live block leaves the memory outside it alone.
\<close>

definition runtime_malloc_ok ::
  "('w \<Rightarrow> (ptr \<times> nat) set) \<Rightarrow> (ptr set \<Rightarrow> 'w \<Rightarrow> bool) \<Rightarrow> (u64 \<Rightarrow> mem \<Rightarrow> 'w \<Rightarrow> ptr \<times> mem \<times> 'w) \<Rightarrow> bool" where
  "runtime_malloc_ok live rt alloc \<longleftrightarrow> (\<forall>n m w q m' w'. n \<noteq> 0 \<longrightarrow> rt (dom m) w \<longrightarrow> alloc n m w = (q, m', w') \<longrightarrow>
     rt (dom m') w' \<and>
     (if q = NULL then m' = m \<and> live w' = live w
      else q + unat n \<le> 2 ^ 64 \<and> live w' = insert (q, unat n) (live w) \<and> mapped m' q (unat n) \<and>
        (\<forall>a. q \<le> a \<and> a < q + unat n \<longrightarrow> m a = None) \<and>
        (\<forall>a. a < q \<or> q + unat n \<le> a \<longrightarrow> m' a = m a)))"

definition runtime_free_ok ::
  "('w \<Rightarrow> (ptr \<times> nat) set) \<Rightarrow> (ptr set \<Rightarrow> 'w \<Rightarrow> bool) \<Rightarrow> (ptr \<Rightarrow> mem \<Rightarrow> 'w \<Rightarrow> mem \<times> 'w) \<Rightarrow> bool" where
  "runtime_free_ok live rt release \<longleftrightarrow> (\<forall>q n m w m' w'. (q, n) \<in> live w \<longrightarrow> rt (dom m) w \<longrightarrow> release q m w = (m', w') \<longrightarrow>
     rt (dom m') w' \<and> live w' = live w - {(q, n)} \<and> (\<forall>a. a < q \<or> q + n \<le> a \<longrightarrow> m' a = m a))"

definition runtime_heap ::
  "'w nnlc_internal_data \<Rightarrow> ('w \<Rightarrow> (ptr \<times> nat) set) \<Rightarrow> (ptr set \<Rightarrow> 'w \<Rightarrow> bool) \<Rightarrow> bool" where
  "runtime_heap d live rt \<longleftrightarrow> (case sysdeps d of None \<Rightarrow> False
     | Some sd \<Rightarrow> runtime_malloc_ok live rt (sys_malloc sd) \<and> runtime_free_ok live rt (sys_free sd))"

section \<open>The contract of the C heap\<close>

text \<open>
  What the clients of \<open>malloc\<close> and \<open>free\<close> rely on. \<open>block m w p n\<close>: \<open>p\<close> is the address of a live
  allocation of \<open>n\<close> bytes. The heap invariant \<open>inv\<close> survives every allocation and release, and
  every write into a live block.
\<close>

locale c_heap =
  fixes alloc :: "u64 \<Rightarrow> mem \<Rightarrow> 'w \<Rightarrow> (ptr \<times> mem \<times> 'w) option"
    and release :: "ptr \<Rightarrow> mem \<Rightarrow> 'w \<Rightarrow> (mem \<times> 'w) option"
    and inv :: "mem \<Rightarrow> 'w \<Rightarrow> bool"
    and block :: "mem \<Rightarrow> 'w \<Rightarrow> ptr \<Rightarrow> nat \<Rightarrow> bool"
  assumes alloc_block: "inv m w \<Longrightarrow> 0 < unat n \<Longrightarrow> unat n + 31 < 2 ^ 64 \<Longrightarrow>
      \<exists>p m' w'. alloc n m w = Some (p, m', w') \<and> inv m' w' \<and>
        (\<forall>a. m a \<noteq> None \<longrightarrow> m' a = m a) \<and> (\<forall>q k. block m w q k \<longrightarrow> block m' w' q k) \<and>
        (if p = NULL then m' = m
         else block m' w' p (unat n) \<and> 16 dvd p \<and> (\<forall>i < unat n. m (p + i) = None))"
    and release_block: "inv m w \<Longrightarrow> block m w p l \<Longrightarrow>
      \<exists>m' w'. release p m w = Some (m', w') \<and> inv m' w' \<and>
        (\<forall>q k. block m w q k \<longrightarrow> q \<noteq> p \<longrightarrow> block m' w' q k \<and> load m' q k = load m q k)"
    and block_mapped: "inv m w \<Longrightarrow> block m w p l \<Longrightarrow> mapped m p l \<and> p \<noteq> NULL \<and> p + l \<le> 2 ^ 64"
    and block_disjnt: "inv m w \<Longrightarrow> block m w p l \<Longrightarrow> block m w q k \<Longrightarrow> p \<noteq> q \<Longrightarrow> disjnt p l q k"
    and write_block: "inv m w \<Longrightarrow> block m w p l \<Longrightarrow> i + length bs \<le> l \<Longrightarrow>
      inv (store m (p + i) bs) w \<and> (\<forall>q k. block m w q k \<longrightarrow> block (store m (p + i) bs) w q k)"
begin

text \<open>A fresh block that is filled: its contents, and everything else as before.\<close>

lemma alloc_fill:
  assumes "inv m w" "0 < unat n" "unat n + 31 < 2 ^ 64" "alloc n m w = Some (p, m', w')" "p \<noteq> NULL"
    "length bs \<le> unat n"
  shows "inv (store m' p bs) w' \<and> block (store m' p bs) w' p (unat n) \<and> load (store m' p bs) p (length bs) = Some bs \<and>
    (\<forall>a. m a \<noteq> None \<longrightarrow> store m' p bs a = m a) \<and> (\<forall>q k. block m w q k \<longrightarrow> block (store m' p bs) w' q k)"
proof -
  have a: "inv m' w'" "\<forall>a. m a \<noteq> None \<longrightarrow> m' a = m a" "\<forall>q k. block m w q k \<longrightarrow> block m' w' q k"
    "block m' w' p (unat n)" "\<forall>i < unat n. m (p + i) = None"
    using alloc_block[OF assms(1-3)] assms(4,5) by (auto split: if_splits)
  have "store m' p bs a = m a" if "m a \<noteq> None" for a
  proof -
    have "\<not> (p \<le> a \<and> a < p + length bs)"
    proof
      assume *: "p \<le> a \<and> a < p + length bs"
      then have "a - p < unat n" using assms(6) by linarith
      with a(5) have "m (p + (a - p)) = None" by blast
      with * that show False by simp
    qed
    with a(2) that show ?thesis by (auto simp: store_def)
  qed
  moreover have "inv (store m' p bs) w' \<and> (\<forall>q k. block m' w' q k \<longrightarrow> block (store m' p bs) w' q k)"
    using write_block[OF a(1) a(4), of 0 bs] assms(6) by simp
  ultimately show ?thesis using a(3,4) load_store_same by blast
qed

lemma alloc_cstr:
  "inv m w \<Longrightarrow> 0 < unat n \<Longrightarrow> unat n + 31 < 2 ^ 64 \<Longrightarrow> alloc n m w = Some (p, m', w') \<Longrightarrow> cstr m s str \<Longrightarrow> cstr m' s str"
  using alloc_block[of m w n] by (auto simp: cstr_nth cstr_end le_eq_less_or_eq intro!: cstr_cong[of m])

end

section \<open>The allocator meets the contract\<close>

text \<open>An allocation as it lies in memory, in the runtime block of address \<open>q\<close> and size \<open>N\<close>.\<close>

definition malloc_block_at :: "mem \<Rightarrow> ptr \<Rightarrow> nat \<Rightarrow> ptr \<Rightarrow> nat \<Rightarrow> bool" where
  "malloc_block_at m q N p n \<longleftrightarrow>
     0 < q \<and> q + N \<le> 2 ^ 64 \<and> 0 < n \<and> N = n + 31 \<and> p = align_after q sizeof_malloc_block \<and>
     load m (p - 16) 8 = Some (to_le 8 q) \<and> load m (p - 8) 8 = Some (to_le 8 n)"

definition malloc_block :: "('w \<Rightarrow> (ptr \<times> nat) set) \<Rightarrow> mem \<Rightarrow> 'w \<Rightarrow> ptr \<Rightarrow> nat \<Rightarrow> bool" where
  "malloc_block live m w p n \<longleftrightarrow> (\<exists>q N. (q, N) \<in> live w \<and> malloc_block_at m q N p n)"

definition heap_inv ::
  "'w nnlc_internal_data \<Rightarrow> ('w \<Rightarrow> (ptr \<times> nat) set) \<Rightarrow> (ptr set \<Rightarrow> 'w \<Rightarrow> bool) \<Rightarrow> mem \<Rightarrow> 'w \<Rightarrow> bool" where
  "heap_inv d live rt m w \<longleftrightarrow> runtime_heap d live rt \<and> rt (dom m) w \<and>
     (\<forall>(q, N) \<in> live w. mapped m q N) \<and>
     (\<forall>(q, N) \<in> live w. \<forall>(q', N') \<in> live w. (q, N) \<noteq> (q', N') \<longrightarrow> disjnt q N q' N')"

lemma get_malloc_block_eq: "get_malloc_block p = p - 16"
  by (simp add: get_malloc_block_def sizeof_malloc_block_def)

lemma malloc_block_at_bounds:
  assumes "malloc_block_at m q N p n"
  shows "16 dvd p \<and> q + 16 \<le> p \<and> p + n \<le> q + N \<and> 0 < q \<and> q + N \<le> 2 ^ 64 \<and> 0 < n"
  using assms align_after_bounds[of q p] by (auto simp: malloc_block_at_def)

lemma malloc_block_at_unique:
  "malloc_block_at m q N p n \<Longrightarrow> malloc_block_at m q N p' n' \<Longrightarrow> p' = p \<and> n' = n"
  by (auto simp: malloc_block_at_def)

lemma malloc_block_at_cong:
  assumes "malloc_block_at m q N p n" "\<And>a. q \<le> a \<Longrightarrow> a < p \<Longrightarrow> m' a = m a"
  shows "malloc_block_at m' q N p n"
proof -
  note b = malloc_block_at_bounds[OF assms(1)]
  have "load m' (p - 16) 8 = load m (p - 16) 8" "load m' (p - 8) 8 = load m (p - 8) 8"
    using b by (auto intro!: load_cong assms(2))
  then show ?thesis using assms(1) unfolding malloc_block_at_def by metis
qed

lemma malloc_block_at_mono:
  assumes "malloc_block_at m q N p n" "\<And>a. m a \<noteq> None \<Longrightarrow> m' a = m a"
  shows "malloc_block_at m' q N p n"
proof -
  have "load m' x k = Some bs" if "load m x k = Some bs" for x k bs
    using that assms(2) by (auto simp: load_iff)
  then show ?thesis using assms(1) unfolding malloc_block_at_def by blast
qed

lemma disjnt_mapped:
  assumes "mapped m p n" "\<And>a. q \<le> a \<Longrightarrow> a < q + k \<Longrightarrow> m a = None"
  shows "disjnt p n q k"
proof (rule ccontr)
  assume "\<not> disjnt p n q k"
  then have x: "p \<le> max p q" "max p q < p + n" "q \<le> max p q" "max p q < q + k"
    by (auto simp: disjnt_def)
  from mapped_ptr_inside[OF assms(1) x(1,2)] assms(2)[OF x(3,4)] show False by contradiction
qed

lemma heap_inv_disjnt:
  "heap_inv d live rt m w \<Longrightarrow> (q, N) \<in> live w \<Longrightarrow> (q', N') \<in> live w \<Longrightarrow> (q, N) \<noteq> (q', N') \<Longrightarrow>
    disjnt q N q' N'"
  by (fastforce simp: heap_inv_def)

lemma heap_inv_mapped: "heap_inv d live rt m w \<Longrightarrow> (q, N) \<in> live w \<Longrightarrow> mapped m q N"
  by (auto simp: heap_inv_def)

lemma malloc_unfold:
  assumes "runtime_heap d live rt" "0 < unat n" "unat n + 31 < 2 ^ 64"
  shows "\<exists>sd q m1 w1. sysdeps d = Some sd \<and> sys_malloc sd (n + 31) m w = (q, m1, w1) \<and> unat (n + 31) = unat n + 31 \<and>
    runtime_malloc_ok live rt (sys_malloc sd) \<and> n + 31 \<noteq> 0 \<and>
    malloc d n m w = (if q = NULL then Some (NULL, m1, w1)
      else do {
        let p = align_after q sizeof_malloc_block;
        m \<leftarrow> store_u64 m1 (p - 16) (word_of_nat q);
        m \<leftarrow> store_u64 m (p - 16 + 8) n;
        Some (p, m, w1) })"
proof -
  obtain sd where sd: "sysdeps d = Some sd" "runtime_malloc_ok live rt (sys_malloc sd)"
    using assms(1) by (auto simp: runtime_heap_def split: option.splits)
  have n: "unat (n + 31) = unat n + 31"
    using assms(3) by (simp add: unat_plus_if')
  have "\<not> n \<le> 0" using assms(2) by auto
  have sz: "pad_for_alignment n + sizeof_malloc_block = n + 31"
    by (simp add: pad_for_alignment_def sizeof_malloc_block_def NNLC_MALLOC_ALIGNMENT_def)
  have "n + 31 \<noteq> 0" using n by (metis add_is_0 unsigned_0 zero_neq_numeral)
  with sd n \<open>\<not> n \<le> 0\<close> show ?thesis
    by (cases "sys_malloc sd (n + 31) m w")
      (auto simp: malloc_def sz get_malloc_block_eq Let_def)
qed

lemma malloc_contract:
  assumes inv: "heap_inv d live rt m w" and n: "0 < unat n" "unat n + 31 < 2 ^ 64"
  shows "\<exists>p m' w'. malloc d n m w = Some (p, m', w') \<and> heap_inv d live rt m' w' \<and>
    (\<forall>a. m a \<noteq> None \<longrightarrow> m' a = m a) \<and> (\<forall>q k. malloc_block live m w q k \<longrightarrow> malloc_block live m' w' q k) \<and>
    (if p = NULL then m' = m
     else malloc_block live m' w' p (unat n) \<and> 16 dvd p \<and> (\<forall>i < unat n. m (p + i) = None))"
proof -
  have rt: "runtime_heap d live rt" using inv by (simp add: heap_inv_def)
  obtain sd q m1 w1 where sd: "sysdeps d = Some sd" "sys_malloc sd (n + 31) m w = (q, m1, w1)"
    "unat (n + 31) = unat n + 31" "runtime_malloc_ok live rt (sys_malloc sd)" "n + 31 \<noteq> 0"
    and mal: "malloc d n m w = (if q = NULL then Some (NULL, m1, w1)
      else do {
        let p = align_after q sizeof_malloc_block;
        m \<leftarrow> store_u64 m1 (p - 16) (word_of_nat q);
        m \<leftarrow> store_u64 m (p - 16 + 8) n;
        Some (p, m, w1) })"
    using malloc_unfold[OF rt n, of m w] by auto
  define N where "N = unat n + 31"
  have rtd: "rt (dom m) w" using inv by (simp add: heap_inv_def)
  have ok: "rt (dom m1) w1 \<and> (if q = NULL then m1 = m \<and> live w1 = live w
      else q + N \<le> 2 ^ 64 \<and> live w1 = insert (q, N) (live w) \<and> mapped m1 q N \<and>
        (\<forall>a. q \<le> a \<and> a < q + N \<longrightarrow> m a = None) \<and> (\<forall>a. a < q \<or> q + N \<le> a \<longrightarrow> m1 a = m a))"
    using sd(4)[unfolded runtime_malloc_ok_def, rule_format, OF sd(5) rtd sd(2)] unfolding N_def sd(3) .
  show ?thesis
  proof (cases "q = NULL")
    case True
    with ok have "m1 = m" "live w1 = live w" "rt (dom m) w1" by auto
    then have "heap_inv d live rt m w1" "\<forall>q k. malloc_block live m w q k \<longrightarrow> malloc_block live m w1 q k"
      using inv by (auto simp: heap_inv_def malloc_block_def)
    with mal True \<open>m1 = m\<close> show ?thesis by auto
  next
    case False
    from ok have rt1: "rt (dom m1) w1" by blast
    from ok have ok: "q + N \<le> 2 ^ 64" "live w1 = insert (q, N) (live w)" "mapped m1 q N"
      "\<forall>a. q \<le> a \<and> a < q + N \<longrightarrow> m a = None" "\<forall>a. a < q \<or> q + N \<le> a \<longrightarrow> m1 a = m a"
      unfolding if_not_P[OF False] by blast+
    define p where "p = align_after q sizeof_malloc_block"
    have b: "16 dvd p" "q + 16 \<le> p" "p \<le> q + 31"
      using align_after_bounds[of q p] ok n by (auto simp: p_def N_def)
    define m2 where "m2 = store m1 (p - 16) (to_le 8 q)"
    define m3 where "m3 = store m2 (p - 8) (to_le 8 (unat n))"
    have qw: "unat (word_of_nat q :: u64) = q"
      using ok n unfolding unsigned_of_nat by (simp add: take_bit_nat_eq_self N_def)
    have mp1: "mapped m1 (p - 16) 8" using mapped_shift[of m1 q N "p - 16 - q" 8] ok b by (auto simp: N_def)
    have "mapped m1 (p - 8) 8" using mapped_shift[of m1 q N "p - 8 - q" 8] ok b by (auto simp: N_def)
    then have mp2: "mapped m2 (p - 8) 8" by (auto simp: m2_def)
    have p8: "p - 16 + 8 = p - 8" using b by simp
    have res: "malloc d n m w = Some (p, m3, w1)"
      using False mp2 store_u64_exact[OF mp1, of "word_of_nat q"]
      unfolding mal by (simp add: qw p8 store_u64_exact Let_def flip: p_def m2_def m3_def)
    have out: "m3 a = m a" if "a < q \<or> q + N \<le> a" for a
      using that ok b by (auto simp: m3_def m2_def store_def N_def)
    then have old: "m3 a = m a" if "m a \<noteq> None" for a
      using that ok by (cases "a < q \<or> q + N \<le> a") auto
    have blk: "malloc_block_at m3 q N p (unat n)"
    proof -
      have "load m3 (p - 8) 8 = Some (to_le 8 (unat n))"
        using load_store_same[of m2 "p - 8" "to_le 8 (unat n)"] by (simp add: m3_def)
      moreover have "load m3 (p - 16) 8 = load m2 (p - 16) 8"
        unfolding m3_def using b by (intro load_store_disjnt) (auto simp: disjnt_def)
      moreover have "load m2 (p - 16) 8 = Some (to_le 8 q)"
        using load_store_same[of m1 "p - 16" "to_le 8 q"] by (simp add: m2_def)
      ultimately show ?thesis using False ok n(1) by (auto simp: malloc_block_at_def p_def N_def)
    qed
    have "mapped m3 q N" using ok by (auto simp: m3_def m2_def)
    moreover have "mapped m3 q' N'" if "(q', N') \<in> live w" for q' N'
      using heap_inv_mapped[OF inv that] by (auto simp: mapped_def old)
    moreover have "disjnt q' N' q N" if "(q', N') \<in> live w" for q' N'
      using heap_inv_mapped[OF inv that] ok by (intro disjnt_mapped[of m]) auto
    moreover have "dom m3 = dom m1"
      using mp1 mp2 by (simp add: m3_def m2_def dom_store)
    ultimately have inv': "heap_inv d live rt m3 w1"
      using rt rt1 inv ok by (auto simp: heap_inv_def disjnt_sym)
    have "malloc_block live m3 w1 q' k" if k: "malloc_block live m w q' k" for q' k
    proof -
      obtain q0 N0 where "(q0, N0) \<in> live w" "malloc_block_at m q0 N0 q' k"
        using k by (auto simp: malloc_block_def)
      with malloc_block_at_mono[OF this(2) old] ok(2) show ?thesis by (auto simp: malloc_block_def)
    qed
    moreover have "malloc_block live m3 w1 p (unat n)"
      using blk ok by (auto simp: malloc_block_def)
    moreover have "m (p + i) = None" if "i < unat n" for i
      using that ok b by (auto simp: N_def)
    ultimately show ?thesis using res inv' old b by auto
  qed
qed

lemma free_exact:
  assumes inv: "heap_inv d live rt m w" and q: "(q, N) \<in> live w" "malloc_block_at m q N p n"
  shows "\<exists>m' w'. free d p m w = Some (m', w') \<and> live w' = live w - {(q, N)} \<and> heap_inv d live rt m' w' \<and>
    (\<forall>a. a < q \<or> q + N \<le> a \<longrightarrow> m' a = m a)"
proof -
  note b = malloc_block_at_bounds[OF q(2)]
  obtain sd where sd: "sysdeps d = Some sd" "runtime_free_ok live rt (sys_free sd)"
    using inv by (auto simp: heap_inv_def runtime_heap_def split: option.splits)
  obtain m' w' where fr: "sys_free sd q m w = (m', w')" by fastforce
  have "rt (dom m) w" using inv by (simp add: heap_inv_def)
  with fr have w': "live w' = live w - {(q, N)}" "\<And>a. a < q \<or> q + N \<le> a \<Longrightarrow> m' a = m a" "rt (dom m') w'"
    using sd(2) q(1) unfolding runtime_free_ok_def by blast+
  have qw: "unat (word_of_nat q :: u64) = q"
    using b unfolding unsigned_of_nat by (simp add: take_bit_nat_eq_self)
  have "load m (p - 16) 8 = Some (to_le 8 q)" using q(2) unfolding malloc_block_at_def by blast
  then have "load_u64 m (p - 16) = Some (word_of_nat q)"
    by (intro load_u64_exact) (simp only: qw)
  then have res: "free d p m w = Some (m', w')"
    using b sd(1) fr by (simp add: free_def get_malloc_block_eq qw)
  have "mapped m' q' N'" if "(q', N') \<in> live w'" for q' N'
  proof -
    have "(q', N') \<in> live w" "disjnt q' N' q N"
      using that w'(1) q(1) by (auto intro!: heap_inv_disjnt[OF inv])
    then show ?thesis
      using heap_inv_mapped[OF inv, of q' N'] w'(2) b by (auto simp: mapped_def disjnt_def)
  qed
  then have "heap_inv d live rt m' w'"
    using inv w'(1,3) by (auto simp: heap_inv_def)
  with res w' show ?thesis by blast
qed

lemma malloc_block_other:
  assumes "heap_inv d live rt m w" "(q, N) \<in> live w" "malloc_block_at m q N p n" "malloc_block live m w p' k" "p' \<noteq> p"
  shows "\<exists>q' N'. (q', N') \<in> live w - {(q, N)} \<and> malloc_block_at m q' N' p' k \<and> disjnt q' N' q N"
proof -
  obtain q' N' where q': "(q', N') \<in> live w" "malloc_block_at m q' N' p' k"
    using assms(4) by (auto simp: malloc_block_def)
  have "(q', N') \<noteq> (q, N)" using malloc_block_at_unique assms(3,5) q'(2) by blast
  with q' heap_inv_disjnt[OF assms(1)] assms(2) show ?thesis by blast
qed

lemma free_contract:
  assumes inv: "heap_inv d live rt m w" and blk: "malloc_block live m w p n"
  shows "\<exists>m' w'. free d p m w = Some (m', w') \<and> heap_inv d live rt m' w' \<and>
    (\<forall>q k. malloc_block live m w q k \<longrightarrow> q \<noteq> p \<longrightarrow> malloc_block live m' w' q k \<and> load m' q k = load m q k)"
proof -
  obtain q N where q: "(q, N) \<in> live w" "malloc_block_at m q N p n"
    using blk by (auto simp: malloc_block_def)
  obtain m' w' where w': "free d p m w = Some (m', w')" "live w' = live w - {(q, N)}" "heap_inv d live rt m' w'"
    "\<forall>a. a < q \<or> q + N \<le> a \<longrightarrow> m' a = m a"
    using free_exact[OF inv q] by blast
  have "malloc_block live m' w' p' k \<and> load m' p' k = load m p' k"
    if k: "malloc_block live m w p' k" "p' \<noteq> p" for p' k
  proof -
    obtain q' N' where q': "(q', N') \<in> live w'" "malloc_block_at m q' N' p' k" "disjnt q' N' q N"
      using malloc_block_other[OF inv q k] w'(2) by auto
    note b' = malloc_block_at_bounds[OF q'(2)]
    have keep: "m' a = m a" if "q' \<le> a" "a < q' + N'" for a
      using q'(3) w'(4) that by (auto simp: disjnt_def)
    have "malloc_block_at m' q' N' p' k"
      using b' by (intro malloc_block_at_cong[OF q'(2)] keep) auto
    moreover have "load m' p' k = load m p' k"
      using b' by (intro load_cong keep) auto
    ultimately show ?thesis using q'(1) by (auto simp: malloc_block_def)
  qed
  with w' show ?thesis by blast
qed

lemma write_contract:
  assumes inv: "heap_inv d live rt m w" and blk: "malloc_block live m w p n" and len: "i + length bs \<le> n"
  shows "heap_inv d live rt (store m (p + i) bs) w \<and>
    (\<forall>q k. malloc_block live m w q k \<longrightarrow> malloc_block live (store m (p + i) bs) w q k)"
proof (intro conjI allI impI)
  let ?m = "store m (p + i) bs"
  obtain q N where q: "(q, N) \<in> live w" "malloc_block_at m q N p n"
    using blk by (auto simp: malloc_block_def)
  note b = malloc_block_at_bounds[OF q(2)]
  have "mapped m (q + (p + i - q)) (length bs)"
    using b len by (intro mapped_shift[OF heap_inv_mapped[OF inv q(1)]]) auto
  then have "dom ?m = dom m" using b by (simp add: dom_store)
  then show "heap_inv d live rt ?m w"
    using inv by (auto simp: heap_inv_def)
  fix p' k
  assume "malloc_block live m w p' k"
  then obtain q' N' where q': "(q', N') \<in> live w" "malloc_block_at m q' N' p' k"
    by (auto simp: malloc_block_def)
  note b' = malloc_block_at_bounds[OF q'(2)]
  have "?m a = m a" if "q' \<le> a" "a < p'" for a
  proof (cases "(q', N') = (q, N)")
    case True
    then have "p' = p" using malloc_block_at_unique[OF q(2)] q'(2) by simp
    with that show ?thesis by (simp add: store_def)
  next
    case False
    then have "disjnt q' N' q N" using heap_inv_disjnt[OF inv] q q' by blast
    with that b b' len show ?thesis by (auto simp: store_def disjnt_def)
  qed
  then have "malloc_block_at ?m q' N' p' k"
    by (intro malloc_block_at_cong[OF q'(2)])
  with q'(1) show "malloc_block live ?m w p' k" by (auto simp: malloc_block_def)
qed

interpretation heap: c_heap "malloc d" "free d" "heap_inv d live rt" "malloc_block live" for d live rt
proof unfold_locales
  fix m w p n q k
  assume inv: "heap_inv d live rt m w" and p: "malloc_block live m w p n"
  obtain r N where r: "(r, N) \<in> live w" "malloc_block_at m r N p n"
    using p by (auto simp: malloc_block_def)
  note b = malloc_block_at_bounds[OF r(2)]
  have "mapped m (r + (p - r)) n"
    using b by (intro mapped_shift[OF heap_inv_mapped[OF inv r(1)]]) auto
  with b show "mapped m p n \<and> p \<noteq> NULL \<and> p + n \<le> 2 ^ 64" by auto
  assume q: "malloc_block live m w q k" and ne: "p \<noteq> q"
  obtain r' N' where r': "(r', N') \<in> live w" "malloc_block_at m r' N' q k"
    using q by (auto simp: malloc_block_def)
  have "(r, N) \<noteq> (r', N')" using malloc_block_at_unique[OF r(2), of q k] r'(2) ne by auto
  then have "disjnt r N r' N'" using heap_inv_disjnt[OF inv] r r' by blast
  with b malloc_block_at_bounds[OF r'(2)] show "disjnt p n q k"
    by (auto simp: disjnt_def)
qed (fact malloc_contract free_contract write_contract)+

section \<open>Exactly which blocks are live\<close>

text \<open>A contract that also excludes blocks from nowhere: what is live is what has been allocated and not
  released.\<close>

definition addresses :: "(ptr \<Rightarrow> nat \<Rightarrow> bool) \<Rightarrow> ptr set" where
  "addresses block = {p. \<exists>k. block p k}"

locale exact_heap = c_heap +
  assumes alloc_only: "inv m w \<Longrightarrow> 0 < unat n \<Longrightarrow> unat n + 31 < 2 ^ 64 \<Longrightarrow> alloc n m w = Some (p, m', w') \<Longrightarrow>
      block m' w' q k \<Longrightarrow> block m w q k \<or> q = p \<and> p \<noteq> NULL"
    and release_only: "inv m w \<Longrightarrow> block m w p l \<Longrightarrow> release p m w = Some (m', w') \<Longrightarrow> block m' w' q k \<Longrightarrow>
      block m w q k \<and> q \<noteq> p"
    and block_pos: "block m w p l \<Longrightarrow> 0 < l"
begin

lemma alloc_blocks:
  assumes "inv m w" "0 < unat n" "unat n + 31 < 2 ^ 64" "alloc n m w = Some (p, m', w')"
  shows "inv m' w' \<and> addresses (block m' w') = (if p = NULL then addresses (block m w) else insert p (addresses (block m w))) \<and>
    (p \<noteq> NULL \<longrightarrow> block m' w' p (unat n) \<and> p \<notin> addresses (block m w))"
proof -
  have a: "inv m' w'" "\<forall>q k. block m w q k \<longrightarrow> block m' w' q k"
    "p \<noteq> NULL \<longrightarrow> block m' w' p (unat n) \<and> (\<forall>i < unat n. m (p + i) = None)"
    using alloc_block[OF assms(1-3)] assms(4) by (auto split: if_splits)
  moreover have "m q \<noteq> None" if "block m w q k" for q k
    using block_mapped[OF assms(1) that] block_pos[OF that] mappedD[of m q k 0] by auto
  then have "p \<noteq> NULL \<longrightarrow> p \<notin> addresses (block m w)" using a(3) assms(2) by (force simp: addresses_def)
  moreover have "addresses (block m' w') \<subseteq> (if p = NULL then addresses (block m w) else insert p (addresses (block m w)))"
    using alloc_only[OF assms] by (auto simp: addresses_def)
  ultimately show ?thesis by (auto simp: addresses_def)
qed

lemma release_blocks:
  assumes "inv m w" "block m w p l"
  shows "\<exists>m' w'. release p m w = Some (m', w') \<and> inv m' w' \<and> addresses (block m' w') = addresses (block m w) - {p}"
proof -
  obtain m' w' where r: "release p m w = Some (m', w')" "inv m' w'"
    "\<forall>q k. block m w q k \<longrightarrow> q \<noteq> p \<longrightarrow> block m' w' q k"
    using release_block[OF assms] by blast
  moreover have "addresses (block m' w') \<subseteq> addresses (block m w) - {p}" using release_only[OF assms r(1)] by (fastforce simp: addresses_def)
  ultimately show ?thesis by (auto simp: addresses_def)
qed

end

lemma malloc_only:
  assumes inv: "heap_inv d live rt m w" and n: "0 < unat n" "unat n + 31 < 2 ^ 64"
    and mal: "malloc d n m w = Some (p, m', w')" and blk: "malloc_block live m' w' p' k"
  shows "malloc_block live m w p' k \<or> p' = p \<and> p \<noteq> NULL"
proof -
  have rt: "runtime_heap d live rt" "rt (dom m) w" using inv by (simp_all add: heap_inv_def)
  obtain sd q m1 w1 where sd: "sysdeps d = Some sd" "sys_malloc sd (n + 31) m w = (q, m1, w1)"
    "runtime_malloc_ok live rt (sys_malloc sd)" "n + 31 \<noteq> 0" "unat (n + 31) = unat n + 31"
    and unf: "malloc d n m w = (if q = NULL then Some (NULL, m1, w1)
      else do {
        let p = align_after q sizeof_malloc_block;
        m \<leftarrow> store_u64 m1 (p - 16) (word_of_nat q);
        m \<leftarrow> store_u64 m (p - 16 + 8) n;
        Some (p, m, w1) })"
    using malloc_unfold[OF rt(1) n, of m w] by auto
  have w1: "w' = w1"
    using mal unf by (auto simp: Let_def bind_eq_Some_conv split: if_splits)
  have ok: "if q = NULL then m1 = m \<and> live w1 = live w
      else q + unat (n + 31) \<le> 2 ^ 64 \<and> live w1 = insert (q, unat (n + 31)) (live w)"
    using sd(3)[unfolded runtime_malloc_ok_def, rule_format, OF sd(4) rt(2) sd(2)] by (auto split: if_splits)
  have con: "\<forall>a. m a \<noteq> None \<longrightarrow> m' a = m a"
    "p \<noteq> NULL \<longrightarrow> malloc_block live m' w' p (unat n) \<and> (\<forall>i < unat n. m (p + i) = None)"
    using malloc_contract[OF inv n] mal by (auto split: if_splits)
  have old: "malloc_block live m w x l"
    if x: "(r, R) \<in> live w" "malloc_block_at m' r R x l" for r R x l
  proof -
    have "m' a = m a" if "r \<le> a" "a < r + R" for a
      using con(1) mapped_ptr_inside[OF heap_inv_mapped[OF inv x(1)] that] by blast
    then have "malloc_block_at m r R x l"
      using malloc_block_at_bounds[OF x(2)] by (intro malloc_block_at_cong[OF x(2)]) auto
    with x(1) show ?thesis by (auto simp: malloc_block_def)
  qed
  obtain r R where r: "(r, R) \<in> live w1" "malloc_block_at m' r R p' k"
    using blk w1 by (auto simp: malloc_block_def)
  show ?thesis
  proof (cases "(r, R) \<in> live w")
    case True
    then show ?thesis using old r(2) by blast
  next
    case False
    then have q: "q \<noteq> NULL" "(r, R) = (q, unat (n + 31))" "q + unat (n + 31) \<le> 2 ^ 64"
      using ok r(1) by (auto split: if_splits)
    have p: "p = align_after q sizeof_malloc_block"
      using mal unf q(1) by (auto simp: Let_def bind_eq_Some_conv)
    then have p0: "p \<noteq> NULL" using q n(1) sd(5) align_after_bounds[of q p] by auto
    obtain r' R' where r': "(r', R') \<in> live w1" "malloc_block_at m' r' R' p (unat n)"
      using con(2) p0 w1 by (auto simp: malloc_block_def)
    have "(r', R') \<notin> live w"
    proof
      assume "(r', R') \<in> live w"
      then have "malloc_block live m w p (unat n)" by (rule old[OF _ r'(2)])
      then have "mapped m p (unat n)" using heap.block_mapped[OF inv] by blast
      then have "m (p + 0) \<noteq> None" using n(1) mappedD[of m p "unat n" 0] by fastforce
      moreover have "m (p + 0) = None" using conjunct2[OF mp[OF con(2) p0]] n(1) by blast
      ultimately show False by contradiction
    qed
    then have "(r', R') = (r, R)" using ok r'(1) q(1,2) by simp
    then show ?thesis using malloc_block_at_unique[of m' r R p' k p "unat n"] r(2) r'(2) p0 by simp
  qed
qed

lemma free_only:
  assumes inv: "heap_inv d live rt m w" and p: "malloc_block live m w p n"
    and fr: "free d p m w = Some (m', w')" and blk: "malloc_block live m' w' p' k"
  shows "malloc_block live m w p' k \<and> p' \<noteq> p"
proof -
  obtain q N where q: "(q, N) \<in> live w" "malloc_block_at m q N p n" using p by (auto simp: malloc_block_def)
  have w': "live w' = live w - {(q, N)}" "\<forall>a. a < q \<or> q + N \<le> a \<longrightarrow> m' a = m a"
    using free_exact[OF inv q] fr by auto
  obtain r R where r: "(r, R) \<in> live w" "(r, R) \<noteq> (q, N)" "malloc_block_at m' r R p' k"
    using blk w'(1) by (auto simp: malloc_block_def)
  note d = heap_inv_disjnt[OF inv r(1) q(1) r(2)]
  have "malloc_block_at m r R p' k"
    using w'(2) d malloc_block_at_bounds[OF r(3)] malloc_block_at_bounds[OF q(2)]
    by (intro malloc_block_at_cong[OF r(3)]) (auto simp: disjnt_def)
  moreover have "p' \<noteq> p"
    using d malloc_block_at_bounds[OF r(3)] malloc_block_at_bounds[OF q(2)] by (auto simp: disjnt_def)
  ultimately show ?thesis using r(1) by (auto simp: malloc_block_def)
qed

interpretation exact: exact_heap "malloc d" "free d" "heap_inv d live rt" "malloc_block live" for d live rt
proof unfold_locales
  show "malloc_block live m w p l \<Longrightarrow> 0 < l" for m w p l
    using malloc_block_at_bounds by (fastforce simp: malloc_block_def)
qed (fact malloc_only free_only)+

section \<open>The clients of the heap\<close>

lemma calloc_check:
  assumes "sz \<noteq> (0 :: u64)"
  shows "num = num * sz div sz \<longleftrightarrow> unat num * unat sz < 2 ^ 64"
proof
  have s: "0 < unat sz" using assms by (simp add: unat_gt_0)
  assume *: "num = num * sz div sz"
  show "unat num * unat sz < 2 ^ 64"
  proof (rule ccontr)
    assume ge: "\<not> unat num * unat sz < 2 ^ 64"
    then have "unat (num * sz) < unat num * unat sz"
      using unsigned_less[of "num * sz", where 'a = nat] by simp
    then have "unat (num * sz) div unat sz < unat num"
      by (simp add: less_mult_imp_div_less)
    moreover have "unat (num * sz div sz) = unat (num * sz) div unat sz" by (rule unat_div_distrib)
    ultimately show False using * by simp
  qed
next
  assume "unat num * unat sz < 2 ^ 64"
  then have "unat (num * sz) = unat num * unat sz"
    using unat_mult_lem[of num sz] by simp
  then have "unat (num * sz div sz) = unat num"
    using assms by (simp add: unat_div_distrib unat_gt_0)
  then show "num = num * sz div sz" by (metis unsigned_word_eqI)
qed

lemma calloc_unfold:
  assumes "0 < unat sz" "unat num * unat sz < 2 ^ 64"
  shows "calloc d num sz m w = do {
      (buf, m, w) \<leftarrow> malloc d (num * sz) m w; (_, m) \<leftarrow> memset m buf 0 (unat num * unat sz); Some (buf, m, w) }"
proof -
  have sz: "sz \<noteq> 0" using assms(1) by auto
  have "num = num * sz div sz" by (rule iffD2[OF calloc_check[OF sz]]) (use assms in simp)
  moreover have "unat (num * sz) = unat num * unat sz" using assms(2) unat_mult_lem[of num sz] by simp
  ultimately show ?thesis using sz by (simp add: calloc_def Let_def)
qed

lemma calloc_fills:
  assumes inv: "heap_inv d live rt m w" and k: "k = unat num * unat sz" "0 < k" "k + 31 < 2 ^ 64"
    and mal: "malloc d (num * sz) m w = Some (p, m1, w1)" "p \<noteq> NULL"
  shows "calloc d num sz m w = Some (p, store m1 p (replicate k 0), w1)"
    "heap_inv d live rt (store m1 p (replicate k 0)) w1" "malloc_block live (store m1 p (replicate k 0)) w1 p k"
    "load (store m1 p (replicate k 0)) p k = Some (replicate k 0)"
    "\<And>a. m a \<noteq> None \<Longrightarrow> store m1 p (replicate k 0) a = m a"
    "\<And>q l. malloc_block live m w q l \<Longrightarrow> malloc_block live (store m1 p (replicate k 0)) w1 q l"
proof -
  have un: "unat (num * sz) = k" using k(1,3) unat_mult_lem[of num sz] by simp
  note n = k(2,3)[folded un]
  let ?bs = "replicate k 0 :: u8 list"
  note f = heap.alloc_fill[OF inv n mal, of ?bs, unfolded un length_replicate, OF order_refl]
  show "heap_inv d live rt (store m1 p ?bs) w1" using f by (elim conjE)
  show "malloc_block live (store m1 p ?bs) w1 p k" using f by (elim conjE)
  show "load (store m1 p ?bs) p k = Some ?bs" using f by (elim conjE)
  show "\<And>a. m a \<noteq> None \<Longrightarrow> store m1 p ?bs a = m a" using f by (elim conjE) blast
  show "\<And>q l. malloc_block live m w q l \<Longrightarrow> malloc_block live (store m1 p ?bs) w1 q l" using f by (elim conjE) blast
  have b: "heap_inv d live rt m1 w1" "malloc_block live m1 w1 p k"
    using malloc_contract[OF inv n] mal unfolding un by auto
  have ms: "memset m1 p 0 k = Some (p, store m1 p ?bs)"
    using memset_exact[OF conjunct1[OF heap.block_mapped[OF b]], of 0] by simp
  have "0 < unat sz" using k(2) unfolding k(1) by simp
  moreover have "unat num * unat sz < 2 ^ 64" using k(3) unfolding k(1) by simp
  ultimately show "calloc d num sz m w = Some (p, store m1 p ?bs, w1)"
    by (simp add: calloc_unfold mal(1) ms flip: k(1))
qed

lemma load_prefix: "load m p n = Some bs \<Longrightarrow> k \<le> n \<Longrightarrow> load m p k = Some (take k bs)"
  by (simp add: load_iff)

lemma realloc_fits:
  assumes "malloc_block live m w p k" "0 < unat n" "unat n \<le> k"
  shows "realloc d p n m w = Some (p, m, w)"
proof -
  obtain q N where q: "malloc_block_at m q N p k" using assms(1) by (auto simp: malloc_block_def)
  note b = malloc_block_at_bounds[OF q]
  have kw: "unat (word_of_nat k :: u64) = k"
    using b unfolding unsigned_of_nat by (simp add: take_bit_nat_eq_self)
  have "load m (p - 8) 8 = Some (to_le 8 k)" using q unfolding malloc_block_at_def by blast
  then have prev: "load_u64 m (p - 8) = Some (word_of_nat k)"
    by (intro load_u64_exact) (simp only: kw)
  have "p - 16 + 8 = p - 8" "n \<le> word_of_nat k" "\<not> n \<le> 0"
    using b kw assms(2,3) by (auto simp: word_le_nat_alt)
  with prev b show ?thesis
    by (simp add: realloc_def get_malloc_block_eq)
qed

lemma realloc_grow:
  assumes inv: "heap_inv d live rt m w" and blk: "malloc_block live m w p k" and bs: "load m p k = Some bs"
    and n: "k < unat n" "unat n + 31 < 2 ^ 64"
    and mal: "malloc d n m w = Some (p', m1, w1)"
  shows "\<exists>m' w'. realloc d p n m w = Some (p', m', w') \<and> heap_inv d live rt m' w' \<and>
    (p' \<noteq> NULL \<longrightarrow> malloc_block live m' w' p' (unat n) \<and> load m' p' k = Some bs \<and> p' \<noteq> p) \<and>
    (\<exists>q N. (q, N) \<in> live w1 \<and> q \<le> p \<and> p + k \<le> q + N \<and> live w' = live w1 - {(q, N)}) \<and> (\<forall>l. \<not> malloc_block live m' w' p l) \<and>
    (\<forall>q l. malloc_block live m w q l \<longrightarrow> q \<noteq> p \<longrightarrow> malloc_block live m' w' q l \<and> load m' q l = load m q l)"
proof -
  obtain q N where q: "(q, N) \<in> live w" "malloc_block_at m q N p k"
    using blk by (auto simp: malloc_block_def)
  note b = malloc_block_at_bounds[OF q(2)]
  have kw: "unat (word_of_nat k :: u64) = k"
    using b unfolding unsigned_of_nat by (simp add: take_bit_nat_eq_self)
  have "load m (p - 8) 8 = Some (to_le 8 k)" using q(2) unfolding malloc_block_at_def by blast
  then have prev: "load_u64 m (p - 8) = Some (word_of_nat k)"
    by (intro load_u64_exact) (simp only: kw)
  have p8: "p - 16 + 8 = p - 8" using b by simp
  have gt: "\<not> n \<le> word_of_nat k" "\<not> n \<le> 0"
    using n(1) kw by (auto simp: word_le_nat_alt)
  have n0: "0 < unat n" using n(1) by simp
  have a: "heap_inv d live rt m1 w1" "\<forall>a. m a \<noteq> None \<longrightarrow> m1 a = m a"
    "\<forall>q l. malloc_block live m w q l \<longrightarrow> malloc_block live m1 w1 q l"
    "p' \<noteq> NULL \<Longrightarrow> malloc_block live m1 w1 p' (unat n) \<and> (\<forall>i < unat n. m (p' + i) = None)"
    using malloc_contract[OF inv n0 n(2)] mal by auto
  have keep: "load m1 x l = Some cs" if "load m x l = Some cs" for x l cs
    using that a(2) by (auto simp: load_iff)
  have len: "length bs = k" using bs by (rule length_load)
  define m2 where "m2 = (if p' = NULL then m1 else store m1 p' bs)"
  have copy: "(if p' \<noteq> NULL then map_option snd (memcpy m1 p' p k) else Some m1) = Some m2"
  proof (cases "p' = NULL")
    case False
    have "mapped m1 p' (unat n)" using heap.block_mapped[OF a(1)] a(4)[OF False] by blast
    then have mp: "mapped m1 p' k" using n(1) by (auto intro: mapped_mono)
    have "m p \<noteq> None" using mapped_iff_load[of m p k] bs b mappedD[of m p k 0] by auto
    then have "p' \<noteq> p" using a(4)[OF False] n0 by (metis add_0_right)
    then have "disjnt p' (unat n) p k"
      using heap.block_disjnt[OF a(1)] a(3,4) False blk by blast
    then have "p' \<le> p \<or> p + k \<le> p'" using b n0 by (auto simp: disjnt_def)
    from memcpy_correct[OF keep[OF bs] mp this] show ?thesis
      using False by (simp add: m2_def)
  qed (simp add: m2_def)
  have m2: "heap_inv d live rt m2 w1" "\<forall>q l. malloc_block live m w q l \<longrightarrow> malloc_block live m2 w1 q l"
    "p' \<noteq> NULL \<Longrightarrow> malloc_block live m2 w1 p' (unat n)" "\<forall>a. m a \<noteq> None \<longrightarrow> m2 a = m a"
    using heap.alloc_fill[OF inv n0 n(2) mal _, of bs] a n(1) len by (auto simp: m2_def)
  have m2p: "load m2 p' k = Some bs" if "p' \<noteq> NULL"
    using that load_store_same[of m1 p' bs] len by (simp add: m2_def)
  have keep2: "load m2 x l = load m x l" if "malloc_block live m w x l" for x l
    using heap.block_mapped[OF inv that] m2(4) by (intro load_cong) (auto simp: mapped_def)
  have blk2: "malloc_block live m2 w1 p k" using m2(2) blk by blast
  obtain m' w' where fr: "free d p m2 w1 = Some (m', w')" "heap_inv d live rt m' w'"
    "\<forall>x l. malloc_block live m2 w1 x l \<longrightarrow> x \<noteq> p \<longrightarrow> malloc_block live m' w' x l \<and> load m' x l = load m2 x l"
    using free_contract[OF m2(1) blk2] by blast
  obtain q2 N2 where q2: "(q2, N2) \<in> live w1" "malloc_block_at m2 q2 N2 p k"
    using blk2 by (auto simp: malloc_block_def)
  have lw: "live w' = live w1 - {(q2, N2)}" using free_exact[OF m2(1) q2] unfolding fr(1) by (elim exE conjE) simp
  have qp: "q2 \<le> p" "p + k \<le> q2 + N2" using malloc_block_at_bounds[OF q2(2)] by linarith+
  have gone: "\<exists>q N. (q, N) \<in> live w1 \<and> q \<le> p \<and> p + k \<le> q + N \<and> live w' = live w1 - {(q, N)}"
    by (rule exI[of _ q2], rule exI[of _ N2]) (simp only: q2(1) qp lw simp_thms)
  have dead: "\<forall>l. \<not> malloc_block live m' w' p l"
    using free_only[OF m2(1) blk2 fr(1), of p] by (intro allI notI) simp
  have res: "realloc d p n m w = Some (p', m', w')"
    using gt b prev copy fr(1) mal by (cases "p' = NULL") (auto simp: realloc_def get_malloc_block_eq p8 kw)
  have new: "p' \<noteq> NULL \<longrightarrow> malloc_block live m' w' p' (unat n) \<and> load m' p' k = Some bs \<and> p' \<noteq> p"
  proof
    assume nz: "p' \<noteq> NULL"
    have "m p \<noteq> None" using mapped_iff_load[of m p k] bs b mappedD[of m p k 0] by auto
    then have ne: "p' \<noteq> p" using a(4)[OF nz] n0 by (metis add_0_right)
    then have "malloc_block live m' w' p' (unat n)" "load m' p' (unat n) = load m2 p' (unat n)"
      using fr(3) m2(3)[OF nz] by blast+
    moreover have "load m' p' k = load m2 p' k"
    proof (rule load_cong)
      fix i assume "i < k"
      moreover obtain cs where "load m2 p' (unat n) = Some cs"
        using heap.block_mapped[OF m2(1) m2(3)[OF nz]] by (auto simp: mapped_iff_load)
      moreover have "load m' p' (unat n) = Some cs"
        using \<open>load m2 p' (unat n) = Some cs\<close> \<open>load m' p' (unat n) = load m2 p' (unat n)\<close> by simp
      ultimately show "m' (p' + i) = m2 (p' + i)"
        using n(1) by (auto simp: load_iff)
    qed
    ultimately show "malloc_block live m' w' p' (unat n) \<and> load m' p' k = Some bs \<and> p' \<noteq> p"
      using m2p[OF nz] ne by simp
  qed
  have "malloc_block live m' w' x l \<and> load m' x l = load m x l"
    if "malloc_block live m w x l" "x \<noteq> p" for x l
    using that fr(3) m2(2) keep2[OF that(1)] by metis
  then have old: "\<forall>q l. malloc_block live m w q l \<longrightarrow> q \<noteq> p \<longrightarrow> malloc_block live m' w' q l \<and> load m' q l = load m q l" by blast
  show ?thesis by (intro exI[of _ m'] exI[of _ w'] conjI) (fact res fr(2) new gone dead old)+
qed

lemma fresh_string_alloc:
  assumes inv: "heap_inv d live rt m w" and s: "cstr m s str" and len: "n \<le> length str" "length str + 32 < 2 ^ 64"
  shows "\<exists>p m1 w1. malloc d (word_of_nat n + 1) m w = Some (p, m1, w1) \<and> heap_inv d live rt m1 w1 \<and>
    cstr m1 s str \<and> (p = NULL \<longrightarrow> m1 = m) \<and>
    (p \<noteq> NULL \<longrightarrow> malloc_block live m1 w1 p (Suc n) \<and> mapped m1 p (Suc n) \<and> disjnt p (Suc n) s (Suc (length str)) \<and>
      heap_inv d live rt (store m1 p (take n str @ [0])) w1 \<and>
      malloc_block live (store m1 p (take n str @ [0])) w1 p (Suc n))"
proof -
  have "word_of_nat n + 1 = (word_of_nat (Suc n) :: u64)" by simp
  moreover have "unat (word_of_nat (Suc n) :: u64) = Suc n"
    using len unfolding unsigned_of_nat by (simp add: take_bit_nat_eq_self del: of_nat_Suc)
  ultimately have u: "unat (word_of_nat n + 1 :: u64) = Suc n" by (simp add: add.commute)
  obtain p m1 w1 where mal: "malloc d (word_of_nat n + 1) m w = Some (p, m1, w1)" and a: "heap_inv d live rt m1 w1"
    "\<forall>a. m a \<noteq> None \<longrightarrow> m1 a = m a" "p = NULL \<longrightarrow> m1 = m"
    "p \<noteq> NULL \<longrightarrow> malloc_block live m1 w1 p (Suc n) \<and> (\<forall>i < Suc n. m (p + i) = None)"
  proof -
    have "0 < unat (word_of_nat n + 1 :: u64)" "unat (word_of_nat n + 1 :: u64) + 31 < 2 ^ 64"
      using len u by auto
    from malloc_contract[OF inv this] show thesis
      unfolding u by (elim exE conjE) (rule that; auto split: if_splits)
  qed
  have c: "cstr m1 s str"
    using cstr_cong[OF s, of m1] a(2) mappedD[OF cstr_mapped[OF s]] by (auto simp: less_Suc_eq_le)
  have "malloc_block live m1 w1 p (Suc n) \<and> mapped m1 p (Suc n) \<and> disjnt p (Suc n) s (Suc (length str)) \<and>
      heap_inv d live rt (store m1 p (take n str @ [0])) w1 \<and>
      malloc_block live (store m1 p (take n str @ [0])) w1 p (Suc n)" if "p \<noteq> NULL"
  proof -
    note blk = mp[OF a(4) that]
    have "disjnt s (Suc (length str)) p (Suc n)"
    proof (rule disjnt_mapped[OF cstr_mapped[OF s]])
      fix x assume "p \<le> x" "x < p + Suc n"
      then have "x - p < Suc n" by linarith
      then have "m (p + (x - p)) = None" using blk by blast
      with \<open>p \<le> x\<close> show "m x = None" by simp
    qed
    moreover have "heap_inv d live rt (store m1 p (take n str @ [0])) w1 \<and>
        malloc_block live (store m1 p (take n str @ [0])) w1 p (Suc n)"
      using heap.write_block[OF a(1) conjunct1[OF blk], of 0 "take n str @ [0]"] blk len(1) by simp
    ultimately show ?thesis
      using blk heap.block_mapped[OF a(1) conjunct1[OF blk]] by (simp add: disjnt_sym)
  qed
  with mal a c show ?thesis by blast
qed

lemma strdup_exact:
  assumes inv: "heap_inv d live rt m w" and s: "cstr m s str" and len: "length str + 32 < 2 ^ 64"
  shows "\<exists>p m' w'. strdup d s m w = Some (p, m', w') \<and> heap_inv d live rt m' w' \<and> cstr m' s str \<and>
    (p = NULL \<and> m' = m \<or> cstr m' p str \<and> malloc_block live m' w' p (Suc (length str)))"
proof -
  obtain p m1 w1 where mal: "malloc d (word_of_nat (length str) + 1) m w = Some (p, m1, w1)" "heap_inv d live rt m1 w1"
    "cstr m1 s str" "p = NULL \<longrightarrow> m1 = m" and
    p: "p \<noteq> NULL \<Longrightarrow> mapped m1 p (Suc (length str)) \<and> disjnt p (Suc (length str)) s (Suc (length str)) \<and>
      heap_inv d live rt (store m1 p (str @ [0])) w1 \<and> malloc_block live (store m1 p (str @ [0])) w1 p (Suc (length str))"
    using fresh_string_alloc[OF inv s order_refl len] by auto
  show ?thesis
  proof (cases "p = NULL")
    case True
    with mal show ?thesis by (auto simp: strdup_def strlen_exact[OF s])
  next
    case False
    note p = p[OF False]
    have "strcpy m1 p s = Some (p, store m1 p (str @ [0]))"
      using p by (intro strcpy_exact mal(3)) (auto simp: disjnt_def)
    moreover have "cstr (store m1 p (str @ [0])) s str"
      using p by (intro cstr_store_disjnt mal(3)) (simp add: disjnt_sym)
    ultimately show ?thesis
      using False mal p cstr_no_nul[OF s] by (simp add: strdup_def strlen_exact[OF s] cstr_store_same)
  qed
qed

lemma strndup_exact:
  assumes inv: "heap_inv d live rt m w" and s: "cstr m s str" and len: "length str + 32 < 2 ^ 64"
  shows "\<exists>p m' w'. strndup d s n m w = Some (p, m', w') \<and> heap_inv d live rt m' w' \<and> cstr m' s str \<and>
    (p = NULL \<and> m' = m \<or> cstr m' p (take n str) \<and> malloc_block live m' w' p (Suc (min n (length str))))"
proof -
  define k where "k = (if n < length str then n else length str)"
  have k: "k \<le> length str" "take n str = take k str" "min n (length str) = k" by (auto simp: k_def)
  obtain p m1 w1 where mal: "malloc d (word_of_nat k + 1) m w = Some (p, m1, w1)" "heap_inv d live rt m1 w1"
    "cstr m1 s str" "p = NULL \<longrightarrow> m1 = m" and
    p: "p \<noteq> NULL \<Longrightarrow> mapped m1 p (Suc k) \<and> disjnt p (Suc k) s (Suc (length str)) \<and>
      heap_inv d live rt (store m1 p (take k str @ [0])) w1 \<and> malloc_block live (store m1 p (take k str @ [0])) w1 p (Suc k)"
    using fresh_string_alloc[OF inv s k(1) len] by auto
  show ?thesis
  proof (cases "p = NULL")
    case True
    with mal show ?thesis by (auto simp: strndup_def strlen_exact[OF s] k_def)
  next
    case False
    note p = p[OF False]
    have "load m1 s k = Some (take k str)"
      using load_prefix[OF cstr_load[OF mal(3)], of k] k(1) by simp
    then have cpy: "memcpy m1 p s k = Some (p, store m1 p (take k str))"
      using p k(1) by (intro memcpy_correct) (auto simp: disjnt_def intro: mapped_mono)
    have "store m1 p (take k str) (p + k) \<noteq> None"
      using p k(1) mappedD[of m1 p "Suc k" k] by (auto simp: store_def)
    then have "wr (store m1 p (take k str)) (p + k) 0 = Some (store m1 p (take k str @ [0]))"
      using k(1) by (simp add: store_snoc)
    moreover have "cstr (store m1 p (take k str @ [0])) s str"
      using p k(1) by (intro cstr_store_disjnt mal(3)) (simp add: disjnt_sym)
    moreover have "0 \<notin> set (take k str)" using cstr_no_nul[OF s] by (auto dest: in_set_takeD)
    ultimately show ?thesis
      using False mal p cpy unfolding k(2,3)
      by (simp add: strndup_def strlen_exact[OF s] cstr_store_same Let_def flip: k_def)
  qed
qed

section \<open>A runtime that meets the hypotheses\<close>

text \<open>A runtime whose allocator takes blocks one after the other and remembers them: the witnesses
  below run the code on it.\<close>

type_synonym bump = "nat \<times> (ptr \<times> nat) list"

definition bump_malloc :: "u64 \<Rightarrow> mem \<Rightarrow> bump \<Rightarrow> ptr \<times> mem \<times> bump" where
  "bump_malloc n m w =
     (if fst w + unat n > 2 ^ 64 then (NULL, m, w)
      else (fst w, store m (fst w) (replicate (unat n) 0), (fst w + unat n, (fst w, unat n) # snd w)))"

definition bump_free :: "ptr \<Rightarrow> mem \<Rightarrow> bump \<Rightarrow> mem \<times> bump" where
  "bump_free q m w = (m, (fst w, filter (\<lambda>b. fst b \<noteq> q) (snd w)))"

definition bump_rt :: "ptr set \<Rightarrow> bump \<Rightarrow> bool" where
  "bump_rt D w \<longleftrightarrow> 0 < fst w \<and> (\<forall>a \<in> D. a < fst w) \<and> distinct (map fst (snd w)) \<and>
     (\<forall>b \<in> set (snd w). 0 < snd b \<and> fst b + snd b \<le> fst w)"

definition bump_sysdeps :: "bump nnlc_sysdeps" where
  "bump_sysdeps = \<lparr> sys_malloc = bump_malloc, sys_free = bump_free, sys_write_stdout = (\<lambda>bs w. (int (length bs), w)),
     sys_write_stderr = (\<lambda>bs w. (int (length bs), w)), sys_exit = (\<lambda>i w. (True, w)), sys_usleep = (\<lambda>u w. (0, w)),
     sys_gettime_monotonic = (\<lambda>w. ((0, 0, 0), w)), sys_gettime_wall = (\<lambda>w. ((0, 0, 0), w)) \<rparr>"

definition bump_libc :: "bump nnlc_internal_data" where
  "bump_libc = snd (nnlc_initialize bump_sysdeps nnlc_internal_data0)"

lemma bump_sysdeps_of: "sysdeps bump_libc = Some bump_sysdeps"
  by (simp add: bump_libc_def nnlc_initialize_def Let_def)

lemma bump_malloc_ok: "runtime_malloc_ok (\<lambda>w. set (snd w)) bump_rt bump_malloc"
  unfolding runtime_malloc_ok_def
proof (intro allI impI)
  fix n :: u64 and m :: mem and w :: bump and q m' w'
  assume n: "n \<noteq> 0" and rt: "bump_rt (dom m) w" and al: "bump_malloc n m w = (q, m', w')"
  have n0: "0 < unat n" using n by (simp add: unat_gt_0)
  show "bump_rt (dom m') w' \<and> (if q = NULL then m' = m \<and> set (snd w') = set (snd w)
      else q + unat n \<le> 2 ^ 64 \<and> set (snd w') = insert (q, unat n) (set (snd w)) \<and> mapped m' q (unat n) \<and>
        (\<forall>a. q \<le> a \<and> a < q + unat n \<longrightarrow> m a = None) \<and> (\<forall>a. a < q \<or> q + unat n \<le> a \<longrightarrow> m' a = m a))"
  proof (cases "fst w + unat n > 2 ^ 64")
    case True
    with rt al show ?thesis by (auto simp: bump_malloc_def bump_rt_def)
  next
    case False
    with al have e: "q = fst w" "m' = store m q (replicate (unat n) 0)"
      "w' = (q + unat n, (q, unat n) # snd w)" by (auto simp: bump_malloc_def)
    have dm: "a < q" if "m a \<noteq> None" for a using that rt e(1) by (auto simp: bump_rt_def)
    have "mapped m' q (unat n)" by (auto simp: mapped_def e(2) store_def)
    moreover have "q \<notin> fst ` set (snd w)" using rt e(1) by (force simp: bump_rt_def)
    then have "bump_rt (dom m') w'"
      using rt n0 dm e(1) by (fastforce simp: bump_rt_def e(2,3) store_def split: if_splits)
    moreover have "m a = None" if "q \<le> a" for a using dm[of a] that by (cases "m a") auto
    ultimately show ?thesis using False rt e(1)
      by (auto simp: e(2,3) store_def bump_rt_def)
  qed
qed

lemma bump_free_ok: "runtime_free_ok (\<lambda>w. set (snd w)) bump_rt bump_free"
  unfolding runtime_free_ok_def
proof (intro allI impI)
  fix q n and m :: mem and w :: bump and m' w'
  assume live: "(q, n) \<in> set (snd w)" and rt: "bump_rt (dom m) w" and fr: "bump_free q m w = (m', w')"
  have e: "m' = m" "w' = (fst w, filter (\<lambda>b. fst b \<noteq> q) (snd w))" using fr by (auto simp: bump_free_def)
  have *: "b = (q, n)" if b': "b \<in> set (snd w)" "fst b = q" for b
  proof -
    obtain k where b: "b = (q, k)" using b'(2) by (cases b) auto
    have "distinct (map fst (snd w))" using rt by (simp add: bump_rt_def)
    from eq_key_imp_eq_value[OF this live, of k] b'(1) b show ?thesis by simp
  qed
  have "set (snd w') = {b \<in> set (snd w). fst b \<noteq> q}" by (simp add: e)
  also have "\<dots> = set (snd w) - {(q, n)}" by (auto dest: *)
  finally have "set (snd w') = set (snd w) - {(q, n)}" .
  moreover have "bump_rt (dom m') w'" using rt by (auto simp: bump_rt_def e distinct_map_filter)
  ultimately show "bump_rt (dom m') w' \<and> set (snd w') = set (snd w) - {(q, n)} \<and>
      (\<forall>a. a < q \<or> q + n \<le> a \<longrightarrow> m' a = m a)" using e by simp
qed

lemma bump_heap_inv: "(\<And>a. m a \<noteq> None \<Longrightarrow> a < k) \<Longrightarrow> 0 < k \<Longrightarrow> heap_inv bump_libc (\<lambda>w. set (snd w)) bump_rt m (k, [])"
  by (auto simp: heap_inv_def runtime_heap_def bump_sysdeps_of bump_sysdeps_def bump_malloc_ok bump_free_ok bump_rt_def)

text \<open>A call that succeeds.\<close>

lemma bump_malloc_example:
  "\<exists>p m w. malloc bump_libc 4 (\<lambda>_. None) (5, []) = Some (p, m, w) \<and> p \<noteq> NULL \<and>
    heap_inv bump_libc (\<lambda>w. set (snd w)) bump_rt m w \<and> malloc_block (\<lambda>w. set (snd w)) m w p 4"
proof -
  let ?live = "\<lambda>w :: bump. set (snd w)"
  have inv: "heap_inv bump_libc ?live bump_rt (\<lambda>_. None) (5, [])"
    by (rule bump_heap_inv) auto
  obtain p m w where mal: "malloc bump_libc 4 (\<lambda>_. None) (5, []) = Some (p, m, w)" "heap_inv bump_libc ?live bump_rt m w"
    "p \<noteq> NULL \<longrightarrow> malloc_block ?live m w p 4"
    using malloc_contract[OF inv, of 4] by (auto split: if_splits simp del: split_paired_Ex)
  have "p \<noteq> NULL"
  proof
    assume "p = NULL"
    with mal(1) show False
      using align_after_bounds[of 5, OF _ refl]
      by (auto simp: malloc_def bump_sysdeps_of bump_sysdeps_def bump_malloc_def pad_for_alignment_def
          NNLC_MALLOC_ALIGNMENT_def sizeof_malloc_block_def Let_def bind_eq_Some_conv split: if_splits)
  qed
  with mal show ?thesis by blast
qed

section \<open>Properties\<close>

text \<open>C1. In a heap in order, \<open>malloc\<close> of a size that leaves room for the header returns \<open>NULL\<close> with the
  memory as it was, or the 16-byte aligned address of a new block of that size: it was not mapped
  before, shares no byte with any live block, and all that was mapped keeps its contents. The heap
  stays in order with all its blocks.\<close>

theorem malloc_allocates:
  assumes "heap_inv d live rt m w" "0 < unat n" "unat n + 31 < 2 ^ 64"
  shows "\<exists>p m' w'. malloc d n m w = Some (p, m', w') \<and> heap_inv d live rt m' w' \<and>
    (\<forall>a. m a \<noteq> None \<longrightarrow> m' a = m a) \<and> (\<forall>q k. malloc_block live m w q k \<longrightarrow> malloc_block live m' w' q k) \<and>
    (p = NULL \<and> m' = m \<or>
     malloc_block live m' w' p (unat n) \<and> 16 dvd p \<and> mapped m' p (unat n) \<and> (\<forall>i < unat n. m (p + i) = None) \<and>
     (\<forall>q k. malloc_block live m w q k \<longrightarrow> disjnt p (unat n) q k))"
proof -
  obtain p m' w' where a: "malloc d n m w = Some (p, m', w')" "heap_inv d live rt m' w'"
    "\<forall>a. m a \<noteq> None \<longrightarrow> m' a = m a" "\<forall>q k. malloc_block live m w q k \<longrightarrow> malloc_block live m' w' q k"
    "if p = NULL then m' = m
     else malloc_block live m' w' p (unat n) \<and> 16 dvd p \<and> (\<forall>i < unat n. m (p + i) = None)"
    using malloc_contract[OF assms] by blast
  show ?thesis
  proof (cases "p = NULL")
    case False
    with a(5) have p: "malloc_block live m' w' p (unat n)" "16 dvd p" "\<forall>i < unat n. m (p + i) = None" by auto
    have "p \<noteq> q" if "malloc_block live m w q k" for q k
    proof -
      have "mapped m q k" "0 < k"
        using heap.block_mapped[OF assms(1) that] that by (auto simp: malloc_block_def malloc_block_at_def)
      then have "m q \<noteq> None" using mappedD[of m q k 0] by simp
      then show ?thesis using p(3) assms(2) by (metis add_0_right)
    qed
    then have "\<forall>q k. malloc_block live m w q k \<longrightarrow> disjnt p (unat n) q k"
      using heap.block_disjnt[OF a(2) p(1)] a(4) by blast
    with a p heap.block_mapped[OF a(2) p(1)] show ?thesis by blast
  qed (use a in auto)
qed

theorem malloc_allocates_witness:
  "\<exists>p m' w'. malloc bump_libc 100 (\<lambda>_. None) (5, []) = Some (p, m', w') \<and>
     (p = NULL \<or> 16 dvd p \<and> mapped m' p 100)"
proof -
  have "heap_inv bump_libc (\<lambda>w. set (snd w)) bump_rt (\<lambda>_. None) (5, [])"
    by (rule bump_heap_inv) auto
  from malloc_allocates[OF this, of 100] show ?thesis by auto
qed

text \<open>C2. Giving back what was obtained: \<open>free\<close> of a pointer that \<open>malloc\<close> returned hands the runtime
  exactly the block it had allocated, so that its live blocks are again those before the call, and
  no other live block changes. \<open>free(NULL)\<close> does nothing.\<close>

theorem malloc_free_roundtrip:
  assumes "heap_inv d live rt m w" "0 < unat n" "unat n + 31 < 2 ^ 64"
    "malloc d n m w = Some (p, m1, w1)" "p \<noteq> NULL"
  shows "\<exists>m2 w2. free d p m1 w1 = Some (m2, w2) \<and> live w2 = live w \<and> heap_inv d live rt m2 w2 \<and>
    (\<forall>q k. malloc_block live m w q k \<longrightarrow> malloc_block live m2 w2 q k \<and> load m2 q k = load m q k) \<and>
    free d NULL m w = Some (m, w)"
proof -
  have a: "heap_inv d live rt m1 w1" "\<forall>a. m a \<noteq> None \<longrightarrow> m1 a = m a"
    "\<forall>q k. malloc_block live m w q k \<longrightarrow> malloc_block live m1 w1 q k"
    "malloc_block live m1 w1 p (unat n)" "\<forall>i < unat n. m (p + i) = None"
    using malloc_contract[OF assms(1-3)] assms(4,5) by auto
  obtain q N where q: "(q, N) \<in> live w1" "malloc_block_at m1 q N p (unat n)"
    using a(4) by (auto simp: malloc_block_def)
  note b = malloc_block_at_bounds[OF q(2)]
  have new: "live w1 = insert (q, N) (live w)"
  proof -
    obtain sd q0 m0 w0 where sd: "sysdeps d = Some sd" "sys_malloc sd (n + 31) m w = (q0, m0, w0)"
      "unat (n + 31) = unat n + 31" "runtime_malloc_ok live rt (sys_malloc sd)" "n + 31 \<noteq> 0"
      and mal: "malloc d n m w = (if q0 = NULL then Some (NULL, m0, w0)
        else do {
          let p = align_after q0 sizeof_malloc_block;
          m \<leftarrow> store_u64 m0 (p - 16) (word_of_nat q0);
          m \<leftarrow> store_u64 m (p - 16 + 8) n;
          Some (p, m, w0) })"
      using malloc_unfold[of d live rt n m w] assms(1-3) by (auto simp: heap_inv_def)
    have "rt (dom m) w" using assms(1) by (simp add: heap_inv_def)
    from sd(4)[unfolded runtime_malloc_ok_def, rule_format, OF sd(5) this sd(2)]
    have "q0 \<noteq> NULL \<Longrightarrow> live w0 = insert (q0, unat n + 31) (live w)" unfolding sd(3) by simp
    moreover have "q0 \<noteq> NULL" "w1 = w0"
      using trans[OF mal[symmetric] assms(4)] assms(5)
      by (auto simp: Let_def bind_eq_Some_conv split: if_splits)
    ultimately have l: "live w1 = insert (q0, unat n + 31) (live w)" by simp
    have "(q, N) \<notin> live w"
    proof
      assume "(q, N) \<in> live w"
      then have "mapped m q N" using assms(1) by (rule_tac heap_inv_mapped)
      then have "m p \<noteq> None" using b by (intro mapped_ptr_inside[of m q N]) auto
      then show False using a(5) assms(2) by (metis add_0_right)
    qed
    with l q(1) show ?thesis by auto
  qed
  have fresh: "(q, N) \<notin> live w"
  proof
    assume "(q, N) \<in> live w"
    then have "mapped m q N" using assms(1) by (rule_tac heap_inv_mapped)
    then have "m p \<noteq> None" using b by (intro mapped_ptr_inside[of m q N]) auto
    then show False using a(5) assms(2) by (metis add_0_right)
  qed
  obtain m2 w2 where f: "free d p m1 w1 = Some (m2, w2)" "live w2 = live w1 - {(q, N)}" "heap_inv d live rt m2 w2"
    using free_exact[OF a(1) q] by blast
  have "malloc_block live m2 w2 x k \<and> load m2 x k = load m x k" if x: "malloc_block live m w x k" for x k
  proof -
    have mp: "mapped m x k" "0 < k"
      using heap.block_mapped[OF assms(1) x] x by (auto simp: malloc_block_def malloc_block_at_def)
    then have "m x \<noteq> None" using mappedD[of m x k 0] by simp
    then have "x \<noteq> p" using a(5) assms(2) by (metis add_0_right)
    then have "malloc_block live m2 w2 x k \<and> load m2 x k = load m1 x k"
      using free_contract[OF a(1,4)] a(3) x f(1) by auto
    moreover have "load m1 x k = load m x k"
      using a(2) mp(1) by (intro load_cong) (auto simp: mapped_def)
    ultimately show ?thesis by simp
  qed
  then show ?thesis using f new fresh by (auto simp: free_def)
qed

theorem malloc_free_roundtrip_witness:
  "\<exists>p m1 w1 m2 w2. malloc bump_libc 4 (\<lambda>_. None) (5, []) = Some (p, m1, w1) \<and> p \<noteq> NULL \<and>
     free bump_libc p m1 w1 = Some (m2, w2) \<and> snd w2 = []"
proof -
  have inv: "heap_inv bump_libc (\<lambda>w. set (snd w)) bump_rt (\<lambda>_. None) (5, [])"
    by (rule bump_heap_inv) auto
  obtain p m1 w1 where mal: "malloc bump_libc 4 (\<lambda>_. None) (5, []) = Some (p, m1, w1)" "p \<noteq> NULL"
    using bump_malloc_example by blast
  from malloc_free_roundtrip[OF inv _ _ mal]
  obtain m2 w2 where "free bump_libc p m1 w1 = Some (m2, w2)" "set (snd w2) = {}" by auto
  with mal show ?thesis by (auto simp del: split_paired_Ex)
qed

text \<open>C3. \<open>realloc\<close> of a live block to a size that leaves room for the header keeps the data: a size
  that fits returns the same pointer with nothing changed. For a larger one it returns what \<open>malloc\<close>
  returns for the new size: a block that starts with the old contents, or \<open>NULL\<close> when there is no
  memory. In both cases the old block is released: exactly the block of the runtime that holds it is
  handed back, it is live no more, and every other block is kept with its contents.\<close>

theorem realloc_keeps_data:
  assumes "heap_inv d live rt m w" "malloc_block live m w p k" "load m p k = Some bs"
    "0 < unat n" "unat n + 31 < 2 ^ 64"
  shows "(unat n \<le> k \<longrightarrow> realloc d p n m w = Some (p, m, w)) \<and>
    (k < unat n \<longrightarrow> (\<exists>p' m1 w1 m' w'. malloc d n m w = Some (p', m1, w1) \<and>
      realloc d p n m w = Some (p', m', w') \<and> heap_inv d live rt m' w' \<and>
      (p' \<noteq> NULL \<longrightarrow> malloc_block live m' w' p' (unat n) \<and> load m' p' k = Some bs \<and> p' \<noteq> p) \<and>
      (\<exists>q N. (q, N) \<in> live w1 \<and> q \<le> p \<and> p + k \<le> q + N \<and> live w' = live w1 - {(q, N)}) \<and>
      (\<forall>l. \<not> malloc_block live m' w' p l) \<and>
      (\<forall>q l. malloc_block live m w q l \<longrightarrow> q \<noteq> p \<longrightarrow> malloc_block live m' w' q l \<and> load m' q l = load m q l)))"
proof (intro conjI impI)
  assume "unat n \<le> k"
  with assms(2,4) show "realloc d p n m w = Some (p, m, w)" by (intro realloc_fits)
next
  assume lt: "k < unat n"
  obtain p' m1 w1 where mal: "malloc d n m w = Some (p', m1, w1)"
    using malloc_contract[OF assms(1,4,5)] by blast
  obtain m' w' where "realloc d p n m w = Some (p', m', w') \<and> heap_inv d live rt m' w' \<and>
      (p' \<noteq> NULL \<longrightarrow> malloc_block live m' w' p' (unat n) \<and> load m' p' k = Some bs \<and> p' \<noteq> p) \<and>
      (\<exists>q N. (q, N) \<in> live w1 \<and> q \<le> p \<and> p + k \<le> q + N \<and> live w' = live w1 - {(q, N)}) \<and>
      (\<forall>l. \<not> malloc_block live m' w' p l) \<and>
      (\<forall>q l. malloc_block live m w q l \<longrightarrow> q \<noteq> p \<longrightarrow> malloc_block live m' w' q l \<and> load m' q l = load m q l)"
    using realloc_grow[OF assms(1-3) lt assms(5) mal] by (elim exE)
  with mal show "\<exists>p' m1 w1 m' w'. malloc d n m w = Some (p', m1, w1) \<and>
      realloc d p n m w = Some (p', m', w') \<and> heap_inv d live rt m' w' \<and>
      (p' \<noteq> NULL \<longrightarrow> malloc_block live m' w' p' (unat n) \<and> load m' p' k = Some bs \<and> p' \<noteq> p) \<and>
      (\<exists>q N. (q, N) \<in> live w1 \<and> q \<le> p \<and> p + k \<le> q + N \<and> live w' = live w1 - {(q, N)}) \<and>
      (\<forall>l. \<not> malloc_block live m' w' p l) \<and>
      (\<forall>q l. malloc_block live m w q l \<longrightarrow> q \<noteq> p \<longrightarrow> malloc_block live m' w' q l \<and> load m' q l = load m q l)"
    by (intro exI[of _ p'] exI[of _ m1] exI[of _ w1] exI[of _ m'] exI[of _ w'] conjI[OF mal])
qed

theorem realloc_keeps_data_witness:
  "\<exists>p m w. malloc_block (\<lambda>w. set (snd w)) m w p 4 \<and>
     (\<exists>p' m' w'. realloc bump_libc p 40 m w = Some (p', m', w') \<and> heap_inv bump_libc (\<lambda>w. set (snd w)) bump_rt m' w' \<and>
        (\<forall>l. \<not> malloc_block (\<lambda>w. set (snd w)) m' w' p l))"
proof -
  let ?live = "\<lambda>w :: bump. set (snd w)"
  obtain p m w where mal: "heap_inv bump_libc ?live bump_rt m w" and b: "malloc_block ?live m w p 4"
    using bump_malloc_example by blast
  then obtain bs where "load m p 4 = Some bs"
    using heap.block_mapped[OF mal b] by (auto simp: mapped_iff_load)
  from realloc_keeps_data[OF mal b this, of 40]
  have "\<exists>p' m' w'. realloc bump_libc p 40 m w = Some (p', m', w') \<and> heap_inv bump_libc ?live bump_rt m' w' \<and>
      (\<forall>l. \<not> malloc_block ?live m' w' p l)"
    by (auto simp del: split_paired_Ex)
  with b show ?thesis by blast
qed

text \<open>\<open>calloc\<close> detects every product that exceeds 64 bits and returns \<open>NULL\<close> with nothing allocated.
  Otherwise, when the allocation succeeds, it returns a live block of the product's size that
  holds only zeros. When the allocation fails the code goes on to clear memory at \<open>NULL\<close>, which
  is undefined.\<close>

theorem calloc_zeroes:
  assumes "heap_inv d live rt m w" "0 < unat num" "0 < unat sz"
  shows "(2 ^ 64 \<le> unat num * unat sz \<longrightarrow> calloc d num sz m w = Some (NULL, m, w)) \<and>
    (unat num * unat sz + 31 < 2 ^ 64 \<longrightarrow>
      (\<exists>p m1 w1. malloc d (num * sz) m w = Some (p, m1, w1) \<and>
        (if p = NULL then m NULL = None \<longrightarrow> calloc d num sz m w = None
         else \<exists>m'. calloc d num sz m w = Some (p, m', w1) \<and> heap_inv d live rt m' w1 \<and>
           malloc_block live m' w1 p (unat num * unat sz) \<and>
           load m' p (unat num * unat sz) = Some (replicate (unat num * unat sz) 0))))"
proof (intro conjI impI)
  have sz: "sz \<noteq> 0" using assms(3) by auto
  show "calloc d num sz m w = Some (NULL, m, w)" if "2 ^ 64 \<le> unat num * unat sz"
  proof -
    have "\<not> num = num * sz div sz" unfolding calloc_check[OF sz] using that by simp
    then show ?thesis by (simp add: calloc_def Let_def)
  qed
  assume len: "unat num * unat sz + 31 < 2 ^ 64"
  define k where "k = unat num * unat sz"
  have un: "unat (num * sz) = k" using len unat_mult_lem[of num sz] by (simp add: k_def)
  have k: "0 < k" "k + 31 < 2 ^ 64" using assms(2,3) len by (simp_all add: k_def)
  obtain p m1 w1 where mal: "malloc d (num * sz) m w = Some (p, m1, w1)" "p = NULL \<longrightarrow> m1 = m"
    using malloc_contract[OF assms(1), of "num * sz"] k unfolding un by (auto split: if_splits)
  show "\<exists>p m1 w1. malloc d (num * sz) m w = Some (p, m1, w1) \<and>
        (if p = NULL then m NULL = None \<longrightarrow> calloc d num sz m w = None
         else \<exists>m'. calloc d num sz m w = Some (p, m', w1) \<and> heap_inv d live rt m' w1 \<and>
           malloc_block live m' w1 p (unat num * unat sz) \<and>
           load m' p (unat num * unat sz) = Some (replicate (unat num * unat sz) 0))"
  proof (cases "p = NULL")
    case True
    have "memset_loop m NULL 0 k = None" if "m NULL = None"
      using that k(1) by (cases k) auto
    then show ?thesis
      using True mal assms(3) len by (auto simp: calloc_unfold memset_def simp flip: k_def)
  next
    case False
    then show ?thesis
      unfolding k_def[symmetric] using calloc_fills[OF assms(1) k_def k mal(1)] mal(1)
      by (intro exI[of _ p] exI[of _ m1] exI[of _ w1]) auto
  qed
qed

theorem calloc_zeroes_witness:
  "calloc bump_libc (2 ^ 32) (2 ^ 32) (\<lambda>_. None) (5, []) = Some (NULL, \<lambda>_. None, (5, []))"
proof -
  have "heap_inv bump_libc (\<lambda>w. set (snd w)) bump_rt (\<lambda>_. None) (5, [])"
    by (rule bump_heap_inv) auto
  from calloc_zeroes[OF this, of "2 ^ 32" "2 ^ 32"] show ?thesis by simp
qed

text \<open>\<open>strdup\<close> returns \<open>NULL\<close> or a new block that holds exactly a copy of the string, \<open>strndup\<close> a
  copy of at most its first \<open>n\<close> characters; the argument is unchanged and the heap in order.\<close>

theorem strdup_copies:
  assumes "heap_inv d live rt m w" "cstr m s str" "length str + 32 < 2 ^ 64"
  shows "(\<exists>p m' w'. strdup d s m w = Some (p, m', w') \<and> heap_inv d live rt m' w' \<and> cstr m' s str \<and>
      (p = NULL \<and> m' = m \<or> cstr m' p str \<and> malloc_block live m' w' p (Suc (length str)))) \<and>
    (\<exists>p m' w'. strndup d s n m w = Some (p, m', w') \<and> heap_inv d live rt m' w' \<and> cstr m' s str \<and>
      (p = NULL \<and> m' = m \<or> cstr m' p (take n str) \<and> malloc_block live m' w' p (Suc (min n (length str)))))"
  by (rule conjI[OF strdup_exact[OF assms] strndup_exact[OF assms]])

theorem strdup_copies_witness:
  "\<exists>p m' w'. strdup bump_libc 8 (string_at 8 ''hi'') (100, []) = Some (p, m', w') \<and>
     (p = NULL \<or> cstr m' p (lit ''hi''))"
proof -
  have "heap_inv bump_libc (\<lambda>w. set (snd w)) bump_rt (string_at 8 ''hi'') (100, [])"
    by (rule bump_heap_inv) (auto simp: string_at_def bytes_at_def store_def split: if_splits)
  from strdup_copies[OF this cstr_string_at[of "''hi''" 8], of 0] show ?thesis by auto
qed

text \<open>A request close to the top of the address space wraps around: for the largest size \<open>malloc\<close>
  asks the runtime for 30 bytes only, and for a size of 2^64 - 31 it asks for none, against the
  runtime's contract that the size is positive.\<close>

theorem malloc_size_wraps:
  assumes "sysdeps d = Some sd" "sys_malloc sd 30 m w = (NULL, m1, w1)" "sys_malloc sd 0 m w = (NULL, m0, w0)"
  shows "malloc d (- 1) m w = Some (NULL, m1, w1) \<and> malloc d (- 31) m w = Some (NULL, m0, w0)"
  using assms by (simp add: malloc_def pad_for_alignment_def NNLC_MALLOC_ALIGNMENT_def sizeof_malloc_block_def Let_def)

theorem malloc_size_wraps_witness:
  "malloc bump_libc (- 1) (\<lambda>_. None) (2 ^ 64 + 1, []) = Some (NULL, \<lambda>_. None, (2 ^ 64 + 1, []))"
  using malloc_size_wraps[OF bump_sysdeps_of, of "\<lambda>_. None" "(2 ^ 64 + 1, [])" "\<lambda>_. None" "(2 ^ 64 + 1, [])"
      "\<lambda>_. None" "(2 ^ 64 + 1, [])"]
  by (simp add: bump_sysdeps_def bump_malloc_def)

end
