(* ===== verification/Time.thy ===== *)
theory Time
  imports Stdlib
begin

text \<open>
  \<open>c/time.c\<close> and the inline functions of \<open>c/include/sys/time.h\<close>, with the warn-once helper of
  \<open>c/nostd/google_warn.h\<close> that they use. \<open>time_t\<close>, \<open>suseconds_t\<close> and \<open>long\<close> values are \<open>int\<close>s,
  converted from the hook's unsigned words as the assignments do. A pointer argument that may be
  \<open>NULL\<close> is a flag, and what is stored through it is part of the result (\<open>None\<close> when nothing is).
\<close>

section \<open>Warnings\<close>

text \<open>\<open>here\<close> is the function's name, the line and the message of the call site, \<open>warned\<close> its static flag,
  whose new value is returned.\<close>

definition warn_format :: "u8 list" where
  "warn_format = lit ''WARNING[%s (line %u)]: %s'' @ [10]"

definition ggl_warn_once ::
  "formatter \<Rightarrow> 'w nnlc_internal_data \<Rightarrow> mem \<Rightarrow> bool \<Rightarrow> ptr \<times> int \<times> ptr \<Rightarrow> 'w \<Rightarrow> (bool, 'w) outcome" where
  "ggl_warn_once tfp d m warned here w =
     (let (fctname, line, msg) = here in
      if \<not> warned then
        andthen (fprintf tfp m (Some (libc_stderr d)) warn_format [va_ptr fctname, va_int line, va_ptr msg] w)
          (\<lambda>_ w. Returns True w)
      else Returns True w)"

section \<open>Clocks\<close>

record timespec =
  ts_sec :: int
  ts_nsec :: int

record timeval =
  tv_sec :: int
  tv_usec :: int

definition CLOCK_REALTIME :: nat where "CLOCK_REALTIME = 0"
definition CLOCK_MONOTONIC :: nat where "CLOCK_MONOTONIC = 1"

text \<open>The result of \<open>time\<close> and the value stored through \<open>t\<close>.\<close>

definition time :: "'w nnlc_internal_data \<Rightarrow> bool \<Rightarrow> 'w \<Rightarrow> ((int \<times> int option) \<times> 'w) option" where
  "time d t_null w = do {
     sd \<leftarrow> sysdeps d;
     let ((rv, s, ns), w) = sys_gettime_wall sd w;
     if rv \<noteq> 0 then Some ((-1, None), w)
     else Some ((sint s, if t_null then None else Some (sint s)), w) }"

definition clock_gettime ::
  "formatter \<Rightarrow> 'w nnlc_internal_data \<Rightarrow> mem \<Rightarrow> bool \<Rightarrow> ptr \<times> int \<times> ptr \<Rightarrow> nat \<Rightarrow> bool \<Rightarrow> 'w
    \<Rightarrow> (int \<times> timespec option \<times> bool, 'w) outcome" where
  "clock_gettime tfp d m warned here clk_id tp_null w =
     (let rv = -1 in
      if tp_null then Returns (rv, None, warned) w
      else
        let store = (\<lambda>(rv, s, ns) w.
          if rv \<noteq> 0 then Returns (rv, None, warned) w
          else Returns (0, Some \<lparr> ts_sec = sint (s :: u64), ts_nsec = sint (ns :: u64) \<rparr>, warned) w) in
        if clk_id = CLOCK_MONOTONIC then
          (case sysdeps d of None \<Rightarrow> Faults
           | Some sd \<Rightarrow> (let (r, w) = sys_gettime_monotonic sd w in store r w))
        else if clk_id = CLOCK_REALTIME then
          (case sysdeps d of None \<Rightarrow> Faults
           | Some sd \<Rightarrow> (let (r, w) = sys_gettime_wall sd w in store r w))
        else andthen (ggl_warn_once tfp d m warned here w) (\<lambda>warned w. Returns (rv, None, warned) w))"

definition gettimeofday ::
  "formatter \<Rightarrow> 'w nnlc_internal_data \<Rightarrow> mem \<Rightarrow> bool \<Rightarrow> ptr \<times> int \<times> ptr \<Rightarrow> bool \<Rightarrow> bool \<Rightarrow> 'w
    \<Rightarrow> (int \<times> timeval option \<times> bool, 'w) outcome" where
  "gettimeofday tfp d m warned here tv_null tz_null w =
     (case sysdeps d of
        None \<Rightarrow> Faults
      | Some sd \<Rightarrow>
          (let ((rv, s, ns), w) = sys_gettime_wall sd w in
           if rv \<noteq> 0 then Returns (rv, None, warned) w
           else
             let tv = (if tv_null then None else Some \<lparr> tv_sec = sint s, tv_usec = sint (ns div 1000) \<rparr>) in
             if \<not> tz_null then
               andthen (ggl_warn_once tfp d m warned here w) (\<lambda>warned w. Returns (-1, tv, warned) w)
             else Returns (0, tv, warned) w))"

section \<open>Arithmetic on \<open>timeval\<close>\<close>

definition GGL_USECS_PER_SEC :: int where "GGL_USECS_PER_SEC = 1000000"

definition timeradd :: "timeval \<Rightarrow> timeval \<Rightarrow> timeval" where
  "timeradd a b =
     (let res = \<lparr> tv_sec = tv_sec a + tv_sec b, tv_usec = tv_usec a + tv_usec b \<rparr> in
      if tv_usec res \<ge> GGL_USECS_PER_SEC
      then \<lparr> tv_sec = tv_sec res + 1, tv_usec = tv_usec res - GGL_USECS_PER_SEC \<rparr>
      else res)"

definition timersub :: "timeval \<Rightarrow> timeval \<Rightarrow> timeval" where
  "timersub a b =
     (let res = \<lparr> tv_sec = tv_sec a - tv_sec b, tv_usec = tv_usec a - tv_usec b \<rparr> in
      if tv_usec res < 0
      then \<lparr> tv_sec = tv_sec res - 1, tv_usec = tv_usec res + GGL_USECS_PER_SEC \<rparr>
      else res)"

definition timercmp :: "timeval \<Rightarrow> timeval \<Rightarrow> (int \<Rightarrow> int \<Rightarrow> bool) \<Rightarrow> bool" where
  "timercmp a b CMP = (if tv_sec a = tv_sec b then CMP (tv_usec a) (tv_usec b) else CMP (tv_sec a) (tv_sec b))"

section \<open>Properties\<close>

definition normalized :: "timeval \<Rightarrow> bool" where
  "normalized a \<longleftrightarrow> 0 \<le> tv_usec a \<and> tv_usec a < 1000000"

text \<open>The microseconds a \<open>timeval\<close> stands for.\<close>

definition usecs :: "timeval \<Rightarrow> int" where
  "usecs a = tv_sec a * 1000000 + tv_usec a"

text \<open>On normalized values, \<open>timeradd\<close> and \<open>timersub\<close> return the normalized sum and difference, each
  undoes the other, and \<open>timercmp\<close> with a comparison operator compares the times.\<close>

theorem timeval_arithmetic:
  assumes "normalized a" "normalized b"
  shows "normalized (timeradd a b) \<and> usecs (timeradd a b) = usecs a + usecs b \<and>
    normalized (timersub a b) \<and> usecs (timersub a b) = usecs a - usecs b \<and>
    timersub (timeradd a b) b = a \<and> timeradd (timersub a b) b = a \<and>
    (timercmp a b (<) \<longleftrightarrow> usecs a < usecs b) \<and> (timercmp a b (=) \<longleftrightarrow> a = b) \<and>
    (timercmp a b (\<ge>) \<longleftrightarrow> usecs a \<ge> usecs b)"
  using assms
  by (cases a; cases b)
    (auto simp: normalized_def usecs_def timeradd_def timersub_def timercmp_def GGL_USECS_PER_SEC_def Let_def)

theorem timeval_arithmetic_witness:
  "timersub (timeradd \<lparr> tv_sec = 1, tv_usec = 999999 \<rparr> \<lparr> tv_sec = 2, tv_usec = 1 \<rparr>) \<lparr> tv_sec = 2, tv_usec = 1 \<rparr> =
   \<lparr> tv_sec = 1, tv_usec = 999999 \<rparr>"
  using timeval_arithmetic[of "\<lparr> tv_sec = 1, tv_usec = 999999 \<rparr>" "\<lparr> tv_sec = 2, tv_usec = 1 \<rparr>"]
  by (simp add: normalized_def)

text \<open>The three ways to read the wall clock agree: when the hook answers with seconds and
  nanoseconds in range, \<open>time\<close>, \<open>clock_gettime(CLOCK_REALTIME)\<close> and \<open>gettimeofday\<close> give the same
  instant, cut to their resolution and normalized; when the hook fails, all fail and store
  nothing. \<open>gettimeofday\<close> with a time zone fails after storing the time.\<close>

theorem wall_clocks_agree:
  assumes "sysdeps d = Some sd" "sys_gettime_wall sd w = ((rv, s, ns), w')" "s < 2 ^ 63" "ns < 1000000000"
  shows "(if rv = 0 then
      time d False w = Some ((int (unat s), Some (int (unat s))), w') \<and>
      (\<exists>tv. gettimeofday tfp d m warned here False True w = Returns (0, Some tv, warned) w' \<and> normalized tv \<and>
        clock_gettime tfp d m warned here CLOCK_REALTIME False w =
          Returns (0, Some \<lparr> ts_sec = int (unat s), ts_nsec = int (unat ns) \<rparr>, warned) w' \<and>
        tv_sec tv = int (unat s) \<and> tv_usec tv = int (unat ns) div 1000) \<and>
      (\<exists>r w''. gettimeofday tfp d m warned here False False w = Returns r w'' \<and> fst r = -1 \<and> fst (snd r) \<noteq> None)
    else
      time d False w = Some ((-1, None), w') \<and>
      gettimeofday tfp d m warned here False True w = Returns (rv, None, warned) w' \<and>
      clock_gettime tfp d m warned here CLOCK_REALTIME False w = Returns (rv, None, warned) w')"
proof -
  have s: "sint s = int (unat s)"
    using sint_u64_uint[of s] assms(3) by (simp add: word_less_def)
  have u: "uint ns < 1000000000" using assms(4) by (simp add: word_less_def)
  have n: "sint ns = int (unat ns)"
    using sint_u64_uint[of ns] u by simp
  have "uint (ns div 1000) = uint ns div 1000" by (simp add: uint_div_distrib)
  then have k: "sint (ns div 1000) = int (unat ns) div 1000"
    using sint_u64_uint[of "ns div 1000"] u by simp
  have "\<exists>r w''. gettimeofday tfp d m warned here False False w = Returns r w'' \<and> fst r = -1 \<and> fst (snd r) \<noteq> None"
    if "rv = 0"
  proof -
    obtain fct line msg where h: "here = (fct, line, msg)" by (cases here)
    obtain r w1 where "fprintf tfp m (Some (libc_stderr d)) warn_format [va_ptr fct, va_int line, va_ptr msg] w' =
        Returns r w1" using fprintf_Returns by metis
    then show ?thesis using assms(1,2) that h by (cases warned) (simp_all add: gettimeofday_def ggl_warn_once_def)
  qed
  moreover have "0 \<le> uint ns div 1000" by (simp add: pos_imp_zdiv_nonneg_iff)
  ultimately show ?thesis
    using assms(1,2) u by (auto simp: time_def gettimeofday_def clock_gettime_def CLOCK_REALTIME_def
        CLOCK_MONOTONIC_def normalized_def s n k)
qed

theorem wall_clocks_agree_witness:
  "\<exists>d w. time d False w = Some ((12, Some 12), w :: unit)"
proof -
  define sd where "sd = \<lparr> sys_malloc = (\<lambda>n m w. (NULL, m, w)), sys_free = (\<lambda>p m w. (m, w)),
    sys_write_stdout = (\<lambda>bs w. (int (length bs), w)), sys_write_stderr = (\<lambda>bs w. (int (length bs), w)),
    sys_exit = (\<lambda>i w. (True, w)), sys_usleep = (\<lambda>u w. (0, w)), sys_gettime_monotonic = (\<lambda>w. ((0, 0, 0), w)),
    sys_gettime_wall = (\<lambda>w :: unit. ((0, 12, 345), w)) \<rparr>"
  define d where "d = snd (nnlc_initialize sd nnlc_internal_data0)"
  have "sysdeps d = Some sd" "sys_gettime_wall sd () = ((0, 12, 345), ())"
    by (simp_all add: d_def nnlc_initialize_def Let_def) (simp add: sd_def)
  from wall_clocks_agree[OF this, of _ _ False "(0, 0, 0)"]
  have "time d False () = Some ((12, Some 12), ())" by auto
  then show ?thesis by blast
qed

end
