(* ===== verification/Inet.thy ===== *)
theory Inet
  imports Stdio Strtox
begin

text \<open>
  \<open>c/inet.c\<close>: \<open>inet_ntop\<close> on IPv4 addresses, over \<open>snprintf\<close>. That the formatter prints a small
  non-negative \<open>int\<close> in decimal for \<open>%d\<close> is documented behaviour of code that is not part of the
  repository, stated as \<open>prints_dotted\<close>.
\<close>

section \<open>The code\<close>

definition AF_INET :: int where "AF_INET = 2"
definition INET_ADDRSTRLEN :: int where "INET_ADDRSTRLEN = 16"

definition dotted_format :: "u8 list" where
  "dotted_format = lit ''%d.%d.%d.%d''"

definition inet_ntop ::
  "formatter \<Rightarrow> mem \<Rightarrow> int \<Rightarrow> ptr \<Rightarrow> ptr \<Rightarrow> int \<Rightarrow> (ptr \<times> mem) option" where
  "inet_ntop tfp m af src dst sz =
     (if AF_INET = af then
        if sz < INET_ADDRSTRLEN then Some (NULL, m)
        else do {
          a0 \<leftarrow> m src; a1 \<leftarrow> m (src + 1); a2 \<leftarrow> m (src + 2); a3 \<leftarrow> m (src + 3);
          (r, m') \<leftarrow> snprintf tfp m dst (nat sz) dotted_format
            [va_int (uint a0 AND 0xff), va_int (uint a1 AND 0xff), va_int (uint a2 AND 0xff), va_int (uint a3 AND 0xff)];
          Some (dst, m') }
      else Some (NULL, m))"

section \<open>Dotted addresses\<close>

definition dotted :: "u8 list \<Rightarrow> u8 list" where
  "dotted a = dec (unat (a ! 0)) @ lit ''.'' @ dec (unat (a ! 1)) @ lit ''.'' @ dec (unat (a ! 2)) @ lit ''.'' @ dec (unat (a ! 3))"

definition prints_dotted :: "formatter \<Rightarrow> bool" where
  "prints_dotted tfp \<longleftrightarrow> (\<forall>m a b c d. a < 256 \<longrightarrow> b < 256 \<longrightarrow> c < 256 \<longrightarrow> d < 256 \<longrightarrow>
     tfp m dotted_format [va_int (int a), va_int (int b), va_int (int c), va_int (int d)] =
       dec a @ lit ''.'' @ dec b @ lit ''.'' @ dec c @ lit ''.'' @ dec d)"

lemma unat_u8_bound: "unat (x :: u8) < 256"
  using unsigned_less[of x, where 'a = nat] by simp

lemma low_byte: "uint (x :: u8) AND 0xff = int (unat x)"
proof -
  have "uint x AND 0xff = take_bit 8 (uint x)" by (simp add: take_bit_eq_mask mask_eq_exp_minus_1)
  also have "\<dots> = uint x" using uint_u8_bounds[of x] by (intro take_bit_int_eq_self) auto
  finally show ?thesis by simp
qed

lemma dec_short: "n < 256 \<Longrightarrow> length (dec n) \<le> 3"
proof -
  assume n: "n < 256"
  have "length (dec k) \<le> 1" if "k < 10" for k using that by (simp add: dec.simps[of k])
  then have "length (dec k) \<le> 2" if "k < 100" for k using that by (simp add: dec.simps[of k])
  then show ?thesis using n by (simp add: dec.simps[of n])
qed

lemma length_dotted: "length (dotted a) \<le> 15"
proof -
  have "length (dec (unat (x :: u8))) \<le> 3" for x by (rule dec_short) (rule unat_u8_bound)
  from this[of "a ! 0"] this[of "a ! 1"] this[of "a ! 2"] this[of "a ! 3"]
  show ?thesis by (simp add: dotted_def)
qed

lemma dec_no_dot: "of_char (CHR ''.'') \<notin> set (dec n)" "0 \<notin> set (dec n)"
  using dec_chars[of _ n] by fastforce+

lemma dotted_no_nul: "0 \<notin> set (dotted a)"
  using dec_no_dot(2) by (simp add: dotted_def)

lemma dec_inject: "dec i = dec j \<longleftrightarrow> i = j"
  using dec_value[of i] dec_value[of j] by (metis of_nat_eq_iff)

lemma split_dot:
  "c \<notin> set xs \<Longrightarrow> c \<notin> set xs' \<Longrightarrow> xs @ c # ys = xs' @ c # ys' \<longleftrightarrow> xs = xs' \<and> ys = ys'"
  by (induction xs arbitrary: xs'; case_tac xs') auto

lemma dotted_inject:
  assumes "length a = 4" "length b = 4" "dotted a = dotted b"
  shows "a = b"
proof -
  have nd: "46 \<notin> set (dec n)" for n using dec_no_dot(1)[of n] by simp
  have "unat (a ! 0) = unat (b ! 0) \<and> unat (a ! 1) = unat (b ! 1) \<and> unat (a ! 2) = unat (b ! 2) \<and>
      unat (a ! 3) = unat (b ! 3)"
    using assms(3) by (simp add: dotted_def split_dot nd dec_inject del: dec.simps)
  then have "a ! 0 = b ! 0 \<and> a ! 1 = b ! 1 \<and> a ! 2 = b ! 2 \<and> a ! 3 = b ! 3" by (simp add: word_unat_eq_iff)
  then show ?thesis using assms(1,2) by (auto simp: length_Suc_conv numeral_eq_Suc)
qed

text \<open>A formatter for this one format.\<close>

definition example_formatter :: formatter where
  "example_formatter m fmt args =
     (case args of
        [va_int a, va_int b, va_int c, va_int d] \<Rightarrow>
          dec (nat a) @ lit ''.'' @ dec (nat b) @ lit ''.'' @ dec (nat c) @ lit ''.'' @ dec (nat d)
      | _ \<Rightarrow> [])"

text \<open>\<open>inet_ntop\<close> of an IPv4 address into a buffer of at least \<open>INET_ADDRSTRLEN\<close> bytes writes the
  address in dotted decimal, whole and terminated, at most 16 bytes of the buffer, and returns it;
  different addresses have different texts. With a smaller buffer or another address family it
  returns \<open>NULL\<close> and writes nothing.\<close>

theorem inet_ntop_dotted:
  assumes "prints_dotted tfp" "load m src 4 = Some a" "mapped m dst (nat sz)"
  shows "if af = 2 \<and> 16 \<le> sz
    then \<exists>m'. inet_ntop tfp m af src dst sz = Some (dst, m') \<and> cstr m' dst (dotted a) \<and>
      (\<forall>q. q < dst \<or> dst + 16 \<le> q \<longrightarrow> m' q = m q) \<and> (\<forall>b. length b = 4 \<longrightarrow> dotted a = dotted b \<longrightarrow> a = b)
    else inet_ntop tfp m af src dst sz = Some (NULL, m)"
proof (cases "af = 2 \<and> 16 \<le> sz")
  case True
  have nth: "m (src + i) = Some (a ! i)" if "i < 4" for i using assms(2) that by (simp add: load_iff)
  have a: "m src = Some (a ! 0)" "m (src + 1) = Some (a ! 1)" "m (src + 2) = Some (a ! 2)" "m (src + 3) = Some (a ! 3)"
    "length a = 4"
    using nth[of 0] nth[of 1] nth[of 2] nth[of 3] assms(2) by (simp_all add: load_iff del: add_2_eq_Suc')
  have t: "tfp m dotted_format [va_int (uint (a ! 0) AND 0xff), va_int (uint (a ! 1) AND 0xff),
      va_int (uint (a ! 2) AND 0xff), va_int (uint (a ! 3) AND 0xff)] = dotted a"
    unfolding low_byte using assms(1) unat_u8_bound unfolding prints_dotted_def dotted_def by blast
  have len: "length (dotted a) < nat sz" "0 < nat sz" using length_dotted[of a] True by linarith+
  have "snprintf tfp m dst (nat sz) dotted_format [va_int (uint (a ! 0) AND 0xff), va_int (uint (a ! 1) AND 0xff),
      va_int (uint (a ! 2) AND 0xff), va_int (uint (a ! 3) AND 0xff)] =
      Some (to_int (int (length (dotted a))), store m dst (dotted a @ [0]))"
    using vsnprintf_exact[OF assms(3), of "dotted a" tfp dotted_format, OF t[symmetric]] len
    by (simp add: snprintf_def)
  then have r: "inet_ntop tfp m af src dst sz = Some (dst, store m dst (dotted a @ [0]))"
    using True a(1-4) by (simp add: inet_ntop_def AF_INET_def INET_ADDRSTRLEN_def)
  have "store m dst (dotted a @ [0]) q = m q" if "q < dst \<or> dst + 16 \<le> q" for q
    using that length_dotted[of a] by (intro store_outside) auto
  then show ?thesis
    using True r cstr_store_same[OF dotted_no_nul[of a], of m dst] dotted_inject[OF a(5)] by auto
qed (auto simp: inet_ntop_def AF_INET_def INET_ADDRSTRLEN_def)

theorem inet_ntop_dotted_witness:
  "\<exists>m'. inet_ntop example_formatter (bytes_at 8 ([192, 168, 0, 1] @ replicate 16 1)) 2 8 12 16 = Some (12, m') \<and>
    cstr m' 12 (lit ''192.168.0.1'')"
proof -
  have f: "prints_dotted example_formatter" by (simp add: prints_dotted_def example_formatter_def)
  have l: "load (bytes_at 8 ([192, 168, 0, 1] @ replicate 16 1)) 8 4 = Some [192, 168, 0, 1]" by code_simp
  have "load (bytes_at 8 ([192, 168, 0, 1] @ replicate 16 1)) 12 16 = Some (replicate 16 1)" by code_simp
  then have d: "mapped (bytes_at 8 ([192, 168, 0, 1] @ replicate 16 1)) 12 (nat 16)" by (auto simp: mapped_iff_load)
  have t: "dotted [192, 168, 0, 1] = lit ''192.168.0.1''" by code_simp
  show ?thesis using inet_ntop_dotted[OF f l d, of 2] unfolding t by (auto simp del: cstr.simps)
qed

end
