(* ===== verification/Math.thy ===== *)
theory Math
  imports Main
begin

text \<open>
  The inline functions of \<open>c/include/math.h\<close>. A floating-point value is \<open>NaN\<close> or a number; the
  functions only compare and negate, which is exact on finite values, so numbers come from any
  ordered domain. The \<open>float\<close>, \<open>double\<close> and \<open>long double\<close> variants share their text.
\<close>

datatype 'a cfloat = NaN | Num 'a

fun flt_ge0 :: "'a::linordered_idom cfloat \<Rightarrow> bool" where
  "flt_ge0 NaN = False"
| "flt_ge0 (Num x) = (x \<ge> 0)"

fun flt_neg :: "'a::linordered_idom cfloat \<Rightarrow> 'a cfloat" where
  "flt_neg NaN = NaN"
| "flt_neg (Num x) = Num (- x)"

text \<open>\<open>x != x\<close>: an unordered comparison is true.\<close>

fun flt_ne :: "'a cfloat \<Rightarrow> 'a cfloat \<Rightarrow> bool" where
  "flt_ne (Num x) (Num y) = (x \<noteq> y)"
| "flt_ne _ _ = True"

definition isnan :: "'a cfloat \<Rightarrow> bool" where
  "isnan x = flt_ne x x"

definition signbit :: "'a::linordered_idom cfloat \<Rightarrow> int" where
  "signbit x = (if flt_ge0 x then 1 else 0)"

definition copysignf :: "'a::linordered_idom cfloat \<Rightarrow> 'a cfloat \<Rightarrow> 'a cfloat" where
  "copysignf x y = (if flt_ge0 y then x else flt_neg x)"

definition copysign :: "'a::linordered_idom cfloat \<Rightarrow> 'a cfloat \<Rightarrow> 'a cfloat" where
  "copysign x y = (if flt_ge0 y then x else flt_neg x)"

definition copysignl :: "'a::linordered_idom cfloat \<Rightarrow> 'a cfloat \<Rightarrow> 'a cfloat" where
  "copysignl x y = (if flt_ge0 y then x else flt_neg x)"

definition fabsf :: "'a::linordered_idom cfloat \<Rightarrow> 'a cfloat" where
  "fabsf value = (if flt_ge0 value then value else flt_neg value)"

definition fabs :: "'a::linordered_idom cfloat \<Rightarrow> 'a cfloat" where
  "fabs value = (if flt_ge0 value then value else flt_neg value)"

text \<open>On finite values \<open>fabs\<close> is the absolute value and \<open>isnan\<close> finds exactly the value that is not
  a number. \<open>signbit\<close> is 1 on the values that are not negative, against the C standard, and
  \<open>copysign\<close> gives the magnitude of its first argument the sign of the second only if the first
  is not negative: it multiplies the signs.\<close>

theorem math_signs:
  "fabs (Num x) = Num \<bar>x\<bar> \<and> fabsf (Num x) = Num \<bar>x\<bar> \<and> (isnan v \<longleftrightarrow> v = NaN) \<and>
   (signbit (Num x) = 1 \<longleftrightarrow> 0 \<le> x) \<and>
   copysign (Num x) (Num y) = Num (if 0 \<le> y then x else - x) \<and>
   (copysign (Num x) (Num y) = Num (if 0 \<le> y then \<bar>x\<bar> else - \<bar>x\<bar>) \<longleftrightarrow> 0 \<le> x)"
  by (cases v) (auto simp: fabs_def fabsf_def isnan_def signbit_def copysign_def)

end
