(* ===== verification/Unsup.thy ===== *)
theory Unsup
  imports Time Math
begin

text \<open>
  \<open>c/unsup.c\<close>: the published functions that are not supported. Each prints a warning on \<open>stderr\<close> the
  first time it is called and returns a failure value; some set \<open>errno\<close>. The arguments are ignored by
  the code, so that the definitions do not take them. The static flag of a warning belongs to its
  call site; a site is named by its line in the source file.
\<close>

section \<open>State\<close>

text \<open>The constants of \<open>c/include/errno.h\<close> that are used.\<close>

definition ENOENT :: int where "ENOENT = 2"
definition EBADF :: int where "EBADF = 9"
definition EINVAL :: int where "EINVAL = 22"
definition EOPNOTSUPP :: int where "EOPNOTSUPP = 95"

text \<open>\<open>errno\<close>, the sites whose flag is set, and the globals of \<open>getopt\<close>.\<close>

record unsup_statics =
  errno :: int
  warned_sites :: "int set"
  optarg :: ptr
  optind :: int
  opterr :: int
  optopt :: int

definition unsup_statics0 :: unsup_statics where
  "unsup_statics0 = \<lparr> errno = 0, warned_sites = {}, optarg = NULL, optind = 1, opterr = 1, optopt = 63 \<rparr>"

text \<open>What the calls work with: the formatter, the library, and the addresses of the string literals,
  which are the name of the function around a site and the message.\<close>

record 'w unsup_env =
  env_tfp :: formatter
  env_libc :: "'w nnlc_internal_data"
  env_mem :: mem
  env_fname :: "int \<Rightarrow> ptr"
  env_msg :: ptr

definition ggl_warn_unsupported ::
  "'w unsup_env \<Rightarrow> int \<Rightarrow> unsup_statics \<Rightarrow> 'w \<Rightarrow> (unsup_statics, 'w) outcome" where
  "ggl_warn_unsupported e line st w =
     andthen (ggl_warn_once (env_tfp e) (env_libc e) (env_mem e) (line \<in> warned_sites st)
                (env_fname e line, line, env_msg e) w)
       (\<lambda>warned w. Returns (if warned then st\<lparr> warned_sites := insert line (warned_sites st) \<rparr> else st) w)"

section \<open>The functions\<close>

definition getenv :: "'w unsup_env \<Rightarrow> unsup_statics \<Rightarrow> 'w \<Rightarrow> (ptr \<times> unsup_statics, 'w) outcome" where
  "getenv e st w = andthen (ggl_warn_unsupported e 38 st w) (\<lambda>st w. Returns (NULL, st) w)"

definition qsort :: "'w unsup_env \<Rightarrow> unsup_statics \<Rightarrow> 'w \<Rightarrow> (unit \<times> unsup_statics, 'w) outcome" where
  "qsort e st w = andthen (ggl_warn_unsupported e 49 st w) (\<lambda>st w. Returns ((), st\<lparr> errno := EINVAL \<rparr>) w)"

definition signal :: "'w unsup_env \<Rightarrow> unsup_statics \<Rightarrow> 'w \<Rightarrow> (ptr \<times> unsup_statics, 'w) outcome" where
  "signal e st w = andthen (ggl_warn_unsupported e 57 st w) (\<lambda>st w. Returns (NULL, st\<lparr> errno := EINVAL \<rparr>) w)"

definition raise :: "'w unsup_env \<Rightarrow> unsup_statics \<Rightarrow> 'w \<Rightarrow> (int \<times> unsup_statics, 'w) outcome" where
  "raise e st w = andthen (ggl_warn_unsupported e 65 st w) (\<lambda>st w. Returns (-1, st) w)"

definition fopen :: "'w unsup_env \<Rightarrow> unsup_statics \<Rightarrow> 'w \<Rightarrow> (ptr \<times> unsup_statics, 'w) outcome" where
  "fopen e st w = andthen (ggl_warn_unsupported e 73 st w) (\<lambda>st w. Returns (NULL, st\<lparr> errno := ENOENT \<rparr>) w)"

definition fclose :: "'w unsup_env \<Rightarrow> unsup_statics \<Rightarrow> 'w \<Rightarrow> (int \<times> unsup_statics, 'w) outcome" where
  "fclose e st w = andthen (ggl_warn_unsupported e 81 st w) (\<lambda>st w. Returns (-1, st\<lparr> errno := EBADF \<rparr>) w)"

definition fread :: "'w unsup_env \<Rightarrow> unsup_statics \<Rightarrow> 'w \<Rightarrow> (int \<times> unsup_statics, 'w) outcome" where
  "fread e st w = andthen (ggl_warn_unsupported e 92 st w) (\<lambda>st w. Returns (0, st) w)"

definition fseek :: "'w unsup_env \<Rightarrow> unsup_statics \<Rightarrow> 'w \<Rightarrow> (int \<times> unsup_statics, 'w) outcome" where
  "fseek e st w = andthen (ggl_warn_unsupported e 101 st w) (\<lambda>st w. Returns (-1, st\<lparr> errno := EBADF \<rparr>) w)"

definition ftell :: "'w unsup_env \<Rightarrow> unsup_statics \<Rightarrow> 'w \<Rightarrow> (int \<times> unsup_statics, 'w) outcome" where
  "ftell e st w = andthen (ggl_warn_unsupported e 109 st w) (\<lambda>st w. Returns (-1, st\<lparr> errno := EBADF \<rparr>) w)"

definition rewind :: "'w unsup_env \<Rightarrow> unsup_statics \<Rightarrow> 'w \<Rightarrow> (unit \<times> unsup_statics, 'w) outcome" where
  "rewind e st w = andthen (ggl_warn_unsupported e 117 st w) (\<lambda>st w. Returns ((), st) w)"

definition sscanf :: "'w unsup_env \<Rightarrow> unsup_statics \<Rightarrow> 'w \<Rightarrow> (int \<times> unsup_statics, 'w) outcome" where
  "sscanf e st w = andthen (ggl_warn_unsupported e 124 st w) (\<lambda>st w. Returns (-1, st) w)"

definition scanf :: "'w unsup_env \<Rightarrow> unsup_statics \<Rightarrow> 'w \<Rightarrow> (int \<times> unsup_statics, 'w) outcome" where
  "scanf e st w = andthen (ggl_warn_unsupported e 131 st w) (\<lambda>st w. Returns (EOF, st\<lparr> errno := EBADF \<rparr>) w)"

definition strtof :: "'w unsup_env \<Rightarrow> unsup_statics \<Rightarrow> 'w \<Rightarrow> (int cfloat \<times> unsup_statics, 'w) outcome" where
  "strtof e st w = andthen (ggl_warn_unsupported e 140 st w) (\<lambda>st w. Returns (Num 0, st\<lparr> errno := EOPNOTSUPP \<rparr>) w)"

definition strtod :: "'w unsup_env \<Rightarrow> unsup_statics \<Rightarrow> 'w \<Rightarrow> (int cfloat \<times> unsup_statics, 'w) outcome" where
  "strtod e st w = andthen (ggl_warn_unsupported e 149 st w) (\<lambda>st w. Returns (Num 0, st\<lparr> errno := EOPNOTSUPP \<rparr>) w)"

definition fgets :: "'w unsup_env \<Rightarrow> unsup_statics \<Rightarrow> 'w \<Rightarrow> (ptr \<times> unsup_statics, 'w) outcome" where
  "fgets e st w = andthen (ggl_warn_unsupported e 159 st w) (\<lambda>st w. Returns (NULL, st) w)"

definition localtime :: "'w unsup_env \<Rightarrow> unsup_statics \<Rightarrow> 'w \<Rightarrow> (ptr \<times> unsup_statics, 'w) outcome" where
  "localtime e st w = andthen (ggl_warn_unsupported e 166 st w) (\<lambda>st w. Returns (NULL, st) w)"

definition isatty :: "'w unsup_env \<Rightarrow> unsup_statics \<Rightarrow> 'w \<Rightarrow> (int \<times> unsup_statics, 'w) outcome" where
  "isatty e st w = andthen (ggl_warn_unsupported e 173 st w) (\<lambda>st w. Returns (0, st\<lparr> errno := EBADF \<rparr>) w)"

definition getopt :: "'w unsup_env \<Rightarrow> unsup_statics \<Rightarrow> 'w \<Rightarrow> (int \<times> unsup_statics, 'w) outcome" where
  "getopt e st w = andthen (ggl_warn_unsupported e 188 st w) (\<lambda>st w. Returns (-1, st\<lparr> optarg := NULL, optind := 1, optopt := 63 \<rparr>) w)"

definition inet_aton :: "'w unsup_env \<Rightarrow> unsup_statics \<Rightarrow> 'w \<Rightarrow> (int \<times> unsup_statics, 'w) outcome" where
  "inet_aton e st w = andthen (ggl_warn_unsupported e 199 st w) (\<lambda>st w. Returns (-1, st) w)"

definition inet_pton :: "'w unsup_env \<Rightarrow> unsup_statics \<Rightarrow> 'w \<Rightarrow> (int \<times> unsup_statics, 'w) outcome" where
  "inet_pton e st w = andthen (ggl_warn_unsupported e 208 st w) (\<lambda>st w. Returns (-1, st) w)"

definition ceilf :: "'w unsup_env \<Rightarrow> unsup_statics \<Rightarrow> 'w \<Rightarrow> (int cfloat \<times> unsup_statics, 'w) outcome" where
  "ceilf e st w = andthen (ggl_warn_unsupported e 214 st w) (\<lambda>st w. Returns (NaN, st) w)"

definition ceil :: "'w unsup_env \<Rightarrow> unsup_statics \<Rightarrow> 'w \<Rightarrow> (int cfloat \<times> unsup_statics, 'w) outcome" where
  "ceil e st w = andthen (ggl_warn_unsupported e 220 st w) (\<lambda>st w. Returns (NaN, st) w)"

definition floorf :: "'w unsup_env \<Rightarrow> unsup_statics \<Rightarrow> 'w \<Rightarrow> (int cfloat \<times> unsup_statics, 'w) outcome" where
  "floorf e st w = andthen (ggl_warn_unsupported e 226 st w) (\<lambda>st w. Returns (NaN, st) w)"

definition floor' :: "'w unsup_env \<Rightarrow> unsup_statics \<Rightarrow> 'w \<Rightarrow> (int cfloat \<times> unsup_statics, 'w) outcome" where
  "floor' e st w = andthen (ggl_warn_unsupported e 232 st w) (\<lambda>st w. Returns (NaN, st) w)"

definition truncf :: "'w unsup_env \<Rightarrow> unsup_statics \<Rightarrow> 'w \<Rightarrow> (int cfloat \<times> unsup_statics, 'w) outcome" where
  "truncf e st w = andthen (ggl_warn_unsupported e 238 st w) (\<lambda>st w. Returns (NaN, st) w)"

definition trunc :: "'w unsup_env \<Rightarrow> unsup_statics \<Rightarrow> 'w \<Rightarrow> (int cfloat \<times> unsup_statics, 'w) outcome" where
  "trunc e st w = andthen (ggl_warn_unsupported e 244 st w) (\<lambda>st w. Returns (NaN, st) w)"

definition sqrtf :: "'w unsup_env \<Rightarrow> unsup_statics \<Rightarrow> 'w \<Rightarrow> (int cfloat \<times> unsup_statics, 'w) outcome" where
  "sqrtf e st w = andthen (ggl_warn_unsupported e 250 st w) (\<lambda>st w. Returns (NaN, st) w)"

definition sqrt' :: "'w unsup_env \<Rightarrow> unsup_statics \<Rightarrow> 'w \<Rightarrow> (int cfloat \<times> unsup_statics, 'w) outcome" where
  "sqrt' e st w = andthen (ggl_warn_unsupported e 256 st w) (\<lambda>st w. Returns (NaN, st) w)"

definition rintf :: "'w unsup_env \<Rightarrow> unsup_statics \<Rightarrow> 'w \<Rightarrow> (int cfloat \<times> unsup_statics, 'w) outcome" where
  "rintf e st w = andthen (ggl_warn_unsupported e 262 st w) (\<lambda>st w. Returns (NaN, st) w)"

definition rint :: "'w unsup_env \<Rightarrow> unsup_statics \<Rightarrow> 'w \<Rightarrow> (int cfloat \<times> unsup_statics, 'w) outcome" where
  "rint e st w = andthen (ggl_warn_unsupported e 268 st w) (\<lambda>st w. Returns (NaN, st) w)"

definition clock :: "'w unsup_env \<Rightarrow> unsup_statics \<Rightarrow> 'w \<Rightarrow> (int \<times> unsup_statics, 'w) outcome" where
  "clock e st w = andthen (ggl_warn_unsupported e 273 st w) (\<lambda>st w. Returns (0, st) w)"

definition read :: "'w unsup_env \<Rightarrow> unsup_statics \<Rightarrow> 'w \<Rightarrow> (int \<times> unsup_statics, 'w) outcome" where
  "read e st w = andthen (ggl_warn_unsupported e 281 st w) (\<lambda>st w. Returns (0, st) w)"

section \<open>Sequences of calls\<close>

datatype unsup_fn =
    Fn_getenv | Fn_qsort | Fn_signal | Fn_raise | Fn_fopen | Fn_fclose
  | Fn_fread | Fn_fseek | Fn_ftell | Fn_rewind | Fn_sscanf | Fn_scanf
  | Fn_strtof | Fn_strtod | Fn_fgets | Fn_localtime | Fn_isatty | Fn_getopt
  | Fn_inet_aton | Fn_inet_pton | Fn_ceilf | Fn_ceil | Fn_floorf | Fn_floor
  | Fn_truncf | Fn_trunc | Fn_sqrtf | Fn_sqrt | Fn_rintf | Fn_rint
  | Fn_clock | Fn_read

datatype unsup_value = V_void | V_ptr ptr | V_int int | V_flt "int cfloat"

definition as_value :: "('a \<Rightarrow> unsup_value) \<Rightarrow> ('a \<times> unsup_statics, 'w) outcome \<Rightarrow> (unsup_value \<times> unsup_statics, 'w) outcome" where
  "as_value f r = andthen r (\<lambda>(x, st) w. Returns (f x, st) w)"

fun unsup_call :: "'w unsup_env \<Rightarrow> unsup_fn \<Rightarrow> unsup_statics \<Rightarrow> 'w \<Rightarrow> (unsup_value \<times> unsup_statics, 'w) outcome" where
  "unsup_call e Fn_getenv st w = as_value V_ptr (getenv e st w)"
| "unsup_call e Fn_qsort st w = as_value (\<lambda>_. V_void) (qsort e st w)"
| "unsup_call e Fn_signal st w = as_value V_ptr (signal e st w)"
| "unsup_call e Fn_raise st w = as_value V_int (raise e st w)"
| "unsup_call e Fn_fopen st w = as_value V_ptr (fopen e st w)"
| "unsup_call e Fn_fclose st w = as_value V_int (fclose e st w)"
| "unsup_call e Fn_fread st w = as_value V_int (fread e st w)"
| "unsup_call e Fn_fseek st w = as_value V_int (fseek e st w)"
| "unsup_call e Fn_ftell st w = as_value V_int (ftell e st w)"
| "unsup_call e Fn_rewind st w = as_value (\<lambda>_. V_void) (rewind e st w)"
| "unsup_call e Fn_sscanf st w = as_value V_int (sscanf e st w)"
| "unsup_call e Fn_scanf st w = as_value V_int (scanf e st w)"
| "unsup_call e Fn_strtof st w = as_value V_flt (strtof e st w)"
| "unsup_call e Fn_strtod st w = as_value V_flt (strtod e st w)"
| "unsup_call e Fn_fgets st w = as_value V_ptr (fgets e st w)"
| "unsup_call e Fn_localtime st w = as_value V_ptr (localtime e st w)"
| "unsup_call e Fn_isatty st w = as_value V_int (isatty e st w)"
| "unsup_call e Fn_getopt st w = as_value V_int (getopt e st w)"
| "unsup_call e Fn_inet_aton st w = as_value V_int (inet_aton e st w)"
| "unsup_call e Fn_inet_pton st w = as_value V_int (inet_pton e st w)"
| "unsup_call e Fn_ceilf st w = as_value V_flt (ceilf e st w)"
| "unsup_call e Fn_ceil st w = as_value V_flt (ceil e st w)"
| "unsup_call e Fn_floorf st w = as_value V_flt (floorf e st w)"
| "unsup_call e Fn_floor st w = as_value V_flt (floor' e st w)"
| "unsup_call e Fn_truncf st w = as_value V_flt (truncf e st w)"
| "unsup_call e Fn_trunc st w = as_value V_flt (trunc e st w)"
| "unsup_call e Fn_sqrtf st w = as_value V_flt (sqrtf e st w)"
| "unsup_call e Fn_sqrt st w = as_value V_flt (sqrt' e st w)"
| "unsup_call e Fn_rintf st w = as_value V_flt (rintf e st w)"
| "unsup_call e Fn_rint st w = as_value V_flt (rint e st w)"
| "unsup_call e Fn_clock st w = as_value V_int (clock e st w)"
| "unsup_call e Fn_read st w = as_value V_int (read e st w)"

fun unsup_run ::
  "'w unsup_env \<Rightarrow> unsup_fn list \<Rightarrow> unsup_statics \<Rightarrow> 'w \<Rightarrow> (unsup_value list \<times> unsup_statics, 'w) outcome" where
  "unsup_run e [] st w = Returns ([], st) w"
| "unsup_run e (f # fs) st w =
     andthen (unsup_call e f st w)
       (\<lambda>(v, st) w. andthen (unsup_run e fs st w) (\<lambda>(vs, st) w. Returns (v # vs, st) w))"

text \<open>What a caller sees of a function: the site of its warning, its value and the \<open>errno\<close> it sets.\<close>

fun unsup_spec :: "unsup_fn \<Rightarrow> int \<times> unsup_value \<times> int option" where
  "unsup_spec Fn_getenv = (38, V_ptr NULL, None)"
| "unsup_spec Fn_qsort = (49, V_void, Some 22)"
| "unsup_spec Fn_signal = (57, V_ptr NULL, Some 22)"
| "unsup_spec Fn_raise = (65, V_int (-1), None)"
| "unsup_spec Fn_fopen = (73, V_ptr NULL, Some 2)"
| "unsup_spec Fn_fclose = (81, V_int (-1), Some 9)"
| "unsup_spec Fn_fread = (92, V_int 0, None)"
| "unsup_spec Fn_fseek = (101, V_int (-1), Some 9)"
| "unsup_spec Fn_ftell = (109, V_int (-1), Some 9)"
| "unsup_spec Fn_rewind = (117, V_void, None)"
| "unsup_spec Fn_sscanf = (124, V_int (-1), None)"
| "unsup_spec Fn_scanf = (131, V_int (-1), Some 9)"
| "unsup_spec Fn_strtof = (140, V_flt (Num 0), Some 95)"
| "unsup_spec Fn_strtod = (149, V_flt (Num 0), Some 95)"
| "unsup_spec Fn_fgets = (159, V_ptr NULL, None)"
| "unsup_spec Fn_localtime = (166, V_ptr NULL, None)"
| "unsup_spec Fn_isatty = (173, V_int 0, Some 9)"
| "unsup_spec Fn_getopt = (188, V_int (-1), None)"
| "unsup_spec Fn_inet_aton = (199, V_int (-1), None)"
| "unsup_spec Fn_inet_pton = (208, V_int (-1), None)"
| "unsup_spec Fn_ceilf = (214, V_flt NaN, None)"
| "unsup_spec Fn_ceil = (220, V_flt NaN, None)"
| "unsup_spec Fn_floorf = (226, V_flt NaN, None)"
| "unsup_spec Fn_floor = (232, V_flt NaN, None)"
| "unsup_spec Fn_truncf = (238, V_flt NaN, None)"
| "unsup_spec Fn_trunc = (244, V_flt NaN, None)"
| "unsup_spec Fn_sqrtf = (250, V_flt NaN, None)"
| "unsup_spec Fn_sqrt = (256, V_flt NaN, None)"
| "unsup_spec Fn_rintf = (262, V_flt NaN, None)"
| "unsup_spec Fn_rint = (268, V_flt NaN, None)"
| "unsup_spec Fn_clock = (273, V_int 0, None)"
| "unsup_spec Fn_read = (281, V_int 0, None)"

definition site :: "unsup_fn \<Rightarrow> int" where "site f = fst (unsup_spec f)"
definition failure :: "unsup_fn \<Rightarrow> unsup_value" where "failure f = fst (snd (unsup_spec f))"

text \<open>The last \<open>errno\<close> that is set.\<close>

fun last_errno :: "int \<Rightarrow> unsup_fn list \<Rightarrow> int" where
  "last_errno n [] = n"
| "last_errno n (f # fs) = last_errno (case snd (snd (unsup_spec f)) of None \<Rightarrow> n | Some k \<Rightarrow> k) fs"

text \<open>The sites that warn, in order: each at the first call of its function.\<close>

fun new_sites :: "int set \<Rightarrow> unsup_fn list \<Rightarrow> int list" where
  "new_sites W [] = []"
| "new_sites W (f # fs) =
     (if site f \<in> W then new_sites W fs else site f # new_sites (insert (site f) W) fs)"

text \<open>The runtime after one warning.\<close>

definition after_warning :: "'w unsup_env \<Rightarrow> int \<Rightarrow> 'w \<Rightarrow> 'w" where
  "after_warning e line w =
     (case fprintf (env_tfp e) (env_mem e) (Some (libc_stderr (env_libc e))) warn_format
             [va_ptr (env_fname e line), va_int line, va_ptr (env_msg e)] w of
        Returns r w' \<Rightarrow> w' | _ \<Rightarrow> w)"

lemma ggl_warn_unsupported_exact:
  "ggl_warn_unsupported e line st w =
     Returns (st\<lparr> warned_sites := insert line (warned_sites st) \<rparr>)
       (if line \<in> warned_sites st then w else after_warning e line w)"
proof -
  obtain r w' where "fprintf (env_tfp e) (env_mem e) (Some (libc_stderr (env_libc e))) warn_format
      [va_ptr (env_fname e line), va_int line, va_ptr (env_msg e)] w = Returns r w'"
    using fprintf_Returns by metis
  then show ?thesis by (simp add: ggl_warn_unsupported_def ggl_warn_once_def after_warning_def)
qed

lemmas unsup_defs =
  getenv_def qsort_def signal_def raise_def fopen_def fclose_def fread_def fseek_def
  ftell_def rewind_def sscanf_def scanf_def strtof_def strtod_def fgets_def localtime_def
  isatty_def getopt_def inet_aton_def inet_pton_def ceilf_def ceil_def floorf_def floor'_def
  truncf_def trunc_def sqrtf_def sqrt'_def rintf_def rint_def clock_def read_def

lemma unsup_call_exact:
  "\<exists>st'. unsup_call e f st w =
      Returns (failure f, st') (if site f \<in> warned_sites st then w else after_warning e (site f) w) \<and>
    warned_sites st' = insert (site f) (warned_sites st) \<and> errno st' = last_errno (errno st) [f] \<and>
    opterr st' = opterr st \<and> (optarg st = NULL \<and> optind st = 1 \<and> optopt st = 63 \<longrightarrow>
      optarg st' = NULL \<and> optind st' = 1 \<and> optopt st' = 63)"
  by (cases f)
    (simp_all add: unsup_defs as_value_def ggl_warn_unsupported_exact site_def failure_def EOF_def
      ENOENT_def EBADF_def EINVAL_def EOPNOTSUPP_def)

lemma new_sites_props: "distinct (new_sites W fs) \<and> set (new_sites W fs) = site ` set fs - W"
  by (induction W fs rule: new_sites.induct) auto

text \<open>C15. In any sequence of calls of the unsupported functions every call returns its function's failure
  value, \<open>errno\<close> is the last one set, and each function that is called warns exactly once, at its first
  call; \<open>getopt\<close> leaves its globals as they are at the start of the program.\<close>

theorem unsup_warns_once:
  "\<exists>st'. unsup_run e fs unsup_statics0 w =
      Returns (map failure fs, st') (fold (after_warning e) (new_sites {} fs) w) \<and>
    warned_sites st' = site ` set fs \<and> errno st' = last_errno 0 fs \<and>
    distinct (new_sites {} fs) \<and> set (new_sites {} fs) = site ` set fs \<and>
    (optarg st', optind st', opterr st', optopt st') = (NULL, 1, 1, 63)"
proof -
  have "\<exists>st'. unsup_run e fs st w =
        Returns (map failure fs, st') (fold (after_warning e) (new_sites (warned_sites st) fs) w) \<and>
      warned_sites st' = site ` set fs \<union> warned_sites st \<and> errno st' = last_errno (errno st) fs \<and>
      opterr st' = opterr st \<and> optarg st' = NULL \<and> optind st' = 1 \<and> optopt st' = 63"
    if "optarg st = NULL" "optind st = 1" "optopt st = 63" for st
    using that
  proof (induction fs arbitrary: st w)
    case (Cons f fs)
    obtain st1 where st1: "unsup_call e f st w =
          Returns (failure f, st1) (if site f \<in> warned_sites st then w else after_warning e (site f) w)"
        "warned_sites st1 = insert (site f) (warned_sites st)" "errno st1 = last_errno (errno st) [f]"
        "opterr st1 = opterr st" "optarg st1 = NULL" "optind st1 = 1" "optopt st1 = 63"
      using unsup_call_exact[of e f st w] Cons.prems by auto
    from Cons.IH[OF st1(5-7), of "if site f \<in> warned_sites st then w else after_warning e (site f) w"]
    show ?case using st1 by (auto simp: insert_absorb)
  qed auto
  from this[of unsup_statics0] show ?thesis
    using new_sites_props[of "{}" fs] by (auto simp: unsup_statics0_def)
qed

end
