(* ===== verification/Efi_Console.thy ===== *)
theory Efi_Console
  imports Stdlib
begin

text \<open>
  The output half of \<open>efi/start_main.c\<close>: conversion of C strings to UCS-2, the chunked console
  writer, and the two write hooks given to the library. The firmware is not part of the
  repository: its state records what it has been asked to do, here the strings passed to the
  console and error streams and the delays, with the status that \<open>exit\<close> leaves for \<open>main\<close>, and
  the rest of the firmware's own state, of a type \<open>'f\<close> left open.
\<close>

section \<open>The firmware as the code sees it\<close>

record 'f efi_world =
  conout :: "u16 list list"
  conerr :: "u16 list list"
  stalls :: "u64 list"
  main_retval :: int
  firmware :: 'f

type_synonym 'f conio_writer = "u16 list \<Rightarrow> 'f efi_world \<Rightarrow> 'f efi_world"

definition EFI_IO_CHUNK8_SIZE :: nat where "EFI_IO_CHUNK8_SIZE = 64"

text \<open>
  \<open>conio_a2u\<close>: what is stored in \<open>s16\<close>, and the number of characters converted. The list \<open>s8\<close> is the
  string from the pointer on; a \<open>char\<close> is signed, so that the conversion to \<open>CHAR16\<close> extends its
  sign.
\<close>

fun conio_a2u :: "u8 list \<Rightarrow> nat \<Rightarrow> u16 list \<times> nat" where
  "conio_a2u s8 0 = ([0], 0)"
| "conio_a2u [] (Suc n) = ([0], 0)"
| "conio_a2u (c # s8) (Suc n) =
     (if c \<noteq> 0 then
        (let (s16, i) = conio_a2u s8 n in
         ((if c = 10 then [13] else []) @ [scast c] @ s16, Suc i))
      else ([0], 0))"

lemma conio_a2u_count_le: "snd (conio_a2u s8 n) \<le> n"
  by (induction s8 n rule: conio_a2u.induct) (auto split: prod.splits)

text \<open>The block of \<open>sz\<close> bytes at \<open>s8\<close> is the list \<open>s8\<close>, of length \<open>sz\<close>.\<close>

function efi_conio_write :: "'f conio_writer \<Rightarrow> u8 list \<Rightarrow> nat \<Rightarrow> 'f efi_world \<Rightarrow> 'f efi_world" where
  "efi_conio_write writer s8 sz w =
     (if sz > 0 then
        (let (s16, converted) = conio_a2u s8 (if EFI_IO_CHUNK8_SIZE > sz then sz else EFI_IO_CHUNK8_SIZE) in
         if converted \<le> 0 then w
         else
           let w = writer s16 w in
           if converted \<ge> sz then w
           else efi_conio_write writer (drop converted s8) (sz - converted) w)
      else w)"
  by pat_completeness auto
termination
  by (relation "measure (\<lambda>(writer, s8, sz, w). sz)") auto

declare efi_conio_write.simps [simp del]

definition efi_stdout_writer :: "'f conio_writer" where
  "efi_stdout_writer s w = w\<lparr> conout := conout w @ [s] \<rparr>"

definition efi_stderr_writer :: "'f conio_writer" where
  "efi_stderr_writer s w = w\<lparr> conerr := conerr w @ [s] \<rparr>"

definition efi_write_stdout :: "'f efi_world writer" where
  "efi_write_stdout s8 w =
     (let sz = length s8; w = efi_conio_write efi_stdout_writer s8 sz w in (to_ssize sz, w))"

definition efi_write_stderr :: "'f efi_world writer" where
  "efi_write_stderr s8 w =
     (let sz = length s8; w = efi_conio_write efi_stderr_writer s8 sz w in (to_ssize sz, w))"

section \<open>What appears on the console\<close>

text \<open>The text of a NUL-terminated UCS-2 string, and of all the strings sent.\<close>

definition wtext :: "u16 list \<Rightarrow> u16 list" where
  "wtext s = takeWhile (\<lambda>c. c \<noteq> 0) s"

definition shown :: "u16 list list \<Rightarrow> u16 list" where
  "shown ss = concat (map wtext ss)"

text \<open>A character as it should appear: a line feed is preceded by a carriage return.\<close>

definition efi_emit :: "u8 list \<Rightarrow> u16 list" where
  "efi_emit bs = concat (map (\<lambda>c. if c = 10 then [13, 10] else [scast c]) bs)"

lemma efi_emit_append: "efi_emit (bs @ cs) = efi_emit bs @ efi_emit cs"
  by (simp add: efi_emit_def)

lemma efi_emit_Cons: "efi_emit (c # cs) = (if c = 10 then [13, 10] else [scast c]) @ efi_emit cs"
  by (simp add: efi_emit_def)

lemma scast_u16_0: "scast (c :: u8) = (0 :: u16) \<longleftrightarrow> c = 0"
proof
  assume "scast c = (0 :: u16)"
  moreover have "scast (scast c :: u16) = c"
    by (rule scast_up_scast_id) (simp add: is_up_def source_size_def target_size_def word_size)
  ultimately show "c = 0" by simp
qed simp

lemma efi_emit_nonzero: "0 \<notin> set bs \<Longrightarrow> 0 \<notin> set (efi_emit bs)"
  by (induction bs) (auto simp: efi_emit_Cons efi_emit_def scast_u16_0 split: if_splits dest: sym)

text \<open>The conversion stops at a NUL or after \<open>n\<close> characters; its result fits the array.\<close>

lemma conio_a2u_exact:
  "conio_a2u s8 n = (efi_emit (takeWhile (\<lambda>c. c \<noteq> 0) (take n s8)) @ [0], length (takeWhile (\<lambda>c. c \<noteq> 0) (take n s8)))"
  by (induction s8 n rule: conio_a2u.induct) (auto simp: efi_emit_Cons efi_emit_def)

lemma length_efi_emit: "length (efi_emit bs) \<le> 2 * length bs"
  by (induction bs) (auto simp: efi_emit_Cons efi_emit_def)

lemma wtext_converted: "0 \<notin> set bs \<Longrightarrow> wtext (efi_emit bs @ [0]) = efi_emit bs"
  using efi_emit_nonzero[of bs] by (auto simp: wtext_def takeWhile_eq_all_conv intro!: takeWhile_append2 trans[OF takeWhile_append2])

lemma takeWhile_take_drop:
  "takeWhile P s = takeWhile P (take k s) @ takeWhile P (drop (length (takeWhile P (take k s))) s)"
proof (induction s arbitrary: k)
  case (Cons c s)
  then show ?case by (cases k) auto
qed simp

lemma efi_conio_write_exact:
  assumes "length s8 = sz" and writer: "\<And>s w. out (writer s w) = out w @ wtext s"
  shows "out (efi_conio_write writer s8 sz w) = out w @ efi_emit (takeWhile (\<lambda>c. c \<noteq> 0) s8)"
  using assms(1)
proof (induction sz arbitrary: s8 w rule: less_induct)
  case (less sz)
  define k where "k = (if EFI_IO_CHUNK8_SIZE > sz then sz else EFI_IO_CHUNK8_SIZE)"
  define t where "t = takeWhile (\<lambda>c. c \<noteq> 0) (take k s8)"
  have split: "takeWhile (\<lambda>c. c \<noteq> 0) s8 = t @ takeWhile (\<lambda>c. c \<noteq> 0) (drop (length t) s8)"
    unfolding t_def by (rule takeWhile_take_drop)
  have t0: "0 \<notin> set t" by (auto simp: t_def dest: set_takeWhileD)
  have eq: "efi_conio_write writer s8 sz w = (if sz > 0 then
      (if length t \<le> 0 then w else
       let w = writer (efi_emit t @ [0]) w in
       if length t \<ge> sz then w else efi_conio_write writer (drop (length t) s8) (sz - length t) w) else w)"
    by (subst efi_conio_write.simps) (simp add: conio_a2u_exact Let_def flip: k_def t_def)
  consider "sz = 0" | "sz > 0" "t = []" | "t \<noteq> []" "length t \<ge> sz" | "t \<noteq> []" "length t < sz" by linarith
  then show ?case
  proof cases
    case 1
    then show ?thesis using less.prems by (simp add: efi_conio_write.simps[of _ _ 0] efi_emit_def)
  next
    case 2
    then obtain c s8' where "s8 = c # s8'" using less.prems by (cases s8) auto
    moreover have "k > 0" using 2 by (simp add: k_def EFI_IO_CHUNK8_SIZE_def)
    ultimately have "c = 0" using 2(2) by (cases k) (auto simp: t_def split: if_splits)
    then have "takeWhile (\<lambda>c. c \<noteq> 0) s8 = []" using \<open>s8 = c # s8'\<close> by simp
    moreover have "efi_conio_write writer s8 sz w = w" unfolding eq using 2 by simp
    ultimately show ?thesis by (simp add: efi_emit_def)
  next
    case 3
    then have "drop (length t) s8 = []" using less.prems by simp
    then have "takeWhile (\<lambda>c. c \<noteq> 0) s8 = t" using split by simp
    moreover have "sz > 0" using 3 less.prems by (cases s8) (auto simp: t_def)
    ultimately show ?thesis using 3 by (simp add: eq writer wtext_converted[OF t0] Let_def)
  next
    case 4
    have "out (efi_conio_write writer (drop (length t) s8) (sz - length t) (writer (efi_emit t @ [0]) w)) =
        out (writer (efi_emit t @ [0]) w) @ efi_emit (takeWhile (\<lambda>c. c \<noteq> 0) (drop (length t) s8))"
      using 4 less.prems by (intro less.IH) auto
    with 4 show ?thesis
      by (subst split) (simp add: eq writer wtext_converted[OF t0] efi_emit_append)
  qed
qed

text \<open>Every string handed to the firmware fits the array of 129 \<open>CHAR16\<close>s and is terminated.\<close>

lemma conio_a2u_fits:
  "n \<le> EFI_IO_CHUNK8_SIZE \<Longrightarrow> length (fst (conio_a2u s8 n)) \<le> EFI_IO_CHUNK8_SIZE * 2 + 1 \<and> last (fst (conio_a2u s8 n)) = 0"
proof -
  assume "n \<le> EFI_IO_CHUNK8_SIZE"
  moreover have "length (takeWhile (\<lambda>c. c \<noteq> 0) (take n s8)) \<le> n"
    using length_takeWhile_le[of "\<lambda>c. c \<noteq> 0" "take n s8"] by simp
  ultimately show ?thesis
    using length_efi_emit[of "takeWhile (\<lambda>c. c \<noteq> 0) (take n s8)"] by (simp add: conio_a2u_exact)
qed

lemma efi_write_stdout_exact:
  "\<exists>w'. efi_write_stdout bs w = (to_ssize (length bs), w') \<and>
    shown (conout w') = shown (conout w) @ efi_emit (takeWhile (\<lambda>c. c \<noteq> 0) bs)"
  using efi_conio_write_exact[of bs "length bs" "\<lambda>w. shown (conout w)" efi_stdout_writer w]
  by (simp add: efi_write_stdout_def efi_stdout_writer_def shown_def Let_def)

lemma efi_write_stderr_exact:
  "\<exists>w'. efi_write_stderr bs w = (to_ssize (length bs), w') \<and>
    shown (conerr w') = shown (conerr w) @ efi_emit (takeWhile (\<lambda>c. c \<noteq> 0) bs)"
  using efi_conio_write_exact[of bs "length bs" "\<lambda>w. shown (conerr w)" efi_stderr_writer w]
  by (simp add: efi_write_stderr_def efi_stderr_writer_def shown_def Let_def)

lemma takeWhile_nonzero: "\<forall>b \<in> set bs. b \<noteq> 0 \<Longrightarrow> takeWhile (\<lambda>c. c \<noteq> 0) bs = (bs :: u8 list)"
  by (simp add: takeWhile_eq_all_conv)

interpretation efi_stdout: stream_writer efi_write_stdout "\<lambda>b. b \<noteq> 0" "\<lambda>w. shown (conout w)" efi_emit
proof unfold_locales
  fix bs w assume "\<forall>b \<in> set bs. b \<noteq> (0 :: u8)" "length bs < 2 ^ 63"
  then show "\<exists>w'. efi_write_stdout bs w = (int (length bs), w') \<and> shown (conout w') = shown (conout w) @ efi_emit bs"
    using efi_write_stdout_exact[of bs w] by (simp add: takeWhile_nonzero to_ssize_id)
qed (rule efi_emit_append)

interpretation efi_stderr: stream_writer efi_write_stderr "\<lambda>b. b \<noteq> 0" "\<lambda>w. shown (conerr w)" efi_emit
proof unfold_locales
  fix bs w assume "\<forall>b \<in> set bs. b \<noteq> (0 :: u8)" "length bs < 2 ^ 63"
  then show "\<exists>w'. efi_write_stderr bs w = (int (length bs), w') \<and> shown (conerr w') = shown (conerr w) @ efi_emit bs"
    using efi_write_stderr_exact[of bs w] by (simp add: takeWhile_nonzero to_ssize_id)
qed (rule efi_emit_append)

section \<open>Properties\<close>

text \<open>C12. On an EFI console the library's output arrives whole and in order: \<open>puts\<close> shows its string
  and a new line, \<open>printf\<close> the formatted text whatever its length, and \<open>fwrite\<close> all the elements,
  with a carriage return before each line feed; the return values are 1, the length of the text and
  the number of elements. The text must have no NUL.\<close>

theorem efi_console_output:
  assumes "magic (libc_stdout d) = NNLC_STDIO_MAGIC" "file_write (libc_stdout d) = Some efi_write_stdout"
    and "cstr m s bs" "length bs < 2 ^ 63"
    and "0 \<notin> set (tfp m fmt args)" "length (tfp m fmt args) < 2 ^ 31"
    and "load m p (nmemb * sz) = Some cs" "0 \<notin> set cs" "sz < 2 ^ 63"
  shows "(\<exists>w'. puts d m s w = Returns 1 w' \<and> shown (conout w') = shown (conout w) @ efi_emit (bs @ [10])) \<and>
    (\<exists>w'. printf tfp d m fmt args w = Returns (int (length (tfp m fmt args))) w' \<and>
      shown (conout w') = shown (conout w) @ efi_emit (tfp m fmt args)) \<and>
    (\<exists>w'. fwrite m p sz nmemb (Some (libc_stdout d)) w = Returns nmemb w' \<and>
      shown (conout w') = shown (conout w) @ efi_emit cs)"
proof (intro conjI)
  have st: "stream_write (Some (libc_stdout d)) = Some efi_write_stdout"
    using assms(1,2) by (simp add: stream_write_def)
  have nz: "\<forall>b \<in> set bs. b \<noteq> 0" "\<forall>b \<in> set (tfp m fmt args). b \<noteq> 0" "\<forall>b \<in> set cs. b \<noteq> 0"
    using cstr_no_nul[OF assms(3)] assms(5,8) by auto
  show "\<exists>w'. puts d m s w = Returns 1 w' \<and> shown (conout w') = shown (conout w) @ efi_emit (bs @ [10])"
    by (rule efi_stdout.puts_emits[OF assms(2,3) nz(1) _ assms(4)]) simp
  have "to_int (int (length (tfp m fmt args))) = int (length (tfp m fmt args))"
    using assms(6) by (intro to_int_id) auto
  then show "\<exists>w'. printf tfp d m fmt args w = Returns (int (length (tfp m fmt args))) w' \<and>
      shown (conout w') = shown (conout w) @ efi_emit (tfp m fmt args)"
    using efi_stdout.vfprintf_emits[where tfp = tfp and m = m and fmt = fmt and ap = args, OF st nz(2), of w] by (simp add: printf_def vprintf_def)
  show "\<exists>w'. fwrite m p sz nmemb (Some (libc_stdout d)) w = Returns nmemb w' \<and>
      shown (conout w') = shown (conout w) @ efi_emit cs"
    by (rule efi_stdout.fwrite_emits[OF st assms(7) nz(3) assms(9)])
qed

definition efi_example :: "unit efi_world nnlc_internal_data" where
  "efi_example = nnlc_internal_data0\<lparr> libc_stdout := \<lparr> magic = NNLC_STDIO_MAGIC, file_write = Some efi_write_stdout \<rparr> \<rparr>"

theorem efi_console_output_witness:
  "\<exists>w'. puts efi_example (string_at 8 ''hi'') 8 \<lparr> conout = [], conerr = [], stalls = [], main_retval = 0, firmware = () \<rparr> = Returns 1 w' \<and>
     shown (conout w') = [104, 105, 13, 10]"
proof -
  have c: "cstr (string_at 8 ''hi'') 8 (lit ''hi'')" by (rule cstr_string_at) simp
  have e: "efi_emit (lit ''hi'' @ [10]) = [104, 105, 13, 10]" by code_simp
  show ?thesis
    using efi_console_output[OF _ _ c, where d = efi_example and tfp = "\<lambda>m f a. f" and fmt = "[]" and p = 0
        and nmemb = 0 and sz = 1 and args = "[]" and cs = "[]"
        and w = "\<lparr> conout = [], conerr = [], stalls = [], main_retval = 0, firmware = () \<rparr>"]
    unfolding e by (simp add: efi_example_def shown_def)
qed

text \<open>The EFI write hook sends the firmware only terminated strings that fit its array of 129
  characters, and what it shows is the block up to its first NUL, but it returns the size of the
  whole block: after a NUL the count it reports is not the number of characters printed.\<close>

theorem efi_write_stops_at_nul:
  "(\<exists>w'. efi_write_stdout bs w = (to_ssize (length bs), w') \<and>
      shown (conout w') = shown (conout w) @ efi_emit (takeWhile (\<lambda>c. c \<noteq> 0) bs)) \<and>
   length (fst (conio_a2u bs (min k 64))) \<le> 129 \<and> last (fst (conio_a2u bs (min k 64))) = 0"
  using efi_write_stdout_exact[of bs w] conio_a2u_fits[of "min k 64" bs]
  by (simp add: EFI_IO_CHUNK8_SIZE_def)

end
