(* ===== verification/Efi_Clock.thy ===== *)
theory Efi_Clock
  imports Libc
begin

text \<open>
  \<open>efi_gettime_wall\<close> of \<open>efi/start_main.c\<close>: the firmware's calendar time as seconds since 1970. The
  fields have the firmware's widths, so that \<open>t.Month -= 2\<close> is done on a byte. The reference is
  the count of days year by year and month by month.
\<close>

section \<open>The conversion\<close>

text \<open>The fields of \<open>EFI_TIME\<close> that the code reads.\<close>

record EFI_TIME =
  Year :: u16
  Month :: u8
  Day :: u8
  Hour :: u8
  Minute :: u8
  Second :: u8
  Nanosecond :: u32
  TimeZone :: "16 word"

definition EFI_UNSPECIFIED_TIMEZONE :: int where "EFI_UNSPECIFIED_TIMEZONE = 0x07FF"

text \<open>The two statements on the local variable \<open>t\<close>: \<open>Month\<close> is 11, 12, 1 to 10 afterwards, with the
  year that ends in February.\<close>

definition efi_shift_month :: "EFI_TIME \<Rightarrow> EFI_TIME" where
  "efi_shift_month t =
     (let t = t\<lparr> Month := Month t - 2 \<rparr> in
      if 0 \<ge> uint (Month t) then t\<lparr> Month := Month t + 12, Year := Year t - 1 \<rparr> else t)"

text \<open>Division of \<open>int\<close>s that are not negative.\<close>

definition efi_secs :: "EFI_TIME \<Rightarrow> u64" where
  "efi_secs t =
     (let y = uint (Year t); mon = uint (Month t) in
      (((word_of_int (y div 4 - y div 100 + y div 400 + 367 * mon div 12 + uint (Day t))
           + word_of_int (y * 365) - 719499) * 24 + ucast (Hour t)) * 60 + ucast (Minute t)) * 60 + ucast (Second t))"

text \<open>\<open>GetTime\<close> is \<open>None\<close> when the firmware reports an error. The triple is the return value and the two
  words stored, which a failed call leaves alone.\<close>

definition efi_gettime_wall :: "('w \<Rightarrow> EFI_TIME option) \<Rightarrow> u64 \<times> u64 \<Rightarrow> 'w \<Rightarrow> (int \<times> u64 \<times> u64) \<times> 'w" where
  "efi_gettime_wall GetTime out w =
     (case GetTime w of
        None \<Rightarrow> ((-1, out), w)
      | Some t \<Rightarrow>
          (let t = efi_shift_month t;
               secs = efi_secs t;
               secs = (if sint (TimeZone t) \<noteq> EFI_UNSPECIFIED_TIMEZONE
                       then secs + word_of_int (sint (TimeZone t) * 60) else secs)
           in ((0, secs, ucast (Nanosecond t)), w)))"

section \<open>The calendar\<close>

definition leap :: "nat \<Rightarrow> bool" where
  "leap y \<longleftrightarrow> 4 dvd y \<and> (\<not> 100 dvd y \<or> 400 dvd y)"

definition year_days :: "nat \<Rightarrow> nat" where
  "year_days y = (if leap y then 366 else 365)"

definition month_days :: "nat \<Rightarrow> nat \<Rightarrow> nat" where
  "month_days y mon = [31, if leap y then 29 else 28, 31, 30, 31, 30, 31, 31, 30, 31, 30, 31] ! (mon - 1)"

text \<open>The days from 1970-01-01 to the given date.\<close>

definition epoch_days :: "nat \<Rightarrow> nat \<Rightarrow> nat \<Rightarrow> nat" where
  "epoch_days y mon day =
     sum_list (map year_days [1970..<y]) + sum_list (map (month_days y) [1..<mon]) + (day - 1)"

definition epoch_secs :: "EFI_TIME \<Rightarrow> int" where
  "epoch_secs t =
     ((int (epoch_days (unat (Year t)) (unat (Month t)) (unat (Day t))) * 24 + uint (Hour t)) * 60 + uint (Minute t)) * 60
       + uint (Second t)"

text \<open>The leap years before and including a year.\<close>

definition leaps :: "nat \<Rightarrow> int" where
  "leaps y = int (y div 4) - int (y div 100) + int (y div 400)"

lemma div_Suc_dvd: "Suc y div k = y div k + (if k dvd Suc y then 1 else 0)"
  by (simp add: div_Suc dvd_eq_mod_eq_0)

lemma leaps_Suc: "leaps (Suc y) = leaps y + (if leap (Suc y) then 1 else 0)"
proof -
  define z where "z = Suc y"
  have "100 dvd z" if "400 dvd z" using dvd_trans[OF _ that, of 100] by simp
  moreover have "4 dvd z" if "100 dvd z" using dvd_trans[OF _ that, of 4] by simp
  moreover have d: "z div k = y div k + (if k dvd z then 1 else 0)" for k
    unfolding z_def by (rule div_Suc_dvd)
  ultimately show ?thesis
    unfolding leaps_def leap_def z_def[symmetric] d
    by (cases "4 dvd z"; cases "100 dvd z"; cases "400 dvd z") simp_all
qed

lemma year_sum:
  "1970 \<le> y \<Longrightarrow> int (sum_list (map year_days [1970..<y])) = 365 * (int y - 1970) + leaps (y - 1) - 477"
proof (induction y rule: nat_induct_at_least)
  case (Suc y)
  have "leaps y = leaps (y - 1) + (if leap y then 1 else 0)"
    using leaps_Suc[of "y - 1"] Suc.hyps by simp
  with Suc show ?case by (simp add: year_days_def)
qed (simp add: leaps_def)

text \<open>The formula of the code, for the shifted month \<open>k\<close> (1 for March) of a year.\<close>

lemma march_sum:
  assumes "3 \<le> mon" "mon \<le> 12"
  shows "int (sum_list (map (month_days y) [1..<mon])) = 367 * (int mon - 2) div 12 + 29 + (if leap y then 1 else 0)"
proof -
  have "mon = 3 \<or> mon = 4 \<or> mon = 5 \<or> mon = 6 \<or> mon = 7 \<or> mon = 8 \<or> mon = 9 \<or> mon = 10 \<or> mon = 11 \<or> mon = 12"
    using assms by presburger
  then show ?thesis
    by (elim disjE) (simp_all add: upt_rec month_days_def)
qed

lemma epoch_days_march:
  assumes "1970 \<le> y" "3 \<le> mon" "mon \<le> 12" "1 \<le> day"
  shows "int (epoch_days y mon day) =
    (int y div 4 - int y div 100 + int y div 400 + 367 * (int mon - 2) div 12 + int day) + int y * 365 - 719499"
proof -
  have l: "leaps y = leaps (y - 1) + (if leap y then 1 else 0)"
    using leaps_Suc[of "y - 1"] assms(1) by simp
  have "int (epoch_days y mon day) = 365 * (int y - 1970) + leaps (y - 1) - 477 +
      (367 * (int mon - 2) div 12 + 29 + (if leap y then 1 else 0)) + (int day - 1)"
    using assms(4) by (simp only: epoch_days_def of_nat_add year_sum[OF assms(1)] march_sum[OF assms(2,3)])
  then show ?thesis using l by (simp add: leaps_def zdiv_int)
qed

lemma epoch_days_jan_feb:
  assumes "1970 \<le> y" "mon = 1 \<or> mon = 2" "1 \<le> day"
  shows "int (epoch_days y mon day) =
    ((int y - 1) div 4 - (int y - 1) div 100 + (int y - 1) div 400 + 367 * (int mon + 10) div 12 + int day)
      + (int y - 1) * 365 - 719499"
proof -
  define L where "L = (int y - 1) div 4 - (int y - 1) div 100 + (int y - 1) div 400"
  have "int (y - 1) = int y - 1" using assms(1) by simp
  then have L: "leaps (y - 1) = L"
    unfolding leaps_def zdiv_int L_def by simp
  have "sum_list (map (month_days y) [1..<mon]) = 31 * (mon - 1)"
    using assms(2) by (elim disjE) (simp_all add: upt_rec month_days_def)
  then have s: "int (epoch_days y mon day) = 365 * (int y - 1970) + L - 477 + int (31 * (mon - 1)) + int (day - 1)"
    unfolding epoch_days_def of_nat_add year_sum[OF assms(1)] L by simp
  have "int (day - 1) = int day - 1" using assms(3) by simp
  with s show ?thesis unfolding L_def[symmetric]
    using assms(2) by (elim disjE) simp_all
qed

section \<open>The code on dates\<close>

definition valid_date :: "EFI_TIME \<Rightarrow> bool" where
  "valid_date t \<longleftrightarrow> 1970 \<le> Year t \<and> Year t \<le> 9999 \<and> 1 \<le> Month t \<and> Month t \<le> 12 \<and> 1 \<le> Day t \<and> Day t \<le> 31 \<and>
     Hour t < 24 \<and> Minute t < 60 \<and> Second t < 60"

lemma efi_secs_word:
  "efi_secs t = word_of_int (((uint (Year t) div 4 - uint (Year t) div 100 + uint (Year t) div 400 +
     367 * uint (Month t) div 12 + uint (Day t) + uint (Year t) * 365 - 719499) * 24 + uint (Hour t)) * 60 * 60
     + uint (Minute t) * 60 + uint (Second t))"
  by (simp add: efi_secs_def Let_def algebra_simps)

lemma u8_sub:
  "uint (a - b :: u8) = (uint a - uint b) mod 256"
  by (simp add: uint_word_arith_bintrs(2) take_bit_eq_mod)

lemma shift_march:
  assumes "3 \<le> uint (Month t)" "uint (Month t) \<le> 12"
  shows "uint (Month (efi_shift_month t)) = uint (Month t) - 2 \<and> efi_shift_month t = t\<lparr> Month := Month t - 2 \<rparr>"
proof -
  have "uint (Month t - 2) = uint (Month t) - 2" using assms by (simp add: u8_sub)
  with assms show ?thesis by (simp add: efi_shift_month_def Let_def)
qed

lemma shift_feb:
  assumes "uint (Month t) = 2"
  shows "efi_shift_month t = t\<lparr> Month := 12, Year := Year t - 1 \<rparr>"
proof -
  have "Month t = 2" using assms by (metis word_of_int_uint of_int_numeral)
  then show ?thesis by (simp add: efi_shift_month_def Let_def)
qed

lemma shift_jan:
  assumes "uint (Month t) = 1"
  shows "efi_shift_month t = t\<lparr> Month := 255 \<rparr>"
proof -
  have "Month t = 1" using assms by (metis word_of_int_uint of_int_1)
  moreover have "(1 - 2 :: u8) = 255" "uint (255 :: u8) = 255" "uint (- 1 :: u8) = 255" by code_simp+
  ultimately show ?thesis by (simp add: efi_shift_month_def Let_def del: diff_numeral_special)
qed

lemma u16_pred: "1 \<le> uint (y :: u16) \<Longrightarrow> uint (y - 1) = uint y - 1"
  using uint_lt2p[of y] by (simp add: uint_word_arith_bintrs(2) take_bit_eq_mod)

lemma valid_dateD:
  assumes "valid_date t"
  shows "1970 \<le> unat (Year t)" "uint (Year t) = int (unat (Year t))" "uint (Month t) = int (unat (Month t))"
    "uint (Day t) = int (unat (Day t))" "1 \<le> unat (Day t)" "1 \<le> unat (Month t)" "unat (Month t) \<le> 12"
  using assms by (simp_all add: valid_date_def word_le_nat_alt)

text \<open>The seconds computed, up to a whole number of days.\<close>

lemma efi_secs_days:
  assumes "uint (Hour t') = uint (Hour t)" "uint (Minute t') = uint (Minute t)" "uint (Second t') = uint (Second t)"
    "uint (Year t') div 4 - uint (Year t') div 100 + uint (Year t') div 400 + 367 * uint (Month t') div 12 +
       uint (Day t') + uint (Year t') * 365 - 719499 = int (epoch_days (unat (Year t)) (unat (Month t)) (unat (Day t))) + k"
  shows "efi_secs t' = word_of_int (epoch_secs t + k * 86400)"
  unfolding efi_secs_word assms epoch_secs_def by (simp add: algebra_simps)

lemma efi_secs_correct:
  assumes "valid_date t" "Month t \<noteq> 1"
  shows "efi_secs (efi_shift_month t) = word_of_int (epoch_secs t)"
proof -
  note v = valid_dateD[OF assms(1)]
  have "unat (Month t) \<noteq> 1" using assms(2) by (metis unat_1 word_unat_eq_iff)
  then consider "unat (Month t) = 2" | "3 \<le> unat (Month t)" using v(6) by linarith
  then have "efi_secs (efi_shift_month t) = word_of_int (epoch_secs t + 0 * 86400)"
  proof cases
    case 1
    have s: "efi_shift_month t = t\<lparr> Month := 12, Year := Year t - 1 \<rparr>"
      by (rule shift_feb) (simp only: v(3) 1)
    have "1 \<le> uint (Year t)" unfolding v(2) using v(1) by linarith
    then have y: "uint (Year t - 1) = uint (Year t) - 1" by (rule u16_pred)
    have "int (epoch_days (unat (Year t)) (unat (Month t)) (unat (Day t))) =
      ((uint (Year t) - 1) div 4 - (uint (Year t) - 1) div 100 + (uint (Year t) - 1) div 400 + 367 + uint (Day t))
        + (uint (Year t) - 1) * 365 - 719499"
      using epoch_days_jan_feb[OF v(1) _ v(5), of "unat (Month t)"] 1 unfolding v(2,4) by simp
    then show ?thesis unfolding s by (intro efi_secs_days) (simp_all add: y)
  next
    case 2
    have m: "3 \<le> uint (Month t)" "uint (Month t) \<le> 12" unfolding v(3) using 2 v(7) by linarith+
    note s = shift_march[OF m]
    have "int (epoch_days (unat (Year t)) (unat (Month t)) (unat (Day t))) =
      (uint (Year t) div 4 - uint (Year t) div 100 + uint (Year t) div 400 + 367 * (uint (Month t) - 2) div 12 + uint (Day t))
        + uint (Year t) * 365 - 719499"
      unfolding v(2-4) by (rule epoch_days_march[OF v(1) 2 v(7,5)])
    moreover have "uint (Month t - 2) = uint (Month t) - 2"
      using arg_cong[OF conjunct2[OF s], of Month] conjunct1[OF s] by simp
    ultimately show ?thesis unfolding conjunct2[OF s] by (intro efi_secs_days) simp_all
  qed
  then show ?thesis by simp
qed

lemma efi_secs_january:
  assumes "valid_date t" "Month t = 1"
  shows "efi_secs (efi_shift_month t) =
    word_of_int (epoch_secs t + (if leap (unat (Year t)) then 7828 else 7827) * 86400)"
proof -
  note v = valid_dateD[OF assms(1)]
  have s: "efi_shift_month t = t\<lparr> Month := 255 \<rparr>" using assms(2) by (intro shift_jan) simp
  have u: "uint (255 :: u8) = 255" by code_simp
  define y where "y = int (unat (Year t))"
  define b where "b = (if leap (unat (Year t)) then 1 else 0 :: int)"
  have l: "leaps (unat (Year t)) = leaps (unat (Year t) - 1) + b"
    using leaps_Suc[of "unat (Year t) - 1"] v(1) by (simp add: b_def)
  have "int (unat (Year t) - 1) = y - 1" unfolding y_def using v(1) by simp
  then have yl: "y div 4 - y div 100 + y div 400 = (y - 1) div 4 - (y - 1) div 100 + (y - 1) div 400 + b"
    using l unfolding leaps_def zdiv_int y_def by simp
  have m1: "unat (Month t) = 1" using assms(2) by simp
  have e: "int (epoch_days (unat (Year t)) (unat (Month t)) (unat (Day t))) =
      ((y - 1) div 4 - (y - 1) div 100 + (y - 1) div 400 + 336 + uint (Day t)) + (y - 1) * 365 - 719499"
    using epoch_days_jan_feb[OF v(1) _ v(5), of "unat (Month t)"] m1 unfolding v(4) y_def by simp
  have "efi_secs (t\<lparr> Month := 255 \<rparr>) = word_of_int (epoch_secs t + (7827 + b) * 86400)"
    using yl e v(2) unfolding y_def[symmetric] by (intro efi_secs_days) (simp_all add: u)
  then show ?thesis unfolding s b_def by (simp split: if_splits)
qed

section \<open>Properties\<close>

text \<open>C16. For every valid date from 1970 to 9999 in the months of February to December, the EFI clock
  returns exactly the seconds from 1970-01-01 00:00:00, counted year by year and month by month,
  shifted by the time zone when the firmware knows it.\<close>

theorem efi_clock_correct:
  assumes "valid_date t" "Month t \<noteq> 1" "GetTime w = Some t"
  shows "efi_gettime_wall GetTime out w =
    ((0, word_of_int (epoch_secs t + (if sint (TimeZone t) = 0x07FF then 0 else sint (TimeZone t) * 60)),
      ucast (Nanosecond t)), w)"
proof -
  have "TimeZone (efi_shift_month t) = TimeZone t" "Nanosecond (efi_shift_month t) = Nanosecond t"
    by (simp_all add: efi_shift_month_def Let_def)
  then show ?thesis
    using assms efi_secs_correct by (simp add: efi_gettime_wall_def EFI_UNSPECIFIED_TIMEZONE_def Let_def)
qed

definition example_date :: "u8 \<Rightarrow> EFI_TIME" where
  "example_date mon = \<lparr> Year = 2024, Month = mon, Day = 29, Hour = 1, Minute = 2, Second = 3, Nanosecond = 4, TimeZone = 60 \<rparr>"

theorem efi_clock_correct_witness:
  "efi_gettime_wall (\<lambda>_. Some (example_date 2)) (0, 0) () = ((0, 1709172123, 4), ())"
proof -
  have "valid_date (example_date 2)" by code_simp
  moreover have "epoch_secs (example_date 2) = 1709168523"
    using epoch_days_jan_feb[of 2024 2 29] by (simp add: epoch_secs_def example_date_def)
  ultimately have "valid_date (example_date 2)" "epoch_secs (example_date 2) = 1709168523" by auto
  then show ?thesis
    using efi_clock_correct[of "example_date 2" "\<lambda>_. Some (example_date 2)" "()" "(0, 0)"]
    by (simp add: example_date_def)
qed

text \<open>In January the EFI clock is wrong: the month is a byte, \<open>t.Month -= 2\<close> gives 255 and not a value
  below 1, so the year is not adjusted and the time is 7827 days ahead, 7828 in a leap year.\<close>

theorem efi_clock_january:
  assumes "valid_date t" "Month t = 1" "GetTime w = Some t" "sint (TimeZone t) = 0x07FF"
  shows "efi_gettime_wall GetTime out w =
    ((0, word_of_int (epoch_secs t + (if leap (unat (Year t)) then 7828 else 7827) * 86400), ucast (Nanosecond t)), w)"
proof -
  have "TimeZone (efi_shift_month t) = TimeZone t" "Nanosecond (efi_shift_month t) = Nanosecond t"
    by (simp_all add: efi_shift_month_def Let_def)
  then show ?thesis
    using assms efi_secs_january by (simp add: efi_gettime_wall_def EFI_UNSPECIFIED_TIMEZONE_def Let_def)
qed

theorem efi_clock_january_witness:
  "efi_gettime_wall (\<lambda>_. Some ((example_date 1)\<lparr> TimeZone := 0x07FF \<rparr>)) (0, 0) () = ((0, 1706490123 + 7828 * 86400, 4), ())"
proof -
  let ?t = "(example_date 1)\<lparr> TimeZone := 0x07FF \<rparr>"
  have v: "valid_date ?t" "sint (TimeZone ?t) = 0x07FF" by code_simp+
  have l: "leap (unat (Year ?t))" by (simp add: leap_def example_date_def)
  have e: "epoch_secs ?t = 1706490123"
    using epoch_days_jan_feb[of 2024 1 29] by (simp add: epoch_secs_def example_date_def)
  then show ?thesis
    using efi_clock_january[OF v(1) _ _ v(2), of "\<lambda>_. Some ?t" "()" "(0, 0)"] l e
    by (simp add: example_date_def)
qed

end
