(* ===== verification/Efi_Start.thy ===== *)
theory Efi_Start
  imports Efi_Console Efi_Clock Malloc
begin

text \<open>
  The start of a program in \<open>efi/start_main.c\<close>, with the exception mechanism of
  \<open>efi/gnu_efi_crt.h\<close>: \<open>exit\<close> leaves its status and jumps back to \<open>call_main\<close>. An outcome \<open>Exits\<close>
  of \<open>main\<close> is the jump. The services of the firmware (its pool allocator, its clock, the shell's
  arguments) are arguments of the definitions.
\<close>

section \<open>The hooks\<close>

definition EXIT_FAILURE :: int where "EXIT_FAILURE = 1"
definition EXIT_SUCCESS :: int where "EXIT_SUCCESS = 0"

definition efi_exit :: "int \<Rightarrow> 'f efi_world \<Rightarrow> bool \<times> 'f efi_world" where
  "efi_exit status w = (True, w\<lparr> main_retval := status \<rparr>)"

definition efi_usleep64 :: "u64 \<Rightarrow> 'f efi_world \<Rightarrow> u64 \<times> 'f efi_world" where
  "efi_usleep64 micro_seconds w = (0, w\<lparr> stalls := stalls w @ [micro_seconds] \<rparr>)"

text \<open>The services of the firmware.\<close>

record 'f efi_services =
  AllocatePool :: "u64 \<Rightarrow> mem \<Rightarrow> 'f \<Rightarrow> ptr \<times> mem \<times> 'f"
  FreePool :: "ptr \<Rightarrow> mem \<Rightarrow> 'f \<Rightarrow> mem \<times> 'f"
  GetTime :: "'f \<Rightarrow> EFI_TIME option"

definition efi_sysdeps :: "'f efi_services \<Rightarrow> bool \<Rightarrow> 'f efi_world nnlc_sysdeps" where
  "efi_sysdeps bs StdErr_null =
     \<lparr> sys_malloc = (\<lambda>n m w. let (p, m, f) = AllocatePool bs n m (firmware w) in (p, m, w\<lparr> firmware := f \<rparr>)),
       sys_free = (\<lambda>p m w. let (m, f) = FreePool bs p m (firmware w) in (m, w\<lparr> firmware := f \<rparr>)),
       sys_write_stdout = efi_write_stdout,
       sys_write_stderr = (if \<not> StdErr_null then efi_write_stderr else efi_write_stdout),
       sys_exit = efi_exit,
       sys_usleep = efi_usleep64,
       sys_gettime_monotonic = efi_gettime_wall (\<lambda>w. GetTime bs (firmware w)) (0, 0),
       sys_gettime_wall = efi_gettime_wall (\<lambda>w. GetTime bs (firmware w)) (0, 0) \<rparr>"

section \<open>Arguments\<close>

text \<open>\<open>while (*s16) *buff++ = *s16++; *buff++ = '\0';\<close> on the characters of a string.\<close>

fun copy_wide :: "mem \<Rightarrow> ptr \<Rightarrow> u16 list \<Rightarrow> (ptr \<times> mem) option" where
  "copy_wide m bufp [] = do { m \<leftarrow> wr m bufp 0; Some (Suc bufp, m) }"
| "copy_wide m bufp (c # s16) = do { m \<leftarrow> wr m bufp (ucast c); copy_wide m (Suc bufp) s16 }"

fun argv_loop :: "mem \<Rightarrow> ptr \<Rightarrow> nat \<Rightarrow> ptr \<Rightarrow> u16 list list \<Rightarrow> mem option" where
  "argv_loop m argv i bufp [] = store_u64 m (argv + 8 * i) 0"
| "argv_loop m argv i bufp (s16 # Argv) = do {
     m \<leftarrow> store_u64 m (argv + 8 * i) (word_of_nat bufp);
     (bufp, m) \<leftarrow> copy_wide m bufp s16;
     argv_loop m argv (Suc i) bufp Argv }"

text \<open>\<open>Argv\<close> is what \<open>GetShellArgcArgv\<close> returns, \<open>None\<close> when its count is negative. The result is the
  return value and \<open>*argv\<close>.\<close>

definition retrieve_argv ::
  "'w nnlc_internal_data \<Rightarrow> u16 list list option \<Rightarrow> mem \<Rightarrow> 'w \<Rightarrow> ((int \<times> ptr) \<times> mem \<times> 'w) option" where
  "retrieve_argv d Argv m w =
     (case Argv of
        None \<Rightarrow> Some ((-1, NULL), m, w)
      | Some Argv \<Rightarrow>
          (let Argc = length Argv;
               sz = sum_list (map (\<lambda>s. length s + 1) Argv) in
           if sz \<le> 0 then Some ((-1, NULL), m, w)
           else do {
             (data, m, w) \<leftarrow> malloc d (word_of_nat ((Argc + 1) * 8 + sz)) m w;
             if data = NULL then Some ((-1, NULL), m, w)
             else do {
               let bufp = data + (Argc + 1) * 8;
               m \<leftarrow> argv_loop m data 0 bufp Argv;
               Some ((int Argc, data), m, w) } }))"

section \<open>Calling \<open>main\<close>\<close>

text \<open>A program is given the memory and leaves a world and its end. The memory it leaves is not part of the
  outcome: after \<open>main\<close> the runtime reads only the literals of its own messages.\<close>

type_synonym 'f main_fun = "int \<Rightarrow> ptr \<Rightarrow> mem \<Rightarrow> 'f efi_world \<Rightarrow> (int, 'f efi_world) outcome"

definition exit_called_format :: "u8 list" where
  "exit_called_format = lit ''exit(%d) was called'' @ [10]"

definition call_main ::
  "formatter \<Rightarrow> 'f efi_world nnlc_internal_data \<Rightarrow> 'f main_fun \<Rightarrow> mem \<Rightarrow> int \<Rightarrow> ptr \<Rightarrow> 'f efi_world
    \<Rightarrow> (int, 'f efi_world) outcome" where
  "call_main tfp d main m argc argv w =
     (let w = w\<lparr> main_retval := EXIT_FAILURE \<rparr>;
          r = (case main argc argv m w of
                 Returns rc w \<Rightarrow> Returns () (w\<lparr> main_retval := rc \<rparr>)
               | Exits _ w \<Rightarrow>
                   andthen (fprintf tfp m (Some (libc_stderr d)) exit_called_format [va_int (main_retval w)] w)
                     (\<lambda>_ w. Returns () w)
               | Aborts w \<Rightarrow> Aborts w
               | Hangs w \<Rightarrow> Hangs w
               | Faults \<Rightarrow> Faults)
      in andthen r (\<lambda>_ w. Returns (main_retval w) w))"

datatype EFI_STATUS = EFI_SUCCESS | EFI_UNSUPPORTED | EFI_OUT_OF_RESOURCES | EFI_LOAD_ERROR

text \<open>
  The macro \<open>EFI_NANOLIBC_CALL\<close> (\<open>efi/gnu_efi_crt.h\<close>): a function called by the firmware, whose
  failure or early \<open>exit\<close> becomes the given status.
\<close>

definition efi_nanolibc_call ::
  "EFI_STATUS \<Rightarrow> ('a \<Rightarrow> 'w \<Rightarrow> (int, 'w) outcome) \<Rightarrow> 'a \<Rightarrow> 'w \<Rightarrow> (EFI_STATUS, 'w) outcome" where
  "efi_nanolibc_call retval_failure fct args w =
     (case fct args w of
        Returns r w \<Rightarrow> Returns (if 0 = r then EFI_SUCCESS else retval_failure) w
      | Exits _ w \<Rightarrow> Returns retval_failure w
      | Aborts w \<Rightarrow> Aborts w
      | Hangs w \<Rightarrow> Hangs w
      | Faults \<Rightarrow> Faults)"

text \<open>
  The start in the debugging configuration (\<open>EFI_DEBUG_WAIT_GDB\<close>). The variable \<open>efi_debug_wait\<close> is
  volatile: \<open>wait i\<close> is what the \<open>i\<close>-th reading finds, which a debugger may have set. \<open>Print\<close> is the
  firmware's.
\<close>

partial_function (option) debug_wait_loop :: "(nat \<Rightarrow> bool) \<Rightarrow> nat \<Rightarrow> nat option" where
  "debug_wait_loop wait i = (if wait i then debug_wait_loop wait (Suc i) else Some i)"

definition image_base_format :: "u8 list" where
  "image_base_format = lit ''Image base: 0x%llx'' @ [10]"

definition waiting_message :: "u8 list" where
  "waiting_message = lit ''Waiting for gdb to set variable wait = 0...'' @ [10]"

definition continuing_message :: "u8 list" where
  "continuing_message = lit ''Continuing...'' @ [10]"

definition efi_start_debug ::
  "(u8 list \<Rightarrow> va_arg list \<Rightarrow> 'w \<Rightarrow> 'w) \<Rightarrow> ptr \<Rightarrow> (nat \<Rightarrow> bool) \<Rightarrow> 'w \<Rightarrow> (unit, 'w) outcome" where
  "efi_start_debug Print ImageBase wait w =
     (let w = Print image_base_format [va_ptr ImageBase] w;
          w = Print waiting_message [] w
      in case debug_wait_loop wait 0 of
           None \<Rightarrow> Hangs w
         | Some _ \<Rightarrow> Returns () (Print continuing_message [] w))"

definition argv_warning :: "u8 list" where
  "argv_warning = lit ''Warning: cannot retrieve argc/argv'' @ [10]"

definition main_failed_format :: "u8 list" where
  "main_failed_format = lit ''main() failed with return value: %d'' @ [10]"

definition libnanolibc_start ::
  "formatter \<Rightarrow> 'f efi_services \<Rightarrow> 'f main_fun \<Rightarrow> bool \<Rightarrow> bool \<Rightarrow> u16 list list option \<Rightarrow> mem \<Rightarrow> 'f efi_world
    \<Rightarrow> (EFI_STATUS, 'f efi_world) outcome" where
  "libnanolibc_start tfp bs main ConOut_null StdErr_null Argv m w =
     (let w = w\<lparr> main_retval := EXIT_FAILURE \<rparr> in
      if ConOut_null then Returns EFI_OUT_OF_RESOURCES w
      else
        let (rc, d) = nnlc_initialize (efi_sysdeps bs StdErr_null) nnlc_internal_data0 in
        if rc \<noteq> 0 then Returns EFI_LOAD_ERROR w
        else
          (case retrieve_argv d Argv m w of
             None \<Rightarrow> Faults
           | Some ((argc, argv), m, w) \<Rightarrow>
               andthen (if argc < 0 then andthen (fprintf tfp m (Some (libc_stderr d)) argv_warning [] w)
                                             (\<lambda>_ w. Returns () w)
                        else Returns () w) (\<lambda>_ w.
               andthen (call_main tfp d main m argc argv w) (\<lambda>rc w.
               if rc \<noteq> EXIT_SUCCESS then
                 andthen (fprintf tfp m (Some (libc_stderr d)) main_failed_format [va_int rc] w)
                   (\<lambda>_ w. Returns EFI_UNSUPPORTED w)
               else Returns EFI_SUCCESS w))))"

definition libnanolibc_start_debug ::
  "(u8 list \<Rightarrow> va_arg list \<Rightarrow> 'f efi_world \<Rightarrow> 'f efi_world) \<Rightarrow> ptr \<Rightarrow> (nat \<Rightarrow> bool)
    \<Rightarrow> formatter \<Rightarrow> 'f efi_services \<Rightarrow> 'f main_fun \<Rightarrow> bool \<Rightarrow> bool \<Rightarrow> u16 list list option \<Rightarrow> mem \<Rightarrow> 'f efi_world
    \<Rightarrow> (EFI_STATUS, 'f efi_world) outcome" where
  "libnanolibc_start_debug Print ImageBase wait tfp bs main ConOut_null StdErr_null Argv m w =
     andthen (efi_start_debug Print ImageBase wait w)
       (\<lambda>_ w. libnanolibc_start tfp bs main ConOut_null StdErr_null Argv m w)"

section \<open>Lemmas on the arguments\<close>

lemma copy_wide_exact:
  "mapped m buf (Suc (length s)) \<Longrightarrow>
    copy_wide m buf s = Some (buf + Suc (length s), store m buf (map ucast s @ [0]))"
proof (induction s arbitrary: m buf)
  case Nil
  then show ?case by (simp add: mapped_Suc store_Cons del: fun_upd_apply)
next
  case (Cons c s)
  then have "m buf \<noteq> None" "mapped (m(buf \<mapsto> ucast c)) (Suc buf) (Suc (length s))"
    by (auto simp: mapped_Suc)
  with Cons.IH[OF this(2)] show ?case by (simp add: store_Cons del: fun_upd_apply)
qed

definition argv_size :: "u16 list list \<Rightarrow> nat" where
  "argv_size Argv = sum_list (map (\<lambda>s. length s + 1) Argv)"

text \<open>All characters have a low byte that is not NUL.\<close>

definition narrow :: "u16 list list \<Rightarrow> bool" where
  "narrow Argv \<longleftrightarrow> (\<forall>s \<in> set Argv. \<forall>c \<in> set s. (ucast c :: u8) \<noteq> 0)"

text \<open>The array of the arguments from index \<open>i\<close> on: the addresses of the strings, and \<open>NULL\<close>.\<close>

definition argv_at :: "mem \<Rightarrow> ptr \<Rightarrow> nat \<Rightarrow> u16 list list \<Rightarrow> bool" where
  "argv_at m argv i Argv \<longleftrightarrow>
     (\<forall>k < length Argv. \<exists>a. load_u64 m (argv + 8 * (i + k)) = Some (word_of_nat a) \<and> a < 2 ^ 64 \<and>
        cstr m a (map ucast (Argv ! k))) \<and>
     load_u64 m (argv + 8 * (i + length Argv)) = Some 0"

lemma load_u64_cong: "(\<And>x. p \<le> x \<Longrightarrow> x < p + 8 \<Longrightarrow> m x = m' x) \<Longrightarrow> load_u64 m p = load_u64 m' p"
  unfolding load_u64_def by (subst load_cong[where m' = m']) auto

lemma load_u64_store: "load_u64 (store m p (to_le 8 (unat v))) p = Some v"
  using load_store_same[of m p "to_le 8 (unat v)"] by (intro load_u64_exact) simp

lemma argv_loop_exact:
  assumes "mapped m (argv + 8 * i) (8 * Suc (length Argv))" "mapped m buf (argv_size Argv)"
    "argv + 8 * i + 8 * Suc (length Argv) \<le> buf" "buf + argv_size Argv \<le> 2 ^ 64" "narrow Argv"
  shows "\<exists>m'. argv_loop m argv i buf Argv = Some m' \<and> argv_at m' argv i Argv \<and>
    (\<forall>x. x < argv + 8 * i \<or> argv + 8 * i + 8 * Suc (length Argv) \<le> x \<and> x < buf \<or> buf + argv_size Argv \<le> x \<longrightarrow> m' x = m x)"
  using assms
proof (induction Argv arbitrary: m i buf)
  case Nil
  let ?m = "store m (argv + 8 * i) (to_le 8 (unat (0 :: u64)))"
  have "argv_loop m argv i buf [] = Some ?m"
    using Nil.prems(1) by (simp add: store_u64_exact)
  moreover have "argv_at ?m argv i []"
    using load_u64_store[of m "argv + 8 * i" 0] by (simp add: argv_at_def)
  ultimately show ?case
    using Nil.prems(3) by (auto simp: argv_size_def store_outside)
next
  case (Cons s Argv)
  define p where "p = argv + 8 * i"
  define n where "n = length Argv"
  define T where "T = argv_size Argv"
  define buf' where "buf' = buf + Suc (length s)"
  have T: "argv_size (s # Argv) = Suc (length s) + T" by (simp add: argv_size_def T_def)
  have pr: "mapped m p (8 * Suc (Suc n))" "mapped m buf (Suc (length s) + T)" "p + 8 * Suc (Suc n) \<le> buf"
    "buf + Suc (length s) + T \<le> 2 ^ 64" "narrow Argv" "\<forall>c \<in> set s. (ucast c :: u8) \<noteq> 0"
    using Cons.prems T by (auto simp: p_def n_def narrow_def)
  define m1 where "m1 = store m p (to_le 8 (unat (word_of_nat buf :: u64)))"
  define m2 where "m2 = store m1 buf (map ucast s @ [0])"
  have "mapped m p 8" "mapped m1 buf (Suc (length s))"
    using pr(1,2) by (auto simp: m1_def intro: mapped_mono)
  then have step: "argv_loop m argv i buf (s # Argv) = argv_loop m2 argv (Suc i) buf' Argv"
    by (simp add: store_u64_exact copy_wide_exact buf'_def flip: p_def m1_def m2_def)
  have "mapped m2 (argv + 8 * Suc i) (8 * Suc n)"
    using mapped_shift[OF pr(1), of 8 "8 * Suc n"] by (auto simp: m1_def m2_def p_def ac_simps)
  moreover have "mapped m2 buf' T"
    using mapped_shift[OF pr(2), of "Suc (length s)" T] by (auto simp: m1_def m2_def buf'_def)
  ultimately obtain m' where m': "argv_loop m2 argv (Suc i) buf' Argv = Some m'" "argv_at m' argv (Suc i) Argv"
    "\<forall>x. x < p + 8 \<or> p + 8 * Suc (Suc n) \<le> x \<and> x < buf' \<or> buf' + T \<le> x \<longrightarrow> m' x = m2 x"
    using Cons.IH[of m2 "Suc i" buf'] pr(3-5) by (auto simp: n_def T_def p_def buf'_def)
  have first: "load_u64 m' p = Some (word_of_nat buf)"
  proof -
    have "load_u64 m' p = load_u64 m1 p"
      using m'(3) pr(3) by (intro load_u64_cong) (simp add: m2_def store_outside)
    then show ?thesis by (simp add: m1_def load_u64_store)
  qed
  have str: "cstr m' buf (map ucast s)"
  proof (rule cstr_cong)
    show "cstr m2 buf (map ucast s)"
      unfolding m2_def using pr(6) by (intro cstr_store_same) force
    show "m' (buf + k) = m2 (buf + k)" if "k \<le> length (map ucast s :: u8 list)" for k
      using m'(3) pr(3) that by (auto simp: buf'_def)
  qed
  have "argv_at m' argv i (s # Argv)"
    unfolding argv_at_def
  proof (intro conjI allI impI)
    fix k assume "k < length (s # Argv)"
    then show "\<exists>a. load_u64 m' (argv + 8 * (i + k)) = Some (word_of_nat a) \<and> a < 2 ^ 64 \<and>
        cstr m' a (map ucast ((s # Argv) ! k))"
    proof (cases k)
      case 0
      then show ?thesis using first str pr(4) by (intro exI[of _ buf]) (simp add: p_def)
    next
      case (Suc k')
      with m'(2) \<open>k < length (s # Argv)\<close> show ?thesis by (simp add: argv_at_def)
    qed
  qed (use m'(2) in \<open>simp add: argv_at_def\<close>)
  moreover have "m' x = m x"
    if "x < p \<or> p + 8 * Suc (Suc n) \<le> x \<and> x < buf \<or> buf' + T \<le> x" for x
  proof -
    have "m' x = m2 x" using m'(3) that by (auto simp: buf'_def)
    also have "m2 x = m1 x" using that pr(3) unfolding m2_def by (intro store_outside) (auto simp: buf'_def)
    also have "m1 x = m x" using that pr(3) unfolding m1_def by (intro store_outside) (auto simp: buf'_def)
    finally show ?thesis .
  qed
  ultimately show ?case
    using step m'(1) T by (auto simp: p_def n_def buf'_def)
qed

section \<open>Lemmas on the world\<close>

lemma write_blocks_keep:
  "(\<And>bs w. f (snd (wrt bs w)) = f w) \<Longrightarrow> f (snd (write_blocks wrt bss w n)) = f w"
  by (induction bss arbitrary: w n) (simp_all add: Let_def case_prod_unfold)

lemma vfprintf_keep:
  assumes "\<And>bs w. f (snd (wrt bs w)) = f w" "file_write st = Some wrt" "magic st = NNLC_STDIO_MAGIC"
  shows "\<exists>r w'. fprintf tfp m (Some st) fmt args w = Returns r w' \<and> f w' = f w"
proof -
  have "stream_write (Some st) = Some wrt" using assms(2,3) by (simp add: stream_write_def)
  then show ?thesis
    using write_blocks_keep[of f wrt "chunks 64 (tfp m fmt args)" w 0] assms(1)
    by (auto simp: fprintf_def vfprintf_exact split: prod.splits)
qed

lemma efi_conio_write_keep:
  assumes "\<And>s w. f (writer s w) = f w"
  shows "f (efi_conio_write writer s8 sz w) = f w"
proof (induction sz arbitrary: s8 w rule: less_induct)
  case (less sz)
  show ?case
    using less.IH by (subst efi_conio_write.simps) (auto simp: Let_def assms split: prod.splits)
qed

lemma efi_write_keep:
  "main_retval (snd (efi_write_stdout bs w)) = main_retval w"
  "main_retval (snd (efi_write_stderr bs w)) = main_retval w"
  by (simp_all add: efi_write_stdout_def efi_write_stderr_def Let_def)
    (rule efi_conio_write_keep, simp add: efi_stdout_writer_def efi_stderr_writer_def)+

definition efi_libc :: "'f efi_services \<Rightarrow> bool \<Rightarrow> 'f efi_world nnlc_internal_data" where
  "efi_libc bs StdErr_null = snd (nnlc_initialize (efi_sysdeps bs StdErr_null) nnlc_internal_data0)"

lemma efi_libc_simps:
  "sysdeps (efi_libc bs e) = Some (efi_sysdeps bs e)" "magic (libc_stderr (efi_libc bs e)) = NNLC_STDIO_MAGIC"
  "file_write (libc_stderr (efi_libc bs e)) = Some (if \<not> e then efi_write_stderr else efi_write_stdout)"
  "magic (libc_stdout (efi_libc bs e)) = NNLC_STDIO_MAGIC" "file_write (libc_stdout (efi_libc bs e)) = Some efi_write_stdout"
  by (simp_all add: efi_libc_def nnlc_initialize_def Let_def efi_sysdeps_def)

lemma efi_fprintf_keep:
  "\<exists>r w'. fprintf tfp m (Some (libc_stderr (efi_libc bs e))) fmt args w = Returns r w' \<and> main_retval w' = main_retval w"
  by (rule vfprintf_keep[OF _ efi_libc_simps(3,2)]) (simp add: efi_write_keep)

text \<open>\<open>main\<close> ends with a status by returning it or by calling \<open>exit\<close> anywhere.\<close>

definition ends_with :: "formatter \<Rightarrow> 'f efi_world nnlc_internal_data \<Rightarrow> (int, 'f efi_world) outcome \<Rightarrow> int \<Rightarrow> bool" where
  "ends_with tfp d r n \<longleftrightarrow> (\<exists>w. r = Returns n w) \<or> (\<exists>m w. r = exit' tfp d m n w)"

lemma call_main_status:
  assumes "ends_with tfp (efi_libc bs e) (main argc argv m (w\<lparr> main_retval := EXIT_FAILURE \<rparr>)) n"
  shows "\<exists>w'. call_main tfp (efi_libc bs e) main m argc argv w = Returns n w'"
proof -
  let ?d = "efi_libc bs e"
  consider w1 where "main argc argv m (w\<lparr> main_retval := EXIT_FAILURE \<rparr>) = Returns n w1"
    | m1 w1 where "main argc argv m (w\<lparr> main_retval := EXIT_FAILURE \<rparr>) = exit' tfp ?d m1 n w1"
    using assms by (auto simp: ends_with_def)
  then show ?thesis
  proof cases
    case 1
    then show ?thesis by (simp add: call_main_def Let_def)
  next
    case 2
    then have x: "main argc argv m (w\<lparr> main_retval := EXIT_FAILURE \<rparr>) = Exits n (w1\<lparr> main_retval := n \<rparr>)"
      by (simp add: exit'_def efi_libc_simps(1)) (simp add: efi_sysdeps_def efi_exit_def)
    obtain r w2 where "fprintf tfp m (Some (libc_stderr ?d)) exit_called_format [va_int n] (w1\<lparr> main_retval := n \<rparr>) = Returns r w2"
      "main_retval w2 = n"
      using efi_fprintf_keep[of tfp m bs e exit_called_format "[va_int n]" "w1\<lparr> main_retval := n \<rparr>"] by auto
    with x show ?thesis by (simp add: call_main_def Let_def)
  qed
qed

text \<open>There is memory for the block of the arguments.\<close>

definition argv_memory :: "'w nnlc_internal_data \<Rightarrow> u16 list list \<Rightarrow> mem \<Rightarrow> 'w \<Rightarrow> bool" where
  "argv_memory d Argv m w \<longleftrightarrow>
     (case malloc d (word_of_nat ((length Argv + 1) * 8 + argv_size Argv)) m w of
        None \<Rightarrow> False | Some (p, _) \<Rightarrow> p \<noteq> NULL)"

lemma retrieve_argv_contract:
  assumes "heap_inv d live rt m w" "narrow Argv" "Argv \<noteq> []" "(length Argv + 1) * 8 + argv_size Argv + 31 < 2 ^ 64"
  shows "\<exists>argc argv m' w'. retrieve_argv d (Some Argv) m w = Some ((argc, argv), m', w') \<and>
    (if argv_memory d Argv m w
     then argc = int (length Argv) \<and> argv_at m' argv 0 Argv \<and> (\<forall>a. m a \<noteq> None \<longrightarrow> m' a = m a)
     else argc = -1 \<and> argv = NULL \<and> m' = m)"
proof -
  define n where "n = (length Argv + 1) * 8 + argv_size Argv"
  have u: "unat (word_of_nat n :: u64) = n"
    using assms(4) unfolding unsigned_of_nat by (simp add: take_bit_nat_eq_self n_def)
  have pos: "argv_size Argv > 0" using assms(3) by (cases Argv) (auto simp: argv_size_def)
  have lim: "0 < unat (word_of_nat n :: u64)" "unat (word_of_nat n :: u64) + 31 < 2 ^ 64"
    using assms(4) unfolding u by (simp_all add: n_def)
  obtain p m1 w1 where mal: "malloc d (word_of_nat n) m w = Some (p, m1, w1)" "heap_inv d live rt m1 w1"
    "\<forall>a. m a \<noteq> None \<longrightarrow> m1 a = m a" "p = NULL \<longrightarrow> m1 = m"
    "p \<noteq> NULL \<longrightarrow> malloc_block live m1 w1 p n \<and> (\<forall>i < n. m (p + i) = None)"
    using malloc_contract[OF assms(1) lim] unfolding u by (elim exE conjE) (rule that; auto split: if_splits)
  have un: "retrieve_argv d (Some Argv) m w = (if p = NULL then Some ((-1, NULL), m1, w1)
      else do { m \<leftarrow> argv_loop m1 p 0 (p + (length Argv + 1) * 8) Argv; Some ((int (length Argv), p), m, w1) })"
    unfolding retrieve_argv_def option.case Let_def argv_size_def[symmetric] n_def[symmetric]
    using pos mal(1) by simp
  have am: "argv_memory d Argv m w \<longleftrightarrow> p \<noteq> NULL"
    unfolding argv_memory_def n_def[symmetric] using mal(1) by simp
  show ?thesis
  proof (cases "p = NULL")
    case True
    with un mal(4) am show ?thesis by simp
  next
    case False
    note blk = conjunct1[OF mp[OF mal(5) False]] and fresh = conjunct2[OF mp[OF mal(5) False]]
    have mp: "mapped m1 p n" "p + n \<le> 2 ^ 64" using heap.block_mapped[OF mal(2) blk] by auto
    obtain m' where m': "argv_loop m1 p 0 (p + (length Argv + 1) * 8) Argv = Some m'" "argv_at m' p 0 Argv"
      "\<forall>x. x < p \<or> p + 8 * Suc (length Argv) \<le> x \<and> x < p + (length Argv + 1) * 8 \<or>
        p + (length Argv + 1) * 8 + argv_size Argv \<le> x \<longrightarrow> m' x = m1 x"
      using argv_loop_exact[of m1 p 0 Argv "p + (length Argv + 1) * 8"] mp assms(2)
        mapped_mono[OF mp(1), of "8 * Suc (length Argv)"] mapped_shift[OF mp(1), of "(length Argv + 1) * 8" "argv_size Argv"]
      by (auto simp: n_def)
    have "m' a = m a" if "m a \<noteq> None" for a
    proof -
      have "a < p \<or> p + n \<le> a"
      proof (rule ccontr)
        assume "\<not> (a < p \<or> p + n \<le> a)"
        then have "a - p < n" "p + (a - p) = a" by linarith+
        with fresh that show False by metis
      qed
      then have "m' a = m1 a" using m'(3) by (auto simp: n_def)
      with mal(3) that show ?thesis by simp
    qed
    with un False m'(1,2) am show ?thesis by auto
  qed
qed

lemma efi_nanolibc_call_success:
  "failure \<noteq> EFI_SUCCESS \<Longrightarrow>
   efi_nanolibc_call failure fct args w = Returns EFI_SUCCESS w' \<longleftrightarrow> fct args w = Returns 0 w'"
  by (auto simp: efi_nanolibc_call_def split: outcome.splits)

section \<open>Properties\<close>


definition example_services :: "unit efi_services" where
  "example_services = \<lparr> AllocatePool = (\<lambda>n m f. (NULL, m, f)),
     FreePool = (\<lambda>p m f. (m, f)), GetTime = (\<lambda>f. None) \<rparr>"

definition example_world :: "unit efi_world" where
  "example_world = \<lparr> conout = [], conerr = [], stalls = [], main_retval = 0, firmware = () \<rparr>"




section \<open>Waiting for a debugger\<close>

lemma debug_wait_loop_ends: "\<not> wait (i + k) \<Longrightarrow> debug_wait_loop wait i \<noteq> None"
proof (induction k arbitrary: i)
  case 0
  then show ?case by (simp add: debug_wait_loop.simps[of wait i])
next
  case (Suc k)
  then show ?case using Suc.IH[of "Suc i"] by (simp add: debug_wait_loop.simps[of wait i])
qed

lemma debug_wait_loop_Some: "debug_wait_loop wait i = Some j \<Longrightarrow> i \<le> j \<and> \<not> wait j"
  by (erule debug_wait_loop.raw_induct[rotated]) (auto split: if_splits, fastforce+)

text \<open>The debugging start waits exactly until a reading of the variable finds it cleared; then it prints
  its last message and is the ordinary start.\<close>

theorem debug_start_waits:
  "libnanolibc_start_debug Print base wait tfp bs main c s Argv m w =
    (let w = Print waiting_message [] (Print image_base_format [va_ptr base] w) in
     if \<exists>i. \<not> wait i then libnanolibc_start tfp bs main c s Argv m (Print continuing_message [] w) else Hangs w)"
proof (cases "debug_wait_loop wait 0")
  case None
  then have "wait i" for i using debug_wait_loop_ends[of wait 0 i] by auto
  with None show ?thesis by (simp add: libnanolibc_start_debug_def efi_start_debug_def Let_def)
next
  case (Some j)
  then show ?thesis using debug_wait_loop_Some[OF Some] by (auto simp: libnanolibc_start_debug_def efi_start_debug_def Let_def)
qed

end
