(* ===== verification/Efi_Pool.thy ===== *)
theory Efi_Pool
  imports Efi_Start
begin

text \<open>
  The firmware's pool, behind \<open>AllocatePool\<close> and \<open>FreePool\<close>, as the heap of the library on EFI, and a firmware
  with a bump allocator as its pool, on which the programs of \<open>Hello\<close> and \<open>Efi_Cxx\<close> are run.
\<close>

section \<open>The firmware's pool as the library's heap\<close>

text \<open>A pool that meets the contract of the allocation hooks gives a heap of the library.\<close>

lemma efi_runtime_heap:
  assumes "runtime_malloc_ok live rt (AllocatePool bs)" "runtime_free_ok live rt (FreePool bs)"
  shows "runtime_heap (efi_libc bs se) (\<lambda>w. live (firmware w)) (\<lambda>D w. rt D (firmware w))"
proof -
  have "runtime_malloc_ok (\<lambda>w. live (firmware w)) (\<lambda>D w. rt D (firmware w)) (sys_malloc (efi_sysdeps bs se))"
    unfolding runtime_malloc_ok_def
  proof (intro allI impI)
    fix n :: u64 and m :: mem and w :: "'a efi_world" and q m' w'
    assume h: "n \<noteq> 0" "rt (dom m) (firmware w)" "sys_malloc (efi_sysdeps bs se) n m w = (q, m', w')"
    obtain f where f: "AllocatePool bs n m (firmware w) = (q, m', f)" "w' = w\<lparr> firmware := f \<rparr>"
      using h(3) by (auto simp: efi_sysdeps_def split: prod.splits)
    from assms(1)[unfolded runtime_malloc_ok_def, rule_format, OF h(1,2) f(1)]
    show "rt (dom m') (firmware w') \<and> (if q = NULL then m' = m \<and> live (firmware w') = live (firmware w)
        else q + unat n \<le> 2 ^ 64 \<and> live (firmware w') = insert (q, unat n) (live (firmware w)) \<and> mapped m' q (unat n) \<and>
          (\<forall>a. q \<le> a \<and> a < q + unat n \<longrightarrow> m a = None) \<and> (\<forall>a. a < q \<or> q + unat n \<le> a \<longrightarrow> m' a = m a))"
      using f(2) by (cases "q = NULL") auto
  qed
  moreover have "runtime_free_ok (\<lambda>w. live (firmware w)) (\<lambda>D w. rt D (firmware w)) (sys_free (efi_sysdeps bs se))"
    unfolding runtime_free_ok_def
  proof (intro allI impI)
    fix q n and m :: mem and w :: "'a efi_world" and m' w'
    assume h: "(q, n) \<in> live (firmware w)" "rt (dom m) (firmware w)" "sys_free (efi_sysdeps bs se) q m w = (m', w')"
    obtain f where f: "FreePool bs q m (firmware w) = (m', f)" "w' = w\<lparr> firmware := f \<rparr>"
      using h(3) by (auto simp: efi_sysdeps_def split: prod.splits)
    from assms(2)[unfolded runtime_free_ok_def, rule_format, OF h(1,2) f(1)]
    show "rt (dom m') (firmware w') \<and> live (firmware w') = live (firmware w) - {(q, n)} \<and>
        (\<forall>a. a < q \<or> q + n \<le> a \<longrightarrow> m' a = m a)"
      using f(2) by simp
  qed
  ultimately show ?thesis by (simp add: runtime_heap_def efi_libc_simps)
qed

section \<open>A firmware with memory\<close>

definition bump_services :: "bump efi_services" where
  "bump_services = \<lparr> AllocatePool = bump_malloc, FreePool = bump_free, GetTime = (\<lambda>f. None) \<rparr>"

definition bump_world :: "bump efi_world" where
  "bump_world = \<lparr> conout = [], conerr = [], stalls = [], main_retval = 0, firmware = (5, []) \<rparr>"

lemma bump_pool_grows:
  assumes "malloc (efi_libc bump_services se) n m w = Some (p, m', w')"
    "n \<noteq> 0" "0 < fst (firmware w)" "fst (firmware w) + unat n + 64 \<le> 2 ^ 64"
  shows "p \<noteq> NULL \<and> fst (firmware w') \<le> fst (firmware w) + unat n + 64"
proof -
  have "unat (31 + n) = unat n + 31"
    using assms(4) by (simp add: unat_word_ariths)
  moreover have "fst (firmware w) + 16 \<le> align_after (fst (firmware w)) sizeof_malloc_block"
    using align_after_bounds[OF _ refl, of "fst (firmware w)"] assms(4) by simp
  ultimately show ?thesis using assms
    by (auto simp: malloc_def efi_libc_simps efi_sysdeps_def bump_services_def bump_malloc_def pad_for_alignment_def
        NNLC_MALLOC_ALIGNMENT_def sizeof_malloc_block_def Let_def bind_eq_Some_conv split: if_splits)
qed

end
