(* ===== verification/Efi_Pci.thy ===== *)
theory Efi_Pci
  imports Strtox Byte_Order "HOL-Library.Multiset"
begin

text \<open>
  \<open>efi/ggl_pci.c\<close>: PCI devices through the firmware's PCI protocol. The parser of device addresses
  reads memory with the library's \<open>strtoul\<close>. The firmware is an environment whose answers may
  depend on everything that has been asked before: the state is the list of calls made so far, to
  which each call is added, and every service is a function of its arguments and that list.
  Messages on \<open>stderr\<close> are calls too.
\<close>

section \<open>Addresses\<close>

text \<open>\<open>struct ggl_pci_locator\<close>; \<open>UINTN\<close> is a 64-bit word.\<close>

record ggl_pci_locator =
  domain :: u64
  bus :: u64
  device :: u64
  func :: u64

text \<open>\<open>items[i] = strtoul(s, &endptr, 16)\<close>.\<close>

definition parse_item :: "mem \<Rightarrow> ptr \<Rightarrow> (u64 \<times> ptr) option" where
  "parse_item m s = do { (v, e) \<leftarrow> strtoul m s 16; endptr \<leftarrow> e; Some (word_of_int v, endptr) }"

text \<open>\<open>!isxdigit( *s)\<close> is the test for a missing digit.\<close>

definition at_xdigit :: "mem \<Rightarrow> ptr \<Rightarrow> bool option" where
  "at_xdigit m s = do { c \<leftarrow> m s; Some (isxdigit (sint c)) }"

text \<open>\<open>*endptr\<close> under the guard \<open>!endptr\<close>: a null pointer reads as a NUL.\<close>

definition peek :: "mem \<Rightarrow> ptr \<Rightarrow> u8 option" where
  "peek m endptr = (if endptr = NULL then Some 0 else m endptr)"

text \<open>The validity checks, with the 32-bit masks of the code converted to \<open>UINTN\<close>.\<close>

definition valid_locator :: "ggl_pci_locator \<Rightarrow> bool" where
  "valid_locator r \<longleftrightarrow>
     domain r AND ucast (NOT 0xffff :: u32) = 0 \<and> bus r AND ucast (NOT 0xff :: u32) = 0 \<and>
     device r AND ucast (NOT 0xff :: u32) = 0 \<and> func r AND ucast (NOT 0x7 :: u32) = 0"

definition locator_of :: "u64 list \<Rightarrow> ggl_pci_locator" where
  "locator_of items =
     (if length items = 3 then \<lparr> domain = 0, bus = items ! 0, device = items ! 1, func = items ! 2 \<rparr>
      else \<lparr> domain = items ! 0, bus = items ! 1, device = items ! 2, func = items ! 3 \<rparr>)"

text \<open>The return value and what is in \<open>*result\<close> afterwards.\<close>

definition parse_pci_address ::
  "mem \<Rightarrow> ptr \<Rightarrow> ggl_pci_locator \<Rightarrow> (int \<times> ggl_pci_locator) option" where
  "parse_pci_address m device_locator result =
     (let finish = (\<lambda>items. let r = locator_of items in Some (if valid_locator r then 0 else -1, r)) in
      if device_locator = NULL then Some (-1, result)
      else do {
        digit \<leftarrow> at_xdigit m device_locator;
        if \<not> digit then Some (-1, result)
        else do {
          (i0, endptr) \<leftarrow> parse_item m device_locator;
          c \<leftarrow> peek m endptr;
          if c \<noteq> of_char (CHR '':'') then Some (-1, result)
          else do {
            digit \<leftarrow> at_xdigit m (endptr + 1);
            if \<not> digit then Some (-1, result)
            else do {
              (i1, endptr) \<leftarrow> parse_item m (endptr + 1);
              c \<leftarrow> peek m endptr;
              if c = 0 then Some (-1, result)
              else if c \<noteq> of_char (CHR '':'') \<and> c \<noteq> of_char (CHR ''.'') then Some (-1, result)
              else do {
                let nitems = (if c = of_char (CHR '':'') then 4 else 3 :: nat);
                digit \<leftarrow> at_xdigit m (endptr + 1);
                if \<not> digit then Some (-1, result)
                else do {
                  (i2, endptr) \<leftarrow> parse_item m (endptr + 1);
                  c \<leftarrow> peek m endptr;
                  if endptr = NULL then Some (-1, result)
                  else if nitems = 3 then (if c \<noteq> 0 then Some (-1, result) else finish [i0, i1, i2])
                  else if c \<noteq> of_char (CHR ''.'') then Some (-1, result)
                  else do {
                    digit \<leftarrow> at_xdigit m (endptr + 1);
                    if \<not> digit then Some (-1, result)
                    else do {
                      (i3, endptr) \<leftarrow> parse_item m (endptr + 1);
                      c \<leftarrow> peek m endptr;
                      if endptr = NULL \<or> c \<noteq> 0 then Some (-1, result)
                      else finish [i0, i1, i2, i3] } } } } } } } })"

section \<open>Devices\<close>

datatype ('h, 'p) pci_call =
    Say "u8 list"
  | Alloc | Free
  | LocateFailed | LocateHandleBuffer | FreeHandleBuffer
  | OpenFailed 'h | Opened 'h 'p | CloseProtocol 'h
  | GetLocation 'p | Attributes 'p
  | CfgRead 'p nat u32 | CfgWrite 'p nat u32 u32
  | MemRead 'p u32 u64 | MemWrite 'p u32 u64 u32
  | PollMem 'p u32 u32 u32 u32 u64

type_synonym ('h, 'p) calls = "('h, 'p) pci_call list"

text \<open>The services; \<open>None\<close> (or \<open>False\<close>) is an error status. \<open>do_poll\<close> gives the outcome and the
  last value read, which the firmware may have left alone.\<close>

datatype poll_status = Poll_ok | Poll_timeout | Poll_error

record ('h, 'p) pci_services =
  do_malloc :: "('h, 'p) calls \<Rightarrow> bool"
  do_locate :: "('h, 'p) calls \<Rightarrow> 'h list option"
  do_open :: "'h \<Rightarrow> ('h, 'p) calls \<Rightarrow> 'p option"
  do_location :: "'p \<Rightarrow> ('h, 'p) calls \<Rightarrow> ggl_pci_locator option"
  do_attributes :: "'p \<Rightarrow> ('h, 'p) calls \<Rightarrow> bool"
  do_cfg_read :: "'p \<Rightarrow> nat \<Rightarrow> u32 \<Rightarrow> ('h, 'p) calls \<Rightarrow> u32 option"
  do_cfg_write :: "'p \<Rightarrow> nat \<Rightarrow> u32 \<Rightarrow> u32 \<Rightarrow> ('h, 'p) calls \<Rightarrow> bool"
  do_mem_read :: "'p \<Rightarrow> u32 \<Rightarrow> u64 \<Rightarrow> ('h, 'p) calls \<Rightarrow> u32 option"
  do_mem_write :: "'p \<Rightarrow> u32 \<Rightarrow> u64 \<Rightarrow> u32 \<Rightarrow> ('h, 'p) calls \<Rightarrow> bool"
  do_poll :: "'p \<Rightarrow> u32 \<Rightarrow> u32 \<Rightarrow> u32 \<Rightarrow> u32 \<Rightarrow> u64 \<Rightarrow> ('h, 'p) calls \<Rightarrow> poll_status \<times> u64 option"

text \<open>\<open>struct ggl_pci_device\<close>; the handle and the protocol are set together.\<close>

record ('h, 'p) ggl_pci_device =
  location :: ggl_pci_locator
  handle :: 'h
  pciio :: 'p

fun lookup_loop ::
  "('h, 'p) pci_services \<Rightarrow> ggl_pci_locator \<Rightarrow> 'h list \<Rightarrow> ('h, 'p) calls \<Rightarrow> ('h \<times> 'p) option \<times> ('h, 'p) calls" where
  "lookup_loop bs loc [] tr = (None, tr)"
| "lookup_loop bs loc (h # hs) tr =
     (case do_open bs h tr of
        None \<Rightarrow> lookup_loop bs loc hs (tr @ [OpenFailed h, Say (lit ''Error opening device'')])
      | Some p \<Rightarrow>
          let tr = tr @ [Opened h p] in
          (case do_location bs p tr of
             None \<Rightarrow> lookup_loop bs loc hs
               (tr @ [GetLocation p, Say (lit ''Error reading device location''), CloseProtocol h])
           | Some at \<Rightarrow>
               let tr = tr @ [GetLocation p] in
               if domain at = domain loc \<and> bus at = bus loc \<and> device at = device loc \<and> func at = func loc
               then (Some (h, p), tr)
               else lookup_loop bs loc hs (tr @ [CloseProtocol h])))"

definition lookup_pci_device ::
  "('h, 'p) pci_services \<Rightarrow> ggl_pci_locator \<Rightarrow> ('h, 'p) calls \<Rightarrow> ('h \<times> 'p) option \<times> ('h, 'p) calls" where
  "lookup_pci_device bs loc tr =
     (let tr = tr @ [Say (lit ''Preparing to access PCI device'')] in
      case do_locate bs tr of
        None \<Rightarrow> (None, tr @ [LocateFailed, Say (lit ''Error locating pci io compatible handles'')])
      | Some HandleBuffer \<Rightarrow>
          (let (found, tr) = lookup_loop bs loc HandleBuffer (tr @ [LocateHandleBuffer])
           in (found, tr @ [FreeHandleBuffer])))"

definition enable_pci_accesses ::
  "('h, 'p) pci_services \<Rightarrow> 'p \<Rightarrow> ('h, 'p) calls \<Rightarrow> int \<times> ('h, 'p) calls" where
  "enable_pci_accesses bs p tr =
     (if \<not> do_attributes bs p tr then (-1, tr @ [Attributes p, Say (lit ''Could not set PCI device attrs'')])
      else (0, tr @ [Attributes p]))"

definition ggl_pci_close :: "('h, 'p) ggl_pci_device \<Rightarrow> ('h, 'p) calls \<Rightarrow> int \<times> ('h, 'p) calls" where
  "ggl_pci_close pdev tr = (0, tr @ [CloseProtocol (handle pdev)] @ [Free])"

text \<open>The result is \<open>None\<close> for \<open>NULL\<close>. \<open>pdev0\<close> is the location in the memory \<open>malloc\<close> returns.\<close>

definition ggl_pci_open ::
  "('h, 'p) pci_services \<Rightarrow> mem \<Rightarrow> ptr \<Rightarrow> ggl_pci_locator \<Rightarrow> ('h, 'p) calls
    \<Rightarrow> (('h, 'p) ggl_pci_device option \<times> ('h, 'p) calls) option" where
  "ggl_pci_open bs m device_locator pdev0 tr =
     (if \<not> do_malloc bs tr then Some (None, tr)
      else do {
        let tr = tr @ [Alloc];
        (rc, loc) \<leftarrow> parse_pci_address m device_locator pdev0;
        if rc \<noteq> 0 then Some (None, tr @ [Say (lit ''Error parsing PCI address''), Free])
        else (case lookup_pci_device bs loc tr of
            (None, tr) \<Rightarrow> Some (None, tr @ [Say (lit ''Cannot open PCI device''), Free])
          | (Some (h, p), tr) \<Rightarrow>
              let pdev = \<lparr> location = loc, handle = h, pciio = p \<rparr>; (rc, tr) = enable_pci_accesses bs p tr in
              if rc \<noteq> 0 then Some (None, snd (ggl_pci_close pdev (tr @ [Say (lit ''Error enabling PCI device'')])))
              else Some (Some pdev, tr)) })"

section \<open>Registers\<close>

text \<open>A read returns the status and the value stored in \<open>*val\<close>, \<open>None\<close> when it is left alone.\<close>

definition ggl_pci_efi_pciio :: "('h, 'p) ggl_pci_device \<Rightarrow> 'p" where
  "ggl_pci_efi_pciio pdev = pciio pdev"

definition ggl_pci_cfgread16 ::
  "('h, 'p) pci_services \<Rightarrow> ('h, 'p) ggl_pci_device \<Rightarrow> u32 \<Rightarrow> ('h, 'p) calls \<Rightarrow> (int \<times> u16 option) \<times> ('h, 'p) calls" where
  "ggl_pci_cfgread16 bs pdev offset tr =
     (let tr' = tr @ [CfgRead (pciio pdev) 16 offset] in
      case do_cfg_read bs (pciio pdev) 16 offset tr of
        None \<Rightarrow> ((-1, None), tr')
      | Some Data \<Rightarrow> ((0, Some (le16toh (ucast Data))), tr'))"

definition ggl_pci_cfgwrite16 ::
  "('h, 'p) pci_services \<Rightarrow> ('h, 'p) ggl_pci_device \<Rightarrow> u32 \<Rightarrow> u16 \<Rightarrow> ('h, 'p) calls \<Rightarrow> int \<times> ('h, 'p) calls" where
  "ggl_pci_cfgwrite16 bs pdev offset val tr =
     (let Data = htole16 val in
      (if \<not> do_cfg_write bs (pciio pdev) 16 offset (ucast Data) tr then -1 else 0,
       tr @ [CfgWrite (pciio pdev) 16 offset (ucast Data)]))"

definition ggl_pci_cfgread32 ::
  "('h, 'p) pci_services \<Rightarrow> ('h, 'p) ggl_pci_device \<Rightarrow> u32 \<Rightarrow> ('h, 'p) calls \<Rightarrow> (int \<times> u32 option) \<times> ('h, 'p) calls" where
  "ggl_pci_cfgread32 bs pdev offset tr =
     (let tr' = tr @ [CfgRead (pciio pdev) 32 offset] in
      case do_cfg_read bs (pciio pdev) 32 offset tr of
        None \<Rightarrow> ((-1, None), tr')
      | Some Data \<Rightarrow> ((0, Some (le32toh Data)), tr'))"

definition ggl_pci_cfgwrite32 ::
  "('h, 'p) pci_services \<Rightarrow> ('h, 'p) ggl_pci_device \<Rightarrow> u32 \<Rightarrow> u32 \<Rightarrow> ('h, 'p) calls \<Rightarrow> int \<times> ('h, 'p) calls" where
  "ggl_pci_cfgwrite32 bs pdev offset val tr =
     (let Data = htole32 val in
      (if \<not> do_cfg_write bs (pciio pdev) 32 offset Data tr then -1 else 0,
       tr @ [CfgWrite (pciio pdev) 32 offset Data]))"

definition ggl_pci_mread32 ::
  "('h, 'p) pci_services \<Rightarrow> ('h, 'p) ggl_pci_device \<Rightarrow> u32 \<Rightarrow> u64 \<Rightarrow> ('h, 'p) calls
    \<Rightarrow> (int \<times> u32 option) \<times> ('h, 'p) calls" where
  "ggl_pci_mread32 bs pdev bar_index offset tr =
     (let tr' = tr @ [MemRead (pciio pdev) bar_index offset] in
      case do_mem_read bs (pciio pdev) bar_index offset tr of
        None \<Rightarrow> ((-1, None), tr')
      | Some Data \<Rightarrow> ((0, Some Data), tr'))"

definition ggl_pci_mwrite32 ::
  "('h, 'p) pci_services \<Rightarrow> ('h, 'p) ggl_pci_device \<Rightarrow> u32 \<Rightarrow> u64 \<Rightarrow> u32 \<Rightarrow> ('h, 'p) calls
    \<Rightarrow> int \<times> ('h, 'p) calls" where
  "ggl_pci_mwrite32 bs pdev bar_index offset val tr =
     (if \<not> do_mem_write bs (pciio pdev) bar_index offset val tr then -1 else 0,
      tr @ [MemWrite (pciio pdev) bar_index offset val])"

text \<open>\<open>timeout_usecs * 10\<close> is a 32-bit product. The last value is \<open>None\<close> for a \<open>NULL\<close> \<open>last_val\<close>.\<close>

definition ggl_pci_mpoll32 ::
  "('h, 'p) pci_services \<Rightarrow> ('h, 'p) ggl_pci_device \<Rightarrow> u32 \<Rightarrow> u32 \<Rightarrow> u32 \<Rightarrow> u32 \<Rightarrow> u32 \<Rightarrow> bool \<Rightarrow> ('h, 'p) calls
    \<Rightarrow> (int \<times> u32 option) \<times> ('h, 'p) calls" where
  "ggl_pci_mpoll32 bs pdev bar_index bar_offset msk expected_val timeout_usecs last_val_null tr =
     (let Data = expected_val AND msk;
          (Status, r) = do_poll bs (pciio pdev) bar_index bar_offset msk Data (ucast (timeout_usecs * 10)) tr;
          Result = (case r of None \<Rightarrow> - 1 | Some x \<Rightarrow> x);
          last_val = (if \<not> last_val_null then Some (ucast Result) else None);
          tr = tr @ [PollMem (pciio pdev) bar_index bar_offset msk Data (ucast (timeout_usecs * 10))]
      in case Status of
           Poll_timeout \<Rightarrow> ((1, last_val), tr)
         | Poll_error \<Rightarrow> ((-1, last_val), tr)
         | Poll_ok \<Rightarrow> ((0, last_val), tr))"

section \<open>Parsing\<close>

definition hexstr :: "u8 list \<Rightarrow> bool" where
  "hexstr h \<longleftrightarrow> h \<noteq> [] \<and> (\<forall>c \<in> set h. isxdigit (sint c))"

definition hexval :: "u8 list \<Rightarrow> int" where
  "hexval h = horner 16 0 (map (\<lambda>c. the (digit_val 16 c)) h)"

text \<open>A number that does not fit is read as the largest one.\<close>

definition hexnum :: "u8 list \<Rightarrow> u64" where
  "hexnum h = word_of_int (min (2 ^ 64 - 1) (hexval h))"

lemma xdigit_val: "isxdigit (sint (c :: u8)) \<longleftrightarrow> digit_val 16 c \<noteq> None"
  using uint_u8_bounds[of c] by (auto simp: isxdigit_iff digit_val_def Let_def sint_u8)

lemma hexval_nonneg: "hexstr h \<Longrightarrow> 0 \<le> hexval h"
proof -
  assume h: "hexstr h"
  have "0 \<le> the (digit_val 16 c)" if "c \<in> set h" for c
    using h that digit_val_bounds[of 16 c] by (auto simp: hexstr_def xdigit_val)
  then show ?thesis unfolding hexval_def by (intro horner_mono[of 16 0]) auto
qed

text \<open>What may follow a number: nothing, or a separator of the address syntax.\<close>

definition ends_number :: "u8 list \<Rightarrow> bool" where
  "ends_number rest \<longleftrightarrow> (case rest of [] \<Rightarrow> True | c # _ \<Rightarrow> c = of_char (CHR '':'') \<or> c = of_char (CHR ''.''))"

lemma scan_hex:
  assumes "hexstr h" "ends_number rest"
  shows "scan_numeral 16 (h @ rest) =
    \<lparr> num_positive = True, num_base = 16, num_digits = map (\<lambda>c. the (digit_val 16 c)) h, num_end = length h \<rparr>"
proof -
  obtain c t where h: "h = c # t" using assms(1) by (cases h) (auto simp: hexstr_def)
  have c: "isxdigit (sint c)" using assms(1) by (simp add: h hexstr_def)
  have ends: "digit_prefix 16 rest = []"
    using assms(2) by (cases rest) (auto simp: ends_number_def digit_val_def)
  have digits: "\<forall>c \<in> set h. digit_val 16 c \<noteq> None" using assms(1) by (simp add: hexstr_def xdigit_val)
  have nospace: "\<not> isspace (sint c)" using c by (auto simp: isxdigit_iff isspace_iff)
  have nosign: "c \<noteq> of_char (CHR ''+'')" "c \<noteq> of_char (CHR ''-'')" using c by (auto simp: isxdigit_iff)
  have noprefix: "\<not> hex_prefix (h @ rest)"
  proof (cases t)
    case Nil
    then show ?thesis using assms(2) by (cases rest) (auto simp: h hex_prefix_def ends_number_def)
  next
    case (Cons d u)
    then have "isxdigit (sint d)" using assms(1) by (simp add: h hexstr_def)
    then have "d \<noteq> of_char (CHR ''x'')" "d \<noteq> of_char (CHR ''X'')" by (auto simp: isxdigit_iff)
    then show ?thesis by (auto simp: h Cons hex_prefix_def)
  qed
  have ws: "takeWhile (\<lambda>c. isspace (sint c)) (h @ rest) = []" using nospace by (simp add: h)
  have sg: "\<not> has_sign (h @ rest)" "\<not> is_minus (h @ rest)"
    using nosign by (simp_all add: h has_sign_def is_minus_def)
  have dp: "digit_prefix 16 (h @ rest) = map (\<lambda>c. the (digit_val 16 c)) h"
    using digit_prefix_append[OF digits, of rest] by (simp add: ends)
  have ne: "h \<noteq> []" by (simp add: h)
  show ?thesis unfolding scan_numeral_def Let_def ws using ne by (simp add: sg noprefix dp)
qed

lemma parse_item_hex:
  assumes "cstr m p (h @ rest)" "hexstr h" "ends_number rest"
  shows "parse_item m p = Some (hexnum h, p + length h)"
proof -
  have v: "0 \<le> hexval h" using assms(2) by (rule hexval_nonneg)
  have "strtoul m p 16 = Some (saturate_unsigned (scan_numeral 16 (h @ rest)),
      Some (p + num_end (scan_numeral 16 (h @ rest))))"
    by (rule strtoul_exact[OF assms(1)]) simp
  then show ?thesis
    using v unfolding scan_hex[OF assms(2,3)] parse_item_def
    by (auto simp: saturate_unsigned_def num_abs_def hexnum_def hexval_def)
qed

text \<open>Every part of the address is a number followed by its separator.\<close>

lemma at_xdigit_hex: "cstr m p (h @ rest) \<Longrightarrow> hexstr h \<Longrightarrow> at_xdigit m p = Some True"
  by (cases h) (auto simp: at_xdigit_def hexstr_def)

lemma cstr_skip: "cstr m p (h @ c # rest) \<Longrightarrow> m (p + length h) = Some c \<and> cstr m (Suc (p + length h)) rest"
  by (simp add: cstr_append)

definition short_address :: "u8 list \<Rightarrow> u8 list \<Rightarrow> u8 list \<Rightarrow> u8 list" where
  "short_address b d f = b @ lit '':'' @ d @ lit ''.'' @ f"

definition long_address :: "u8 list \<Rightarrow> u8 list \<Rightarrow> u8 list \<Rightarrow> u8 list \<Rightarrow> u8 list" where
  "long_address s b d f = s @ lit '':'' @ b @ lit '':'' @ d @ lit ''.'' @ f"

definition locate :: "u64 \<Rightarrow> u64 \<Rightarrow> u64 \<Rightarrow> u64 \<Rightarrow> ggl_pci_locator" where
  "locate s b d f = \<lparr> domain = s, bus = b, device = d, func = f \<rparr>"

lemma parse_short:
  assumes p: "cstr m p (short_address b d f)" "p \<noteq> NULL" and h: "hexstr b" "hexstr d" "hexstr f"
  shows "parse_pci_address m p r0 =
    (let r = locate 0 (hexnum b) (hexnum d) (hexnum f) in Some (if valid_locator r then 0 else -1, r))"
proof -
  define p1 where "p1 = Suc (p + length b)"
  define p2 where "p2 = Suc (p1 + length d)"
  have c0: "cstr m p (b @ lit '':'' @ d @ lit ''.'' @ f)" using p by (simp add: short_address_def)
  then have c1: "m (p + length b) = Some (of_char (CHR '':''))" "cstr m p1 (d @ lit ''.'' @ f)"
    using cstr_skip[of m p b] by (simp_all add: p1_def)
  then have c2: "m (p1 + length d) = Some (of_char (CHR ''.''))" "cstr m p2 f"
    using cstr_skip[of m p1 d] by (simp_all add: p2_def)
  have c3: "m (p2 + length f) = Some 0" using c2(2) by (rule cstr_end)
  note items = parse_item_hex[OF c0 h(1)] parse_item_hex[OF c1(2) h(2)] parse_item_hex[of m p2 f "[]", OF _ h(3)]
  note digits = at_xdigit_hex[OF c0 h(1)] at_xdigit_hex[OF c1(2) h(2)] at_xdigit_hex[of m p2 f "[]", OF _ h(3)]
  have nn: "0 < p1" "0 < p2"
    by (simp_all add: p1_def p2_def)
  have s: "Suc (p + length b) = p1" "Suc (p1 + length d) = p2" by (simp_all add: p1_def p2_def)
  show ?thesis
    using p(2) c1(1) c2 c3 nn
    by (simp add: parse_pci_address_def items digits ends_number_def peek_def s locator_of_def locate_def Let_def)
qed

lemma parse_long:
  assumes p: "cstr m p (long_address g b d f)" "p \<noteq> NULL"
    and h: "hexstr g" "hexstr b" "hexstr d" "hexstr f"
  shows "parse_pci_address m p r0 =
    (let r = locate (hexnum g) (hexnum b) (hexnum d) (hexnum f) in Some (if valid_locator r then 0 else -1, r))"
proof -
  define p1 where "p1 = Suc (p + length g)"
  define p2 where "p2 = Suc (p1 + length b)"
  define p3 where "p3 = Suc (p2 + length d)"
  have c0: "cstr m p (g @ lit '':'' @ b @ lit '':'' @ d @ lit ''.'' @ f)" using p by (simp add: long_address_def)
  then have c1: "m (p + length g) = Some (of_char (CHR '':''))" "cstr m p1 (b @ lit '':'' @ d @ lit ''.'' @ f)"
    using cstr_skip[of m p g] by (simp_all add: p1_def)
  then have c2: "m (p1 + length b) = Some (of_char (CHR '':''))" "cstr m p2 (d @ lit ''.'' @ f)"
    using cstr_skip[of m p1 b] by (simp_all add: p2_def)
  then have c3: "m (p2 + length d) = Some (of_char (CHR ''.''))" "cstr m p3 f"
    using cstr_skip[of m p2 d] by (simp_all add: p3_def)
  have c4: "m (p3 + length f) = Some 0" using c3(2) by (rule cstr_end)
  note items = parse_item_hex[OF c0 h(1)] parse_item_hex[OF c1(2) h(2)] parse_item_hex[OF c2(2) h(3)]
    parse_item_hex[of m p3 f "[]", OF _ h(4)]
  note digits = at_xdigit_hex[OF c0 h(1)] at_xdigit_hex[OF c1(2) h(2)] at_xdigit_hex[OF c2(2) h(3)]
    at_xdigit_hex[of m p3 f "[]", OF _ h(4)]
  have nn: "0 < p1" "0 < p2" "0 < p3"
    by (simp_all add: p1_def p2_def p3_def)
  have s: "Suc (p + length g) = p1" "Suc (p1 + length b) = p2" "Suc (p2 + length d) = p3"
    by (simp_all add: p1_def p2_def p3_def)
  show ?thesis
    using p(2) c1(1) c2(1) c3 c4 nn
    by (simp add: parse_pci_address_def items digits ends_number_def peek_def s locator_of_def locate_def Let_def)
qed

text \<open>What the 32-bit masks test: the low 32 bits of each part.\<close>

lemma mask_test:
  assumes "n \<le> 32"
  shows "x AND ucast (NOT (mask n) :: u32) = 0 \<longleftrightarrow> uint (x :: u64) mod 2 ^ 32 < 2 ^ n"
proof -
  define y where "y = take_bit 32 x"
  have "x AND ucast (NOT (mask n) :: u32) = y AND NOT (mask n)"
    by (rule bit_word_eqI) (auto simp: y_def bit_simps)
  moreover have "y AND NOT (mask n) = 0 \<longleftrightarrow> take_bit n y = y"
  proof
    assume z: "y AND NOT (mask n) = 0"
    have "y = (y AND mask n) OR (y AND NOT (mask n))" by (rule bit_word_eqI) (auto simp: bit_simps)
    then show "take_bit n y = y" by (simp add: z take_bit_eq_mask)
  next
    assume "take_bit n y = y"
    then have "y AND NOT (mask n) = take_bit n y AND NOT (mask n)" by simp
    also have "\<dots> = 0" by (rule bit_word_eqI) (auto simp: bit_simps)
    finally show "y AND NOT (mask n) = 0" .
  qed
  moreover have "take_bit n y = y \<longleftrightarrow> uint y < 2 ^ n"
  proof -
    have "take_bit n y = y \<longleftrightarrow> take_bit n (uint y) = uint y"
      by (simp add: word_uint_eq_iff unsigned_take_bit_eq)
    then show ?thesis by (simp add: take_bit_int_eq_self_iff)
  qed
  moreover have "uint y = uint x mod 2 ^ 32"
    unfolding y_def by (simp only: unsigned_take_bit_eq take_bit_eq_mod[where n=32 and a="uint x"])
  ultimately show ?thesis by simp
qed

lemma valid_locator_iff:
  "valid_locator r \<longleftrightarrow> uint (domain r) mod 2 ^ 32 < 2 ^ 16 \<and> uint (bus r) mod 2 ^ 32 < 2 ^ 8 \<and>
    uint (device r) mod 2 ^ 32 < 2 ^ 8 \<and> uint (func r) mod 2 ^ 32 < 2 ^ 3"
proof -
  have m: "(0xffff :: u32) = mask 16" "(0xff :: u32) = mask 8" "(7 :: u32) = mask 3" by (simp_all add: mask_eq_exp_minus_1)
  show ?thesis unfolding valid_locator_def m
    using mask_test[of 16] mask_test[of 8] mask_test[of 3] by simp
qed

section \<open>What an open device holds\<close>

text \<open>The handles whose protocol is open, the heap blocks and the handle buffers in use, after a
  sequence of calls.\<close>

fun held_step :: "'h multiset \<Rightarrow> ('h, 'p) pci_call \<Rightarrow> 'h multiset" where
  "held_step M (Opened h p) = add_mset h M"
| "held_step M (CloseProtocol h) = M - {#h#}"
| "held_step M _ = M"

definition held :: "('h, 'p) calls \<Rightarrow> 'h multiset" where
  "held tr = foldl held_step {#} tr"

fun block_count :: "('h, 'p) pci_call \<Rightarrow> int" where
  "block_count Alloc = 1" | "block_count Free = -1" | "block_count _ = 0"

fun buffer_count :: "('h, 'p) pci_call \<Rightarrow> int" where
  "buffer_count LocateHandleBuffer = 1" | "buffer_count FreeHandleBuffer = -1" | "buffer_count _ = 0"

definition blocks :: "('h, 'p) calls \<Rightarrow> int" where
  "blocks tr = sum_list (map block_count tr)"

definition buffers :: "('h, 'p) calls \<Rightarrow> int" where
  "buffers tr = sum_list (map buffer_count tr)"

lemma resources_append [simp]:
  "held (tr @ cs) = foldl held_step (held tr) cs"
  "blocks (tr @ cs) = blocks tr + sum_list (map block_count cs)"
  "buffers (tr @ cs) = buffers tr + sum_list (map buffer_count cs)"
  by (simp_all add: held_def blocks_def buffers_def)

definition holds_of :: "('h \<times> 'p) option \<Rightarrow> 'h multiset" where
  "holds_of r = (case r of None \<Rightarrow> {#} | Some (h, p) \<Rightarrow> {#h#})"

text \<open>The firmware reported \<open>loc\<close> as the location of \<open>p\<close>, at some point of the calls.\<close>

definition reported :: "('h, 'p) pci_services \<Rightarrow> 'p \<Rightarrow> ggl_pci_locator \<Rightarrow> ('h, 'p) calls \<Rightarrow> bool" where
  "reported bs p loc tr \<longleftrightarrow>
     (\<exists>pre post. tr = pre @ GetLocation p # post \<and>
       (\<exists>at. do_location bs p pre = Some at \<and> domain at = domain loc \<and> bus at = bus loc \<and>
             device at = device loc \<and> func at = func loc))"

lemma reported_append: "reported bs p loc tr \<Longrightarrow> reported bs p loc (tr @ cs)"
  unfolding reported_def by (elim exE conjE) (rule exI, rule exI, auto)

lemma lookup_loop_resources:
  "lookup_loop bs loc hs tr = (r, tr') \<Longrightarrow>
    held tr' = held tr + holds_of r \<and> blocks tr' = blocks tr \<and> buffers tr' = buffers tr"
proof (induction bs loc hs tr arbitrary: r tr' rule: lookup_loop.induct)
  case (2 bs loc h hs tr)
  then show ?case
    by (auto simp: Let_def holds_of_def split: option.splits if_splits)
qed (auto simp: holds_of_def)

lemma lookup_loop_right:
  "lookup_loop bs loc hs tr = (Some (h, p), tr') \<Longrightarrow>
    h \<in> set hs \<and> Opened h p \<in> set tr' \<and> reported bs p loc tr'"
proof (induction bs loc hs tr arbitrary: tr' rule: lookup_loop.induct)
  case (2 bs loc h0 hs tr)
  show ?case
  proof (cases "do_open bs h0 tr")
    case None
    then show ?thesis using 2 by auto
  next
    case (Some q)
    show ?thesis
    proof (cases "do_location bs q (tr @ [Opened h0 q])")
      case None
      then show ?thesis using "2.IH"(2)[OF Some refl None] "2.prems" Some by (auto simp: Let_def)
    next
      case at: (Some a)
      show ?thesis
      proof (cases "domain a = domain loc \<and> bus a = bus loc \<and> device a = device loc \<and> func a = func loc")
        case True
        then have "reported bs q loc ((tr @ [Opened h0 q]) @ GetLocation q # [])"
          using at unfolding reported_def by blast
        then show ?thesis using "2.prems" Some at True by (auto simp: Let_def)
      next
        case False
        then show ?thesis using "2.IH"(3)[OF Some refl at refl False] "2.prems" Some at by (auto simp: Let_def)
      qed
    qed
  qed
qed auto

lemma lookup_pci_device_resources:
  "lookup_pci_device bs loc tr = (r, tr') \<Longrightarrow>
    held tr' = held tr + holds_of r \<and> blocks tr' = blocks tr \<and> buffers tr' = buffers tr"
  by (auto simp: lookup_pci_device_def Let_def holds_of_def split: option.splits prod.splits
      dest!: lookup_loop_resources)

lemma lookup_pci_device_right:
  assumes "lookup_pci_device bs loc tr = (Some (h, p), tr')"
  shows "Opened h p \<in> set tr' \<and> reported bs p loc tr'"
proof -
  obtain hs tr0 tr1 where "lookup_loop bs loc hs tr0 = (Some (h, p), tr1)" "tr' = tr1 @ [FreeHandleBuffer]"
    using assms by (auto simp: lookup_pci_device_def Let_def split: option.splits prod.splits)
  then show ?thesis using lookup_loop_right reported_append[of bs p loc tr1] by fastforce
qed

subsection \<open>The parser always answers\<close>

lemma num_end_le: "num_end (scan_numeral base s) \<le> length s"
proof -
  define ws where "ws = length (takeWhile (\<lambda>c. isspace (sint c)) s)"
  define s1 where "s1 = drop ws s"
  define sg where "sg = (if has_sign s1 then 1 else 0 :: nat)"
  define s2 where "s2 = drop sg s1"
  have ws: "ws \<le> length s" unfolding ws_def by (rule length_takeWhile_le)
  have sg: "sg \<le> length s1" unfolding sg_def by (cases s1) (auto simp: has_sign_def)
  have len: "length s = ws + sg + length s2" using ws sg by (simp add: s2_def s1_def)
  have hp: "hex_prefix s2 \<Longrightarrow> 2 \<le> length s2" by (rule hex_prefix_length)
  have dp: "length (digit_prefix b (drop k s2)) \<le> length s2 - k" for b k
    using length_digit_prefix[of b "drop k s2"] by simp
  show ?thesis
    unfolding scan_numeral_def ws_def[symmetric] Let_def s1_def[symmetric] sg_def[symmetric] s2_def[symmetric]
    using hp dp[of 16 2] dp[of _ 0] by (auto simp: len)
qed

lemma parse_item_total:
  assumes "cstr m p s"
  shows "\<exists>v q t. parse_item m p = Some (v, q) \<and> cstr m q t \<and> p \<le> q"
proof -
  have "strtoul m p 16 = Some (saturate_unsigned (scan_numeral 16 s), Some (p + num_end (scan_numeral 16 s)))"
    by (rule strtoul_exact[OF assms]) simp
  then show ?thesis using cstr_drop[OF assms num_end_le[of 16 s]] by (auto simp: parse_item_def)
qed

lemma cstr_reads: "cstr m q t \<Longrightarrow> \<exists>c. m q = Some c \<and> (c \<noteq> 0 \<longrightarrow> cstr m (Suc q) (tl t))"
  by (cases t) auto

lemma parse_total:
  assumes "cstr m s str"
  shows "\<exists>rc loc. parse_pci_address m s r0 = Some (rc, loc)"
proof (cases "s = NULL")
  case True
  then show ?thesis by (simp add: parse_pci_address_def Let_def)
next
  case nn: False
  have x: "\<exists>d. at_xdigit m q = Some d" if "cstr m q t" for q t
    using cstr_reads[OF that] by (auto simp: at_xdigit_def)
  obtain d0 i0 q0 t0 where 0: "at_xdigit m s = Some d0" "parse_item m s = Some (i0, q0)" "cstr m q0 t0" "s \<le> q0"
    using x parse_item_total assms by meson
  obtain c0 where c0: "m q0 = Some c0" "c0 \<noteq> 0 \<Longrightarrow> cstr m (Suc q0) (tl t0)" using cstr_reads[OF 0(3)] by auto
  show ?thesis
  proof (cases "d0 \<and> c0 = of_char (CHR '':'')")
    case False
    then show ?thesis using nn 0 c0(1) by (auto simp: parse_pci_address_def Let_def peek_def)
  next
    case t0: True
    then have "cstr m (Suc q0) (tl t0)" using c0(2) by simp
    then obtain d1 i1 q1 t1 where 1: "at_xdigit m (Suc q0) = Some d1" "parse_item m (Suc q0) = Some (i1, q1)"
        "cstr m q1 t1" "Suc q0 \<le> q1"
      using x parse_item_total by meson
    obtain c1 where c1: "m q1 = Some c1" "c1 \<noteq> 0 \<Longrightarrow> cstr m (Suc q1) (tl t1)" using cstr_reads[OF 1(3)] by auto
    show ?thesis
    proof (cases "d1 \<and> c1 \<noteq> 0 \<and> (c1 = of_char (CHR '':'') \<or> c1 = of_char (CHR ''.''))")
      case False
      then show ?thesis using nn 0 c0(1) 1 c1(1) by (auto simp: parse_pci_address_def Let_def peek_def)
    next
      case t1: True
      then have "cstr m (Suc q1) (tl t1)" using c1(2) by simp
      then obtain d2 i2 q2 t2 where 2: "at_xdigit m (Suc q1) = Some d2" "parse_item m (Suc q1) = Some (i2, q2)"
          "cstr m q2 t2" "Suc q1 \<le> q2"
        using x parse_item_total by meson
      obtain c2 where c2: "m q2 = Some c2" "c2 \<noteq> 0 \<Longrightarrow> cstr m (Suc q2) (tl t2)" using cstr_reads[OF 2(3)] by auto
      show ?thesis
      proof (cases "d2 \<and> c1 = of_char (CHR '':'') \<and> c2 = of_char (CHR ''.'')")
        case False
        then show ?thesis using nn 0 c0(1) 1 c1(1) 2 c2(1) t0 t1
          by (auto simp: parse_pci_address_def Let_def peek_def)
      next
        case t2: True
        then have "cstr m (Suc q2) (tl t2)" using c2(2) by simp
        then obtain d3 i3 q3 t3 where 3: "at_xdigit m (Suc q2) = Some d3" "parse_item m (Suc q2) = Some (i3, q3)"
            "cstr m q3 t3" "Suc q2 \<le> q3"
          using x parse_item_total by meson
        obtain c3 where c3: "m q3 = Some c3" using cstr_reads[OF 3(3)] by auto
        show ?thesis using nn 0 c0(1) 1 c1(1) 2 c2(1) 3 c3 t0 t1 t2
          by (auto simp: parse_pci_address_def Let_def peek_def)
      qed
    qed
  qed
qed

section \<open>Properties\<close>

text \<open>C28. An address in either documented form, \<open>00:00.0\<close> or \<open>0000:00:00.0\<close> with hexadecimal parts
  of any length, is read part by part, the domain of the short form being 0; a part that does not fit
  64 bits is read as the largest one. It is accepted exactly when the low 32 bits of every part are in
  the part's range, so that \<open>100000001:00:00.0\<close> is accepted although its domain does not fit 16 bits:
  the masks of the checks are 32-bit.\<close>

theorem pci_address_parsed:
  assumes "cstr m p str" "p \<noteq> NULL" "hexstr b" "hexstr d" "hexstr f"
    "str = short_address b d f \<and> seg = 0 \<or> (\<exists>g. hexstr g \<and> str = long_address g b d f \<and> seg = hexnum g)"
  shows "\<exists>rc. parse_pci_address m p r0 = Some (rc, locate seg (hexnum b) (hexnum d) (hexnum f)) \<and>
    rc = (if uint seg mod 2 ^ 32 < 2 ^ 16 \<and> uint (hexnum b) mod 2 ^ 32 < 2 ^ 8 \<and>
             uint (hexnum d) mod 2 ^ 32 < 2 ^ 8 \<and> uint (hexnum f) mod 2 ^ 32 < 2 ^ 3 then 0 else -1)"
  using assms parse_short[of m p b d f r0] parse_long[of m p _ b d f r0]
  by (auto simp: Let_def valid_locator_iff locate_def)

theorem pci_address_parsed_witness:
  "parse_pci_address (string_at 64 ''1f:02.3'') 64 (locate 0 0 0 0) = Some (0, locate 0 0x1f 2 3) \<and>
   parse_pci_address (string_at 64 ''100000001:00:00.0'') 64 (locate 0 0 0 0) = Some (0, locate 0x100000001 0 0 0) \<and>
   parse_pci_address (string_at 64 ''0:0:0.8'') 64 (locate 0 0 0 0) = Some (-1, locate 0 0 0 8)"
proof -
  have h: "hexstr (lit ''1f'')" "hexstr (lit ''02'')" "hexstr (lit ''3'')" "hexstr (lit ''100000001'')"
    "hexstr (lit ''00'')" "hexstr (lit ''0'')" "hexstr (lit ''8'')"
    by (simp_all add: hexstr_def isxdigit_iff)
  have v: "hexnum (lit ''1f'') = 0x1f" "hexnum (lit ''02'') = 2" "hexnum (lit ''3'') = 3"
    "hexnum (lit ''100000001'') = 0x100000001" "hexnum (lit ''00'') = 0" "hexnum (lit ''0'') = 0"
    "hexnum (lit ''8'') = 8"
    by code_simp+
  have a: "lit ''1f:02.3'' = short_address (lit ''1f'') (lit ''02'') (lit ''3'')"
    "lit ''100000001:00:00.0'' = long_address (lit ''100000001'') (lit ''00'') (lit ''00'') (lit ''0'')"
    "lit ''0:0:0.8'' = long_address (lit ''0'') (lit ''0'') (lit ''0'') (lit ''8'')"
    by (simp_all add: short_address_def long_address_def)
  have c: "cstr (string_at 64 ''1f:02.3'') 64 (lit ''1f:02.3'')"
    "cstr (string_at 64 ''100000001:00:00.0'') 64 (lit ''100000001:00:00.0'')"
    "cstr (string_at 64 ''0:0:0.8'') 64 (lit ''0:0:0.8'')"
    by (rule cstr_string_at, simp)+
  have n: "(64 :: ptr) \<noteq> NULL" by simp
  from pci_address_parsed[OF c(1) n h(1-3), of 0 "locate 0 0 0 0"]
  have 1: "parse_pci_address (string_at 64 ''1f:02.3'') 64 (locate 0 0 0 0) = Some (0, locate 0 0x1f 2 3)"
    using a(1) unfolding v by simp
  from pci_address_parsed[OF c(2) n h(5,5,6), of "hexnum (lit ''100000001'')" "locate 0 0 0 0"]
  have 2: "parse_pci_address (string_at 64 ''100000001:00:00.0'') 64 (locate 0 0 0 0) = Some (0, locate 0x100000001 0 0 0)"
    using exI[of "\<lambda>g. hexstr g \<and> _ = long_address g _ _ _ \<and> _ = hexnum g", OF conjI[OF h(4) conjI[OF a(2) refl]]]
    unfolding v by (simp del: lit_simps)
  from pci_address_parsed[OF c(3) n h(6,6,7), of "hexnum (lit ''0'')" "locate 0 0 0 0"]
  have 3: "parse_pci_address (string_at 64 ''0:0:0.8'') 64 (locate 0 0 0 0) = Some (-1, locate 0 0 0 8)"
    using exI[of "\<lambda>g. hexstr g \<and> _ = long_address g _ _ _ \<and> _ = hexnum g", OF conjI[OF h(6) conjI[OF a(3) refl]]]
    unfolding v by (simp del: lit_simps)
  show ?thesis using 1 2 3 by (intro conjI)
qed

definition example_firmware :: "(nat, nat) pci_services" where
  "example_firmware = \<lparr> do_malloc = \<lambda>_. True, do_locate = \<lambda>_. Some [10, 20, 30],
     do_open = \<lambda>h _. if h = 10 then None else Some (h + 1),
     do_location = \<lambda>p _. Some (if p = 31 then locate 0 1 2 3 else locate 0 0 0 0),
     do_attributes = \<lambda>_ _. True, do_cfg_read = \<lambda>_ _ _ _. None, do_cfg_write = \<lambda>_ _ _ _ _. False,
     do_mem_read = \<lambda>_ _ _ _. None, do_mem_write = \<lambda>_ _ _ _ _. False,
     do_poll = \<lambda>_ _ _ _ _ _ _. (Poll_error, None) \<rparr>"

lemma example_parse: "parse_pci_address (string_at 64 ''1:2.3'') 64 r0 = Some (0, locate 0 1 2 3)"
proof -
  have h: "hexstr (lit ''1'')" "hexstr (lit ''2'')" "hexstr (lit ''3'')"
    by (simp_all add: hexstr_def isxdigit_iff)
  have v: "hexnum (lit ''1'') = 1" "hexnum (lit ''2'') = 2" "hexnum (lit ''3'') = 3" by code_simp+
  have "cstr (string_at 64 ''1:2.3'') 64 (lit ''1:2.3'')" by (rule cstr_string_at) simp
  then have "cstr (string_at 64 ''1:2.3'') 64 (short_address (lit ''1'') (lit ''2'') (lit ''3''))"
    by (simp add: short_address_def)
  from parse_short[OF this _ h, of r0] show ?thesis
    unfolding v by (simp add: Let_def valid_locator_iff locate_def)
qed

lemma example_open:
  "ggl_pci_open example_firmware (string_at 64 ''1:2.3'') 64 r0 [] =
    Some (Some \<lparr> location = locate 0 1 2 3, handle = 30, pciio = 31 \<rparr>,
      [Alloc, Say (lit ''Preparing to access PCI device''), LocateHandleBuffer,
       OpenFailed 10, Say (lit ''Error opening device''), Opened 20 21, GetLocation 21, CloseProtocol 20,
       Opened 30 31, GetLocation 31, FreeHandleBuffer, Attributes 31])"
  by (simp add: ggl_pci_open_def example_parse lookup_pci_device_def enable_pci_accesses_def
      example_firmware_def Let_def locate_def del: lit_simps)

text \<open>C13. Opening a device leaks nothing, whatever the firmware answers. The call always returns. If
  it fails, every protocol it opened is closed, its heap block and the firmware's handle buffer are
  freed; if it succeeds, exactly the device's protocol and one block stay in use, and closing the
  device releases both.\<close>

theorem pci_open_resources:
  assumes "cstr m s str"
  shows "\<exists>r tr'. ggl_pci_open bs m s pdev0 tr = Some (r, tr') \<and> buffers tr' = buffers tr \<and>
    (case r of
       None \<Rightarrow> held tr' = held tr \<and> blocks tr' = blocks tr
     | Some pdev \<Rightarrow> held tr' = held tr + {#handle pdev#} \<and> blocks tr' = blocks tr + 1 \<and>
         held (snd (ggl_pci_close pdev tr')) = held tr \<and> blocks (snd (ggl_pci_close pdev tr')) = blocks tr)"
proof (cases "do_malloc bs tr")
  case False
  then show ?thesis by (simp add: ggl_pci_open_def)
next
  case malloc: True
  obtain rc loc where parse: "parse_pci_address m s pdev0 = Some (rc, loc)"
    using parse_total[OF assms] by blast
  obtain found tr1 where look: "lookup_pci_device bs loc (tr @ [Alloc]) = (found, tr1)"
    by (cases "lookup_pci_device bs loc (tr @ [Alloc])")
  show ?thesis
    using malloc parse look lookup_pci_device_resources[OF look]
    by (cases found) (auto simp: ggl_pci_open_def Let_def holds_of_def enable_pci_accesses_def ggl_pci_close_def)
qed

theorem pci_open_resources_witness:
  "\<exists>pdev tr'. ggl_pci_open example_firmware (string_at 64 ''1:2.3'') 64 (locate 0 0 0 0) [] = Some (Some pdev, tr') \<and>
    held tr' = {#30#} \<and> blocks tr' = 1 \<and> buffers tr' = 0"
proof -
  have c: "cstr (string_at 64 ''1:2.3'') 64 (lit ''1:2.3'')" by (rule cstr_string_at) simp
  from pci_open_resources[OF c, of example_firmware "locate 0 0 0 0" "[]"] show ?thesis
    by (simp add: example_open held_def blocks_def buffers_def)
qed

text \<open>C29. The device opened is the one asked for: the address was accepted, the firmware opened the
  device's handle and reported the parsed location for it, and enabled its memory and bus accesses as
  the last step.\<close>

theorem pci_open_right_device:
  assumes "ggl_pci_open bs m s pdev0 tr = Some (Some pdev, tr')"
  shows "parse_pci_address m s pdev0 = Some (0, location pdev) \<and>
    Opened (handle pdev) (pciio pdev) \<in> set tr' \<and> reported bs (pciio pdev) (location pdev) tr' \<and>
    (\<exists>before. tr' = before @ [Attributes (pciio pdev)] \<and> do_attributes bs (pciio pdev) before)"
proof -
  from assms obtain loc h p tr1 where *: "parse_pci_address m s pdev0 = Some (0, loc)"
      "lookup_pci_device bs loc (tr @ [Alloc]) = (Some (h, p), tr1)" "do_attributes bs p tr1"
      "tr' = tr1 @ [Attributes p]" "pdev = \<lparr> location = loc, handle = h, pciio = p \<rparr>"
    by (auto simp: ggl_pci_open_def Let_def enable_pci_accesses_def
        split: if_splits Option.bind_splits option.splits prod.splits)
  from lookup_pci_device_right[OF *(2)] show ?thesis using * reported_append by auto
qed


theorem pci_open_right_device_witness:
  "parse_pci_address (string_at 64 ''1:2.3'') 64 (locate 0 0 0 0) = Some (0, locate 0 1 2 3) \<and>
   (\<exists>tr'. reported example_firmware 31 (locate 0 1 2 3) tr')"
  using pci_open_right_device[OF example_open[of "locate 0 0 0 0"]] by auto

end
