(* ===== verification/Linux_Pci.thy ===== *)
theory Linux_Pci
  imports Strtox Byte_Order "HOL-Library.Multiset"
begin

text \<open>
  \<open>efi/ggl_pci_linux.cc\<close>: the PCI interface of \<open>efi/ggl_pci.h\<close> over the files of a Linux system. The
  operating system is an environment whose answers may depend on all the calls made before: the
  state is the list of calls so far, and every service is a function of its arguments and that list,
  device registers included. Path joining, line splitting and hexadecimal parsing are functions
  of third-party libraries and are parameters too.
\<close>

section \<open>The system\<close>

type_synonym path = "u8 list"

datatype linux_call =
    Log
  | OpenFD path int | Fstat int | ReadLines path | Access path | MMapFile path ptr u64
  | CloseFD int | MUnmap ptr u64
  | Pread int nat u64 | Pwrite int "u8 list" u64
  | BarRead ptr | BarWrite ptr u32
  | Now | Yield

type_synonym linux_calls = "linux_call list"

text \<open>\<open>pread\<close> gives the bytes it read, \<open>None\<close> for an error; \<open>mmap_file\<close> the address and the size of a
  mapping, \<open>NULL\<close> for an error, when the size is left alone.\<close>

record linux_services =
  join_path :: "path \<Rightarrow> path \<Rightarrow> path"
  str_split :: "u8 list \<Rightarrow> u8 list list"
  hex_atoi :: "u8 list \<Rightarrow> u64 option"
  do_open_fd :: "path \<Rightarrow> linux_calls \<Rightarrow> int"
  do_fstat :: "int \<Rightarrow> linux_calls \<Rightarrow> u64 option"
  do_lines :: "path \<Rightarrow> linux_calls \<Rightarrow> u8 list list option"
  do_access :: "path \<Rightarrow> linux_calls \<Rightarrow> bool"
  do_mmap :: "path \<Rightarrow> linux_calls \<Rightarrow> ptr \<times> u64"
  do_close_fd :: "int \<Rightarrow> linux_calls \<Rightarrow> bool"
  do_munmap :: "ptr \<Rightarrow> u64 \<Rightarrow> linux_calls \<Rightarrow> bool"
  do_pread :: "int \<Rightarrow> nat \<Rightarrow> u64 \<Rightarrow> linux_calls \<Rightarrow> u8 list option"
  do_pwrite :: "int \<Rightarrow> u8 list \<Rightarrow> u64 \<Rightarrow> linux_calls \<Rightarrow> int"
  do_bar_read :: "ptr \<Rightarrow> linux_calls \<Rightarrow> u32"
  do_now :: "linux_calls \<Rightarrow> int"

section \<open>Opening\<close>

definition kMaxPciBars :: nat where "kMaxPciBars = 6"

definition path_prefix :: path where "path_prefix = lit ''/sys/bus/pci/devices/''"

definition parse_pci_address_linux :: "u8 list \<Rightarrow> path" where
  "parse_pci_address_linux device_locator =
     (let locator_parts = count_list device_locator (of_char (CHR '':'')) + 1 in
      if locator_parts \<noteq> 2 \<and> locator_parts \<noteq> 3 then []
      else
        let device_locator = (if locator_parts = 2 then lit ''0000:'' @ device_locator else device_locator)
        in path_prefix @ device_locator)"

definition GetFdSize :: "linux_services \<Rightarrow> int \<Rightarrow> linux_calls \<Rightarrow> u64 option \<times> linux_calls" where
  "GetFdSize s fd tr =
     (case do_fstat s fd tr of
        None \<Rightarrow> (None, tr @ [Fstat fd, Log])
      | Some n \<Rightarrow> (Some n, tr @ [Fstat fd]))"

text \<open>The loop over the lines; \<open>None\<close> when the function returns \<open>false\<close>.\<close>

fun bar_flags_loop :: "linux_services \<Rightarrow> u8 list list \<Rightarrow> nat \<Rightarrow> u64 list \<Rightarrow> u64 list option" where
  "bar_flags_loop s [] bar_offset fl = Some fl"
| "bar_flags_loop s (line # ls) bar_offset fl =
     (let v = str_split s line in
      if length v \<noteq> 3 then None
      else if bar_offset \<ge> kMaxPciBars then Some fl
      else (case hex_atoi s (v ! 2) of
          None \<Rightarrow> None
        | Some x \<Rightarrow> bar_flags_loop s ls (bar_offset + 1) (fl[bar_offset := x])))"

definition GetBARFlags :: "linux_services \<Rightarrow> path \<Rightarrow> linux_calls \<Rightarrow> u64 list option \<times> linux_calls" where
  "GetBARFlags s sysfs_dirpath tr =
     (let p = join_path s sysfs_dirpath (lit ''resource'') in
      case do_lines s p tr of
        None \<Rightarrow> (None, tr @ [ReadLines p, Log])
      | Some ls \<Rightarrow>
          (case bar_flags_loop s ls 0 (replicate kMaxPciBars 0) of
             None \<Rightarrow> (None, tr @ [ReadLines p, Log])
           | Some fl \<Rightarrow> (Some fl, tr @ [ReadLines p])))"

definition Is64BitBAR :: "u64 \<Rightarrow> bool" where
  "Is64BitBAR sysfs_resource_flags \<longleftrightarrow> sysfs_resource_flags AND 0x7 = 0x4"

record ggl_pci_device_linux =
  device_path :: path
  pci_config :: int
  config_size_bytes :: u64
  bars :: "ptr list"
  bar_sizes_bytes :: "u64 list"

text \<open>The file is looked up by \<open>access\<close>.\<close>

definition FileExists :: "linux_services \<Rightarrow> path \<Rightarrow> linux_calls \<Rightarrow> bool" where
  [simp]: "FileExists s filepath tr = do_access s filepath tr"

text \<open>The loop that maps the resources.\<close>

function map_bars ::
  "linux_services \<Rightarrow> u64 list \<Rightarrow> nat \<Rightarrow> nat \<Rightarrow> ggl_pci_device_linux \<Rightarrow> linux_calls
    \<Rightarrow> ggl_pci_device_linux \<times> linux_calls" where
  "map_bars s fl bar_offset bar_index pdev tr =
     (if bar_offset < kMaxPciBars then
        (let next_offset = bar_offset + (if Is64BitBAR (fl ! bar_offset) then 2 else 1);
             p = device_path pdev @ lit ''/resource'' @ dec bar_offset
         in if \<not> FileExists s p tr then map_bars s fl next_offset (bar_index + 1) pdev (tr @ [Access p])
            else
              let tr = tr @ [Access p];
                  (a, n) = do_mmap s p tr;
                  tr = tr @ [MMapFile p a n];
                  pdev = pdev\<lparr> bars := (bars pdev)[bar_index := a] \<rparr>
              in if a = NULL then map_bars s fl next_offset (bar_index + 1) pdev (tr @ [Log])
                 else map_bars s fl next_offset (bar_index + 1)
                        (pdev\<lparr> bar_sizes_bytes := (bar_sizes_bytes pdev)[bar_index := n] \<rparr>) tr)
      else (pdev, tr))"
  by pat_completeness auto
termination
  by (relation "measure (\<lambda>(s, fl, bo, i, pdev, tr). 6 - bo)") (auto simp: kMaxPciBars_def)

declare map_bars.simps [simp del]

definition ggl_pci_open_linux ::
  "linux_services \<Rightarrow> u8 list \<Rightarrow> linux_calls \<Rightarrow> ggl_pci_device_linux option \<times> linux_calls" where
  "ggl_pci_open_linux s device_locator tr =
     (let pdev = \<lparr> device_path = [], pci_config = 0, config_size_bytes = 0,
                   bars = replicate kMaxPciBars NULL, bar_sizes_bytes = replicate kMaxPciBars 0 \<rparr>;
          pdev = pdev\<lparr> device_path := parse_pci_address_linux device_locator \<rparr>
      in if device_path pdev = [] then (None, tr @ [Log])
         else
           let config_path = join_path s (device_path pdev) (lit ''config'');
               fd = do_open_fd s config_path tr;
               tr = tr @ [OpenFD config_path fd];
               pdev = pdev\<lparr> pci_config := fd \<rparr>
           in if fd < 0 then (None, tr @ [Log])
              else (case GetFdSize s fd tr of
                  (None, tr) \<Rightarrow> (None, tr)
                | (Some n, tr) \<Rightarrow>
                    let pdev = pdev\<lparr> config_size_bytes := n \<rparr> in
                    (case GetBARFlags s (device_path pdev) (tr @ [Log]) of
                       (None, tr) \<Rightarrow> (None, tr)
                     | (Some fl, tr) \<Rightarrow> (let (pdev, tr) = map_bars s fl 0 0 pdev tr in (Some pdev, tr)))))"

text \<open>The loop that unmaps; \<open>None\<close> when \<open>CHECK\<close> stops the program.\<close>

fun unmap_bars :: "linux_services \<Rightarrow> (ptr \<times> u64) list \<Rightarrow> linux_calls \<Rightarrow> linux_calls option" where
  "unmap_bars s [] tr = Some tr"
| "unmap_bars s ((a, n) # bs) tr =
     (if a \<noteq> NULL then
        if do_munmap s a n tr then unmap_bars s bs (tr @ [MUnmap a n]) else None
      else unmap_bars s bs tr)"

definition ggl_pci_close_linux ::
  "linux_services \<Rightarrow> ggl_pci_device_linux \<Rightarrow> linux_calls \<Rightarrow> (int \<times> linux_calls) option" where
  "ggl_pci_close_linux s pdev tr =
     (if \<not> do_close_fd s (pci_config pdev) tr then Some (-1, tr @ [CloseFD (pci_config pdev)])
      else do {
        tr \<leftarrow> unmap_bars s (zip (bars pdev) (bar_sizes_bytes pdev)) (tr @ [CloseFD (pci_config pdev)]);
        Some (0, tr) })"

section \<open>Registers\<close>

text \<open>\<open>offset\<close> is an \<open>unsigned\<close>, \<open>offset + sizeof(...)\<close> a \<open>size_t\<close>. A read returns its status and what is
  stored in \<open>*val\<close>.\<close>

definition ggl_pci_cfgread16_linux ::
  "linux_services \<Rightarrow> ggl_pci_device_linux \<Rightarrow> u32 \<Rightarrow> linux_calls \<Rightarrow> (int \<times> u16 option) \<times> linux_calls" where
  "ggl_pci_cfgread16_linux s pdev offset tr =
     (if ucast offset + 2 > config_size_bytes pdev then ((-1, None), tr)
      else
        let r = do_pread s (pci_config pdev) 2 (ucast offset) tr;
            tr = tr @ [Pread (pci_config pdev) 2 (ucast offset)]
        in case r of
             None \<Rightarrow> ((-1, None), tr)
           | Some bs \<Rightarrow>
               if length bs \<noteq> 2 then ((-1, None), tr)
               else ((0, Some (le16toh (word_of_nat (of_le bs)))), tr))"

definition ggl_pci_cfgwrite16_linux ::
  "linux_services \<Rightarrow> ggl_pci_device_linux \<Rightarrow> u32 \<Rightarrow> u16 \<Rightarrow> linux_calls \<Rightarrow> int \<times> linux_calls" where
  "ggl_pci_cfgwrite16_linux s pdev offset val tr =
     (if ucast offset + 2 > config_size_bytes pdev then (-1, tr)
      else
        let bs = to_le 2 (unat (htole16 val)) in
        (if do_pwrite s (pci_config pdev) bs (ucast offset) tr = 2 then 0 else -1,
         tr @ [Pwrite (pci_config pdev) bs (ucast offset)]))"

definition ggl_pci_cfgread32_linux ::
  "linux_services \<Rightarrow> ggl_pci_device_linux \<Rightarrow> u32 \<Rightarrow> linux_calls \<Rightarrow> (int \<times> u32 option) \<times> linux_calls" where
  "ggl_pci_cfgread32_linux s pdev offset tr =
     (if ucast offset + 4 > config_size_bytes pdev then ((-1, None), tr)
      else
        let r = do_pread s (pci_config pdev) 4 (ucast offset) tr;
            tr = tr @ [Pread (pci_config pdev) 4 (ucast offset)]
        in case r of
             None \<Rightarrow> ((-1, None), tr)
           | Some bs \<Rightarrow>
               if length bs \<noteq> 4 then ((-1, None), tr)
               else ((0, Some (le32toh (word_of_nat (of_le bs)))), tr))"

definition ggl_pci_cfgwrite32_linux ::
  "linux_services \<Rightarrow> ggl_pci_device_linux \<Rightarrow> u32 \<Rightarrow> u32 \<Rightarrow> linux_calls \<Rightarrow> int \<times> linux_calls" where
  "ggl_pci_cfgwrite32_linux s pdev offset val tr =
     (if ucast offset + 4 > config_size_bytes pdev then (-1, tr)
      else
        let bs = to_le 4 (unat (htole32 val)) in
        (if do_pwrite s (pci_config pdev) bs (ucast offset) tr = 4 then 0 else -1,
         tr @ [Pwrite (pci_config pdev) bs (ucast offset)]))"

text \<open>An index past the array of the BARs is undefined. Addresses are 64 bits wide, as is the sum of the
  offset and the size of a register.\<close>

definition bar_address :: "ptr \<Rightarrow> u64 \<Rightarrow> ptr" where
  "bar_address a offset = (a + unat offset) mod 2 ^ 64"

definition ggl_pci_mread32_linux ::
  "linux_services \<Rightarrow> ggl_pci_device_linux \<Rightarrow> u32 \<Rightarrow> u64 \<Rightarrow> linux_calls
    \<Rightarrow> ((int \<times> u32 option) \<times> linux_calls) option" where
  "ggl_pci_mread32_linux s pdev bar_index offset tr =
     (let i = unat bar_index in
      if i \<ge> kMaxPciBars then None
      else if bars pdev ! i = NULL \<or> offset + 4 > bar_sizes_bytes pdev ! i then Some ((-1, None), tr)
      else
        let a = bar_address (bars pdev ! i) offset
        in Some ((0, Some (do_bar_read s a tr)), tr @ [BarRead a]))"

definition ggl_pci_mwrite32_linux ::
  "ggl_pci_device_linux \<Rightarrow> u32 \<Rightarrow> u64 \<Rightarrow> u32 \<Rightarrow> linux_calls \<Rightarrow> (int \<times> linux_calls) option" where
  "ggl_pci_mwrite32_linux pdev bar_index offset val tr =
     (let i = unat bar_index in
      if i \<ge> kMaxPciBars then None
      else if bars pdev ! i = NULL \<or> offset + 4 > bar_sizes_bytes pdev ! i then Some (-1, tr)
      else Some (0, tr @ [BarWrite (bar_address (bars pdev ! i) offset) val]))"

text \<open>The polling loop may run for ever: then its value is \<open>None\<close>. The clock is in whole microseconds, the
  unit of the timeout; that of the code has fractions of them.\<close>

partial_function (option) mpoll_loop ::
  "linux_services \<Rightarrow> ggl_pci_device_linux \<Rightarrow> u32 \<Rightarrow> u32 \<Rightarrow> u32 \<Rightarrow> u32 \<Rightarrow> int \<Rightarrow> bool \<Rightarrow> linux_calls
    \<Rightarrow> ((int \<times> u32 option) \<times> linux_calls) option" where
  "mpoll_loop s pdev bar_index bar_offset msk expected_val deadline last_val_null tr = do {
     ((res, v), tr) \<leftarrow> ggl_pci_mread32_linux s pdev bar_index (ucast bar_offset) tr;
     (case v of
        None \<Rightarrow> Some ((-1, None), tr)
      | Some val \<Rightarrow>
          if res \<noteq> 0 then Some ((-1, None), tr)
          else if val AND msk = expected_val then Some ((0, if \<not> last_val_null then Some val else None), tr)
          else if do_now s tr > deadline then Some ((1, None), tr @ [Now])
          else mpoll_loop s pdev bar_index bar_offset msk expected_val deadline last_val_null (tr @ [Now, Yield])) }"

definition ggl_pci_mpoll32_linux ::
  "linux_services \<Rightarrow> ggl_pci_device_linux \<Rightarrow> u32 \<Rightarrow> u32 \<Rightarrow> u32 \<Rightarrow> u32 \<Rightarrow> u32 \<Rightarrow> bool \<Rightarrow> linux_calls
    \<Rightarrow> ((int \<times> u32 option) \<times> linux_calls) option" where
  "ggl_pci_mpoll32_linux s pdev bar_index bar_offset msk expected_val timeout_usecs last_val_null tr =
     (if expected_val AND msk \<noteq> expected_val then Some ((-1, None), tr @ [Log])
      else
        let deadline = do_now s tr + int (unat timeout_usecs) in
        mpoll_loop s pdev bar_index bar_offset msk expected_val deadline last_val_null (tr @ [Now]))"

section \<open>BAR numbering\<close>

text \<open>The offsets at which the BARs of a device start: a 64-bit one takes two.\<close>

function bar_offsets :: "u64 list \<Rightarrow> nat \<Rightarrow> nat list" where
  "bar_offsets fl bo =
     (if bo < kMaxPciBars then bo # bar_offsets fl (bo + (if Is64BitBAR (fl ! bo) then 2 else 1)) else [])"
  by pat_completeness auto
termination
  by (relation "measure (\<lambda>(fl, bo). 6 - bo)") (auto simp: kMaxPciBars_def)

declare bar_offsets.simps [simp del]

lemma length_bar_offsets: "bo \<le> 6 \<Longrightarrow> length (bar_offsets fl bo) + bo \<le> 6"
proof (induction fl bo rule: bar_offsets.induct)
  case (1 fl bo)
  show ?case
  proof (cases "bo < 6")
    case True
    have "bar_offsets fl (bo + k) = []" if "bo + k > 6" for k
      using that by (simp add: bar_offsets.simps[of fl "bo + k"] kMaxPciBars_def)
    then show ?thesis
      using 1 True
      by (cases "bo + (if Is64BitBAR (fl ! bo) then 2 else 1) \<le> 6")
        (auto simp: bar_offsets.simps[of fl bo] kMaxPciBars_def split: if_splits)
  qed (use "1.prems" in \<open>simp add: bar_offsets.simps[of fl 6] kMaxPciBars_def\<close>)
qed

definition resource_path :: "path \<Rightarrow> nat \<Rightarrow> path" where
  "resource_path d bo = d @ lit ''/resource'' @ dec bo"

text \<open>Entry \<open>i\<close> was made from the resource file at offset \<open>bo\<close> by the calls between \<open>tr\<close> and \<open>tr'\<close>: it is
  empty when the file was not there, and otherwise what mapping the file gave.\<close>

definition mapped_bar ::
  "linux_services \<Rightarrow> ggl_pci_device_linux \<Rightarrow> nat \<Rightarrow> nat \<Rightarrow> linux_calls \<Rightarrow> linux_calls \<Rightarrow> bool" where
  "mapped_bar s pdev i bo tr tr' \<longleftrightarrow>
     (let p = resource_path (device_path pdev) bo in
      \<exists>v u. if do_access s p (tr @ v)
        then (case do_mmap s p (tr @ v @ [Access p]) of (a, n) \<Rightarrow>
                tr' = tr @ v @ [Access p, MMapFile p a n] @ u \<and> bars pdev ! i = a \<and>
                (a \<noteq> NULL \<longrightarrow> bar_sizes_bytes pdev ! i = n))
        else tr' = tr @ v @ [Access p] @ u \<and> bars pdev ! i = NULL)"

lemma mapped_barI:
  assumes "resource_path (device_path pdev) bo = p"
    "if do_access s p tr
     then (case do_mmap s p (tr @ [Access p]) of (a, n) \<Rightarrow>
             tr' = tr @ [Access p, MMapFile p a n] @ u \<and> bars pdev ! i = a \<and> (a \<noteq> NULL \<longrightarrow> bar_sizes_bytes pdev ! i = n))
     else tr' = tr @ [Access p] @ u \<and> bars pdev ! i = NULL"
  shows "mapped_bar s pdev i bo tr tr'"
  unfolding mapped_bar_def Let_def assms(1)
  by (rule exI[of _ "[]"], rule exI[of _ u]) (use assms(2) in \<open>simp only: append_Nil append_Nil2\<close>)

lemma mapped_bar_later:
  assumes "mapped_bar s pdev1 i bo tr tr1" "tr' = tr1 @ w" "device_path pdev' = device_path pdev1"
    "bars pdev' ! i = bars pdev1 ! i" "bar_sizes_bytes pdev' ! i = bar_sizes_bytes pdev1 ! i"
  shows "mapped_bar s pdev' i bo tr tr'"
proof -
  let ?p = "resource_path (device_path pdev') bo"
  obtain v u where "if do_access s ?p (tr @ v)
        then (case do_mmap s ?p (tr @ v @ [Access ?p]) of (a, n) \<Rightarrow>
                tr1 = tr @ v @ [Access ?p, MMapFile ?p a n] @ u \<and> bars pdev' ! i = a \<and>
                (a \<noteq> NULL \<longrightarrow> bar_sizes_bytes pdev' ! i = n))
        else tr1 = tr @ v @ [Access ?p] @ u \<and> bars pdev' ! i = NULL"
    using assms(1) unfolding mapped_bar_def Let_def assms(3-5) by blast
  then show ?thesis
    unfolding mapped_bar_def Let_def
    by (intro exI[of _ v] exI[of _ "u @ w"]) (auto simp: assms(2) split: if_splits prod.splits)
qed

lemma mapped_bar_earlier:
  assumes "mapped_bar s pdev i bo (tr @ w) tr'"
  shows "mapped_bar s pdev i bo tr tr'"
proof -
  let ?p = "resource_path (device_path pdev) bo"
  obtain v u where "if do_access s ?p (tr @ (w @ v))
        then (case do_mmap s ?p (tr @ (w @ v) @ [Access ?p]) of (a, n) \<Rightarrow>
                tr' = tr @ (w @ v) @ [Access ?p, MMapFile ?p a n] @ u \<and> bars pdev ! i = a \<and>
                (a \<noteq> NULL \<longrightarrow> bar_sizes_bytes pdev ! i = n))
        else tr' = tr @ (w @ v) @ [Access ?p] @ u \<and> bars pdev ! i = NULL"
    using assms unfolding mapped_bar_def Let_def append_assoc by blast
  then show ?thesis unfolding mapped_bar_def Let_def by (intro exI[of _ "w @ v"] exI[of _ u])
qed

text \<open>What a call leaves in use: descriptors and mappings.\<close>

fun fd_step :: "int multiset \<Rightarrow> linux_call \<Rightarrow> int multiset" where
  "fd_step M (OpenFD p fd) = (if fd < 0 then M else add_mset fd M)"
| "fd_step M (CloseFD fd) = M - {#fd#}"
| "fd_step M _ = M"

fun map_step :: "(ptr \<times> u64) multiset \<Rightarrow> linux_call \<Rightarrow> (ptr \<times> u64) multiset" where
  "map_step M (MMapFile p a n) = (if a = NULL then M else add_mset (a, n) M)"
| "map_step M (MUnmap a n) = M - {#(a, n)#}"
| "map_step M _ = M"

definition fds :: "linux_calls \<Rightarrow> int multiset" where "fds tr = foldl fd_step {#} tr"
definition maps :: "linux_calls \<Rightarrow> (ptr \<times> u64) multiset" where "maps tr = foldl map_step {#} tr"

lemma fds_maps_append [simp]:
  "fds (tr @ cs) = foldl fd_step (fds tr) cs" "maps (tr @ cs) = foldl map_step (maps tr) cs"
  by (simp_all add: fds_def maps_def)

definition held_maps :: "ggl_pci_device_linux \<Rightarrow> (ptr \<times> u64) multiset" where
  "held_maps pdev = filter_mset (\<lambda>(a, n). a \<noteq> NULL) (mset (zip (bars pdev) (bar_sizes_bytes pdev)))"

definition wf_bars :: "ggl_pci_device_linux \<Rightarrow> nat \<Rightarrow> bool" where
  "wf_bars pdev i \<longleftrightarrow> length (bars pdev) = 6 \<and> length (bar_sizes_bytes pdev) = 6 \<and>
     (\<forall>j < 6. i \<le> j \<longrightarrow> bars pdev ! j = NULL)"

lemma held_maps_update:
  assumes "wf_bars pdev i" "i < 6"
  shows "held_maps (pdev\<lparr> bars := (bars pdev)[i := a], bar_sizes_bytes := (bar_sizes_bytes pdev)[i := n] \<rparr>) =
    (if a = NULL then held_maps pdev else add_mset (a, n) (held_maps pdev))"
proof -
  let ?z = "zip (bars pdev) (bar_sizes_bytes pdev)"
  have i: "i < length ?z" "fst (?z ! i) = NULL" using assms by (auto simp: wf_bars_def)
  have "zip ((bars pdev)[i := a]) ((bar_sizes_bytes pdev)[i := n]) = ?z[i := (a, n)]" by (rule zip_update)
  moreover have "mset (?z[i := (a, n)]) = add_mset (a, n) (mset ?z - {#?z ! i#})" using i by (simp add: mset_update)
  moreover have "filter_mset (\<lambda>(a, n). a \<noteq> NULL) (mset ?z - {#?z ! i#}) = filter_mset (\<lambda>(a, n). a \<noteq> NULL) (mset ?z)"
    using i(2) by (cases "?z ! i") (auto simp: filter_diff_mset)
  ultimately show ?thesis by (simp add: held_maps_def)
qed

lemma held_maps_null:
  assumes "wf_bars pdev i" "i < 6"
  shows "held_maps (pdev\<lparr> bars := (bars pdev)[i := NULL] \<rparr>) = held_maps pdev"
proof -
  have "(bars pdev)[i := NULL] = bars pdev"
    using assms by (metis list_update_id nth_list_update_neq wf_bars_def order_refl)
  then show ?thesis by simp
qed

text \<open>What the loop does from offset \<open>bo\<close> and index \<open>i\<close> on.\<close>

definition bars_from ::
  "linux_services \<Rightarrow> u64 list \<Rightarrow> nat \<Rightarrow> nat \<Rightarrow> ggl_pci_device_linux \<Rightarrow> linux_calls \<Rightarrow> ggl_pci_device_linux \<Rightarrow> linux_calls \<Rightarrow> bool" where
  "bars_from s fl bo i pdev tr pdev' tr' \<longleftrightarrow>
     length (bars pdev') = 6 \<and> length (bar_sizes_bytes pdev') = 6 \<and> device_path pdev' = device_path pdev \<and>
     pci_config pdev' = pci_config pdev \<and> config_size_bytes pdev' = config_size_bytes pdev \<and>
     fds tr' = fds tr \<and> maps tr' + held_maps pdev = maps tr + held_maps pdev' \<and> (\<exists>u. tr' = tr @ u) \<and>
     (\<forall>j < i. bars pdev' ! j = bars pdev ! j \<and> bar_sizes_bytes pdev' ! j = bar_sizes_bytes pdev ! j) \<and>
     (\<forall>k < length (bar_offsets fl bo). mapped_bar s pdev' (i + k) (bar_offsets fl bo ! k) tr tr') \<and>
     (\<forall>j < 6. i + length (bar_offsets fl bo) \<le> j \<longrightarrow> bars pdev' ! j = NULL)"

lemma bars_from_step:
  assumes "bars_from s fl next_bo (Suc i) pdev1 tr1 pdev' tr'"
    "bar_offsets fl bo = bo # bar_offsets fl next_bo"
    "device_path pdev1 = device_path pdev" "pci_config pdev1 = pci_config pdev"
    "config_size_bytes pdev1 = config_size_bytes pdev" "fds tr1 = fds tr"
    "maps tr1 + held_maps pdev = maps tr + held_maps pdev1" "tr1 = tr @ w" "mapped_bar s pdev1 i bo tr tr1"
    "\<forall>j < i. bars pdev1 ! j = bars pdev ! j \<and> bar_sizes_bytes pdev1 ! j = bar_sizes_bytes pdev ! j"
  shows "bars_from s fl bo i pdev tr pdev' tr'"
proof -
  have d: "length (bars pdev') = 6 \<and> length (bar_sizes_bytes pdev') = 6 \<and> device_path pdev' = device_path pdev \<and>
      pci_config pdev' = pci_config pdev \<and> config_size_bytes pdev' = config_size_bytes pdev \<and> fds tr' = fds tr"
    "maps tr' + held_maps pdev1 = maps tr1 + held_maps pdev'" "\<exists>u. tr' = tr1 @ u"
    "\<forall>j < Suc i. bars pdev' ! j = bars pdev1 ! j \<and> bar_sizes_bytes pdev' ! j = bar_sizes_bytes pdev1 ! j"
    "\<forall>k < length (bar_offsets fl next_bo). mapped_bar s pdev' (Suc i + k) (bar_offsets fl next_bo ! k) tr1 tr'"
    "\<forall>j < 6. Suc i + length (bar_offsets fl next_bo) \<le> j \<longrightarrow> bars pdev' ! j = NULL"
    using assms(1) unfolding bars_from_def assms(3-6) by - (elim conjE, (intro conjI)?, assumption+)+
  obtain u where u: "tr' = tr1 @ u" using d(3) by blast
  have "maps tr' + held_maps pdev + held_maps pdev1 = maps tr + held_maps pdev' + held_maps pdev1"
    using d(2) assms(7) by (metis (no_types, lifting) add.assoc add.commute)
  then have maps: "maps tr' + held_maps pdev = maps tr + held_maps pdev'" by simp
  have first: "mapped_bar s pdev' i bo tr tr'"
    by (rule mapped_bar_later[OF assms(9) u]) (simp_all add: d(1) assms(3) d(4))
  have rest: "mapped_bar s pdev' (i + k) ((bo # bar_offsets fl next_bo) ! k) tr tr'"
    if "k < Suc (length (bar_offsets fl next_bo))" for k
  proof (cases k)
    case (Suc l)
    then have "mapped_bar s pdev' (Suc i + l) (bar_offsets fl next_bo ! l) (tr @ w) tr'"
      using that d(5) assms(8) by simp
    from mapped_bar_earlier[OF this] show ?thesis using Suc by simp
  qed (use first in simp)
  have before: "\<forall>j < i. bars pdev' ! j = bars pdev ! j \<and> bar_sizes_bytes pdev' ! j = bar_sizes_bytes pdev ! j"
    using d(4) assms(10) by simp
  have "\<exists>u. tr' = tr @ u" using u assms(8) by simp
  then show ?thesis
    using d(1) maps before rest d(6) unfolding bars_from_def assms(2) by simp
qed

lemma map_bars_props:
  "map_bars s fl bo i pdev tr = (pdev', tr') \<Longrightarrow> wf_bars pdev i \<Longrightarrow> i + length (bar_offsets fl bo) \<le> 6 \<Longrightarrow>
    bars_from s fl bo i pdev tr pdev' tr'"
proof (induction s fl bo i pdev tr rule: map_bars.induct)
  case (1 s fl bo i pdev tr)
  show ?case
  proof (cases "bo < kMaxPciBars")
    case False
    then show ?thesis
      using "1.prems" by (auto simp: map_bars.simps[of s fl bo] bar_offsets.simps[of fl bo] bars_from_def wf_bars_def)
  next
    case bo: True
    define nb where "nb = bo + (if Is64BitBAR (fl ! bo) then 2 else 1)"
    define p where "p = device_path pdev @ lit ''/resource'' @ dec bo"
    have offs: "bar_offsets fl bo = bo # bar_offsets fl nb"
      using bo by (simp add: bar_offsets.simps[of fl bo] nb_def)
    have i: "i < 6" "Suc i + length (bar_offsets fl nb) \<le> 6" using "1.prems"(3) by (simp_all add: offs)
    have rp: "resource_path (device_path pdev) bo = p" by (simp add: resource_path_def p_def)
    have nul: "bars pdev ! i = NULL" using "1.prems"(2) i(1) by (simp add: wf_bars_def)
    show ?thesis
    proof (cases "do_access s p tr")
      case False
      have "map_bars s fl nb (i + 1) pdev (tr @ [Access p]) = (pdev', tr')"
        using "1.prems"(1) bo False by (simp add: map_bars.simps[of s fl bo] nb_def[symmetric] p_def[symmetric] Let_def del: lit_simps)
      from "1.IH"(1)[OF bo nb_def p_def _ this] False "1.prems"(2) i
      have b: "bars_from s fl nb (Suc i) pdev (tr @ [Access p]) pdev' tr'" by (auto simp: wf_bars_def)
      have m: "mapped_bar s pdev i bo tr (tr @ [Access p])"
        using nul False by (intro mapped_barI[OF rp, where u = "[]"]) simp
      show ?thesis by (rule bars_from_step[OF b offs _ _ _ _ _ _ m, where w = "[Access p]"]) simp_all
    next
      case acc: True
      obtain a n where an: "do_mmap s p (tr @ [Access p]) = (a, n)" by (cases "do_mmap s p (tr @ [Access p])")
      show ?thesis
      proof (cases "a = NULL")
        case True
        let ?pd = "pdev\<lparr> bars := (bars pdev)[i := NULL] \<rparr>"
        have "map_bars s fl nb (i + 1) ?pd (((tr @ [Access p]) @ [MMapFile p NULL n]) @ [Log]) = (pdev', tr')"
          using "1.prems"(1) bo acc an True
          by (simp add: map_bars.simps[of s fl bo] nb_def[symmetric] p_def[symmetric] Let_def del: lit_simps)
        from "1.IH"(2)[OF bo nb_def p_def _ refl an[symmetric] refl refl refl _ this[folded True]]
        have b: "bars_from s fl nb (Suc i) ?pd (((tr @ [Access p]) @ [MMapFile p NULL n]) @ [Log]) pdev' tr'"
          using acc True "1.prems"(2) i by (auto simp: wf_bars_def nth_list_update)
        have m: "mapped_bar s ?pd i bo tr (((tr @ [Access p]) @ [MMapFile p NULL n]) @ [Log])"
          using acc an True "1.prems"(2) i(1) rp by (intro mapped_barI[where p = p and u = "[Log]"]) (auto simp: wf_bars_def)
        show ?thesis
          by (rule bars_from_step[OF b offs _ _ _ _ _ _ m, where w = "[Access p, MMapFile p NULL n, Log]"])
            (simp_all add: held_maps_null[OF "1.prems"(2) i(1)])
      next
        case False
        let ?pd = "pdev\<lparr> bars := (bars pdev)[i := a], bar_sizes_bytes := (bar_sizes_bytes pdev)[i := n] \<rparr>"
        have "map_bars s fl nb (i + 1) ?pd ((tr @ [Access p]) @ [MMapFile p a n]) = (pdev', tr')"
          using "1.prems"(1) bo acc an False
          by (simp add: map_bars.simps[of s fl bo] nb_def[symmetric] p_def[symmetric] Let_def del: lit_simps)
        from "1.IH"(3)[OF bo nb_def p_def _ refl an[symmetric] refl refl refl _ ] this
        have b: "bars_from s fl nb (Suc i) ?pd ((tr @ [Access p]) @ [MMapFile p a n]) pdev' tr'"
          using acc False "1.prems"(2) i by (auto simp: wf_bars_def nth_list_update)
        have m: "mapped_bar s ?pd i bo tr ((tr @ [Access p]) @ [MMapFile p a n])"
          using acc an "1.prems"(2) i(1) rp by (intro mapped_barI[where p = p and u = "[]"]) (auto simp: wf_bars_def)
        show ?thesis
          using False held_maps_update[OF "1.prems"(2) i(1), where a = a and n = n]
          by (intro bars_from_step[OF b offs _ _ _ _ _ _ m, where w = "[Access p, MMapFile p a n]"]) simp_all
      qed
    qed
  qed
qed

lemma bar_flags_loop_props:
  "bar_flags_loop s ls bo fl = Some fl' \<Longrightarrow> length fl = 6 \<Longrightarrow>
    length fl' = 6 \<and> (\<forall>j. j < bo \<or> bo + length ls \<le> j \<longrightarrow> fl' ! j = fl ! j) \<and>
    (\<forall>k < length ls. bo + k < 6 \<longrightarrow> length (str_split s (ls ! k)) = 3 \<and>
      hex_atoi s (str_split s (ls ! k) ! 2) = Some (fl' ! (bo + k)))"
proof (induction s ls bo fl rule: bar_flags_loop.induct)
  case (2 s line ls bo fl)
  show ?case
  proof (cases "bo \<ge> kMaxPciBars")
    case True
    then show ?thesis using "2.prems" by (auto simp: Let_def kMaxPciBars_def split: if_splits)
  next
    case False
    then obtain x where x: "length (str_split s line) = 3" "hex_atoi s (str_split s line ! 2) = Some x"
      "bar_flags_loop s ls (bo + 1) (fl[bo := x]) = Some fl'"
      using "2.prems"(1) by (auto simp: Let_def split: if_splits option.splits)
    have IH: "length fl' = 6" "\<And>j. j < bo + 1 \<or> bo + 1 + length ls \<le> j \<Longrightarrow> fl' ! j = fl[bo := x] ! j"
      "\<And>k. k < length ls \<Longrightarrow> bo + 1 + k < 6 \<Longrightarrow> length (str_split s (ls ! k)) = 3 \<and>
        hex_atoi s (str_split s (ls ! k) ! 2) = Some (fl' ! (bo + 1 + k))"
      using "2.IH"[OF refl _ False x(2,3)] x(1) "2.prems"(2) by auto
    have "length (str_split s ((line # ls) ! k)) = 3 \<and>
        hex_atoi s (str_split s ((line # ls) ! k) ! 2) = Some (fl' ! (bo + k))"
      if "k < length (line # ls)" "bo + k < 6" for k
      using that x(1,2) IH(2)[of bo] IH(3)[of "k - 1"] "2.prems"(2) by (cases k) auto
    then show ?thesis using IH(1,2) by auto
  qed
qed auto

text \<open>The device that \<open>ggl_pci_open\<close> returns, and the trace of a failure.\<close>

definition config_file :: "linux_services \<Rightarrow> u8 list \<Rightarrow> path" where
  "config_file s loc = join_path s (parse_pci_address_linux loc) (lit ''config'')"

lemma open_Some:
  assumes "ggl_pci_open_linux s loc tr = (Some pdev, tr')"
  obtains n fl ls v pdev0 where
    "do_open_fd s (config_file s loc) tr \<ge> 0" "fds (tr @ v) = fds tr + {#do_open_fd s (config_file s loc) tr#}"
    "maps (tr @ v) = maps tr"
    "do_lines s (join_path s (parse_pci_address_linux loc) (lit ''resource'')) (tr @ v) = Some ls"
    "bar_flags_loop s ls 0 (replicate 6 0) = Some fl"
    "pdev0 = \<lparr> device_path = parse_pci_address_linux loc, pci_config = do_open_fd s (config_file s loc) tr,
       config_size_bytes = n, bars = replicate 6 NULL, bar_sizes_bytes = replicate 6 0 \<rparr>"
    "map_bars s fl 0 0 pdev0 (tr @ v @ [ReadLines (join_path s (parse_pci_address_linux loc) (lit ''resource''))]) = (pdev, tr')"
proof -
  let ?p = "join_path s (parse_pci_address_linux loc) (lit ''config'')"
  let ?fd = "do_open_fd s ?p tr"
  let ?v = "[OpenFD ?p ?fd, Fstat ?fd, Log]"
  obtain n where n: "?fd \<ge> 0" "do_fstat s ?fd (tr @ [OpenFD ?p ?fd]) = Some n"
    using assms by (auto simp: ggl_pci_open_linux_def GetFdSize_def Let_def split: if_splits option.splits)
  then obtain ls fl where ls: "do_lines s (join_path s (parse_pci_address_linux loc) (lit ''resource'')) (tr @ ?v) = Some ls"
    "bar_flags_loop s ls 0 (replicate 6 0) = Some fl"
    using assms by (auto simp: ggl_pci_open_linux_def GetFdSize_def GetBARFlags_def kMaxPciBars_def Let_def
        split: if_splits option.splits)
  let ?tr1 = "tr @ ?v @ [ReadLines (join_path s (parse_pci_address_linux loc) (lit ''resource''))]"
  let ?pd = "\<lparr> device_path = parse_pci_address_linux loc, pci_config = ?fd,
       config_size_bytes = n, bars = replicate 6 NULL, bar_sizes_bytes = replicate 6 0 \<rparr>"
  have "map_bars s fl 0 0 ?pd ?tr1 = (pdev, tr')"
    using assms n ls by (auto simp: ggl_pci_open_linux_def GetFdSize_def GetBARFlags_def kMaxPciBars_def Let_def
        split: if_splits prod.splits)
  then show ?thesis
    using n ls by (intro that[of ?v ls fl ?pd n]) (simp_all add: config_file_def)
qed

lemma held_maps0: "held_maps \<lparr> device_path = p, pci_config = fd, config_size_bytes = n,
    bars = replicate 6 NULL, bar_sizes_bytes = replicate 6 0 \<rparr> = {#}"
  by (simp add: held_maps_def zip_replicate)

lemma open_bars:
  assumes "ggl_pci_open_linux s loc tr = (Some pdev, tr')"
  obtains fl ls v u where
    "do_lines s (join_path s (device_path pdev) (lit ''resource'')) (tr @ v) = Some ls"
    "tr' = tr @ v @ [ReadLines (join_path s (device_path pdev) (lit ''resource''))] @ u"
    "bar_flags_loop s ls 0 (replicate 6 0) = Some fl" "device_path pdev = parse_pci_address_linux loc"
    "pci_config pdev = do_open_fd s (config_file s loc) tr" "pci_config pdev \<ge> 0"
    "fds tr' = fds tr + {#pci_config pdev#}" "maps tr' = maps tr + held_maps pdev"
    "length (bars pdev) = 6" "length (bar_sizes_bytes pdev) = 6"
    "\<forall>k < length (bar_offsets fl 0). mapped_bar s pdev k (bar_offsets fl 0 ! k) tr tr'"
    "\<forall>j < 6. length (bar_offsets fl 0) \<le> j \<longrightarrow> bars pdev ! j = NULL"
proof -
  obtain n fl ls v pdev0 where o: "do_open_fd s (config_file s loc) tr \<ge> 0"
    "fds (tr @ v) = fds tr + {#do_open_fd s (config_file s loc) tr#}" "maps (tr @ v) = maps tr"
    "do_lines s (join_path s (parse_pci_address_linux loc) (lit ''resource'')) (tr @ v) = Some ls"
    "bar_flags_loop s ls 0 (replicate 6 0) = Some fl"
    and p: "pdev0 = \<lparr> device_path = parse_pci_address_linux loc, pci_config = do_open_fd s (config_file s loc) tr,
       config_size_bytes = n, bars = replicate 6 NULL, bar_sizes_bytes = replicate 6 0 \<rparr>"
    and m: "map_bars s fl 0 0 pdev0 (tr @ v @ [ReadLines (join_path s (parse_pci_address_linux loc) (lit ''resource''))]) =
      (pdev, tr')"
    using assms by (rule open_Some)
  let ?w = "v @ [ReadLines (join_path s (parse_pci_address_linux loc) (lit ''resource''))]"
  have "wf_bars pdev0 0" by (simp add: p wf_bars_def)
  from map_bars_props[OF m this] length_bar_offsets[of 0 fl]
  have b: "bars_from s fl 0 0 pdev0 (tr @ ?w) pdev tr'" by simp
  then obtain u where u: "tr' = tr @ ?w @ u" by (auto simp: bars_from_def)
  have "held_maps pdev0 = {#}" unfolding p by (rule held_maps0)
  moreover have "fds (tr @ ?w) = fds (tr @ v)" "maps (tr @ ?w) = maps (tr @ v)" by simp_all
  moreover have "mapped_bar s pdev k (bar_offsets fl 0 ! k) tr tr'" if "k < length (bar_offsets fl 0)" for k
    using b that mapped_bar_earlier[of s pdev k _ tr ?w tr'] by (auto simp: bars_from_def)
  ultimately show ?thesis using b o p u by (intro that[of v ls u fl]) (auto simp: bars_from_def)
qed

lemma open_None:
  assumes "ggl_pci_open_linux s loc tr = (None, tr')"
  shows "maps tr' = maps tr \<and>
    fds tr' = fds tr + (if parse_pci_address_linux loc = [] \<or> do_open_fd s (config_file s loc) tr < 0 then {#}
                        else {#do_open_fd s (config_file s loc) tr#})"
  using assms
  by (auto simp: ggl_pci_open_linux_def GetFdSize_def GetBARFlags_def Let_def config_file_def
      split: if_splits option.splits prod.splits)

text \<open>The mappings of a device in the order in which they are released.\<close>

definition held_list :: "ggl_pci_device_linux \<Rightarrow> (ptr \<times> u64) list" where
  "held_list pdev = filter (\<lambda>(a, n). a \<noteq> NULL) (zip (bars pdev) (bar_sizes_bytes pdev))"

text \<open>The system releases all of \<open>hs\<close>, one after another, from \<open>tr\<close> on.\<close>

fun unmaps_succeed :: "linux_services \<Rightarrow> (ptr \<times> u64) list \<Rightarrow> linux_calls \<Rightarrow> bool" where
  "unmaps_succeed s [] tr \<longleftrightarrow> True"
| "unmaps_succeed s ((a, n) # hs) tr \<longleftrightarrow> do_munmap s a n tr \<and> unmaps_succeed s hs (tr @ [MUnmap a n])"

lemma unmap_bars_exact:
  "unmap_bars s bs tr =
    (let hs = filter (\<lambda>(a, n). a \<noteq> NULL) bs
     in if unmaps_succeed s hs tr then Some (tr @ map (\<lambda>(a, n). MUnmap a n) hs) else None)"
  by (induction s bs tr rule: unmap_bars.induct) (auto simp: Let_def)

lemma unmaps_released:
  "fds (tr @ map (\<lambda>(a, n). MUnmap a n) hs) = fds tr" "maps (tr @ map (\<lambda>(a, n). MUnmap a n) hs) = maps tr - mset hs"
proof -
  have "foldl fd_step M (map (\<lambda>(a, n). MUnmap a n) hs) = M \<and>
      foldl map_step L (map (\<lambda>(a, n). MUnmap a n) hs) = L - mset hs" for M L
    by (induction hs arbitrary: L) auto
  then show "fds (tr @ map (\<lambda>(a, n). MUnmap a n) hs) = fds tr"
    "maps (tr @ map (\<lambda>(a, n). MUnmap a n) hs) = maps tr - mset hs" by simp_all
qed

text \<open>Closing, on each of its branches.\<close>

lemma close_exact:
  "ggl_pci_close_linux s pdev tr =
    (let tr1 = tr @ [CloseFD (pci_config pdev)] in
     if \<not> do_close_fd s (pci_config pdev) tr then Some (-1, tr1)
     else if unmaps_succeed s (held_list pdev) tr1
       then Some (0, tr1 @ map (\<lambda>(a, n). MUnmap a n) (held_list pdev)) else None)"
  by (simp add: ggl_pci_close_linux_def unmap_bars_exact held_list_def Let_def)

lemma mset_held_list: "mset (held_list pdev) = held_maps pdev"
  by (simp add: held_list_def held_maps_def mset_filter)

section \<open>The polling loop\<close>

text \<open>How the loop ends, from any point.\<close>

definition poll_ended ::
  "linux_services \<Rightarrow> ggl_pci_device_linux \<Rightarrow> u32 \<Rightarrow> u32 \<Rightarrow> u32 \<Rightarrow> u32 \<Rightarrow> int \<Rightarrow> bool \<Rightarrow> int \<Rightarrow> u32 option \<Rightarrow> linux_calls \<Rightarrow> bool" where
  "poll_ended s pdev bar_index bar_offset msk expected deadline null res lv tr' \<longleftrightarrow>
     (if res = 0 then
        (let a = bar_address (bars pdev ! unat bar_index) (ucast bar_offset) in
         \<exists>t. tr' = t @ [BarRead a] \<and> do_bar_read s a t AND msk = expected \<and>
             lv = (if null then None else Some (do_bar_read s a t)))
      else if res = 1 then \<exists>t. tr' = t @ [Now] \<and> deadline < do_now s t \<and> lv = None
      else res = -1 \<and> lv = None)"

lemma mpoll_loop_inaccessible:
  assumes "unat i < 6" "bars pdev ! unat i = NULL \<or> ucast bo + 4 > bar_sizes_bytes pdev ! unat i"
  shows "mpoll_loop s pdev i bo msk e deadline null tr = Some ((-1, None), tr)"
  using assms by (simp add: mpoll_loop.simps[of s pdev] ggl_pci_mread32_linux_def kMaxPciBars_def Let_def)

lemma mpoll_loop_ends:
  assumes "unat i < 6" "\<not> (bars pdev ! unat i = NULL \<or> ucast bo + 4 > bar_sizes_bytes pdev ! unat i)"
    and n: "\<forall>t. n \<le> length t \<longrightarrow> deadline < do_now s t"
  shows "\<exists>res lv tr'. mpoll_loop s pdev i bo msk e deadline null tr = Some ((res, lv), tr') \<and>
    res \<noteq> -1 \<and> poll_ended s pdev i bo msk e deadline null res lv tr'"
proof (induction "n - length tr" arbitrary: tr rule: less_induct)
  case less
  let ?a = "bar_address (bars pdev ! unat i) (ucast bo)"
  let ?v = "do_bar_read s ?a tr"
  let ?t = "tr @ [BarRead ?a]"
  have step: "mpoll_loop s pdev i bo msk e deadline null tr =
    (if ?v AND msk = e then Some ((0, if \<not> null then Some ?v else None), ?t)
     else if do_now s ?t > deadline then Some ((1, None), ?t @ [Now])
     else mpoll_loop s pdev i bo msk e deadline null (?t @ [Now, Yield]))"
    using assms(1,2) by (subst mpoll_loop.simps) (auto simp: ggl_pci_mread32_linux_def kMaxPciBars_def Let_def)
  show ?case
  proof (cases "?v AND msk = e \<or> do_now s ?t > deadline")
    case True
    then show ?thesis unfolding step by (auto simp: poll_ended_def Let_def)
  next
    case False
    then have "\<not> n \<le> length ?t" using n by blast
    then have "n - length (?t @ [Now, Yield]) < n - length tr" by simp
    from less[OF this] False show ?thesis unfolding step by auto
  qed
qed

section \<open>An example system\<close>

text \<open>A device with the BARs of the first example in \<open>efi/ggl_pci.h\<close>: a 64-bit one, a 32-bit one, one that is
  not available and a 64-bit one. Its flags are given as digits.\<close>

definition example_linux :: linux_services where
  "example_linux = \<lparr> join_path = \<lambda>d n. d @ lit ''/'' @ n, str_split = \<lambda>l. [[], [], l],
     hex_atoi = \<lambda>l. Some (if l = [] then 0 else ucast (hd l)),
     do_open_fd = \<lambda>_ _. 3, do_fstat = \<lambda>_ _. Some 256,
     do_lines = \<lambda>_ _. Some [[4], [0], [0], [0], [4], [0]], do_access = \<lambda>p _. last p \<noteq> 51,
     do_mmap = \<lambda>p _. (65536 * unat (last p), 4096), do_close_fd = \<lambda>_ _. True, do_munmap = \<lambda>_ _ _. True,
     do_pread = \<lambda>_ n _ _. Some (replicate n 0), do_pwrite = \<lambda>_ bs _ _. int (length bs),
     do_bar_read = \<lambda>_ t. word_of_nat (length t), do_now = \<lambda>t. int (length t) \<rparr>"

lemma example_fields:
  "do_open_fd example_linux p t = 3" "do_fstat example_linux fd t = Some 256"
  "do_lines example_linux p t = Some [[4], [0], [0], [0], [4], [0]]" "str_split example_linux l = [[], [], l]"
  "hex_atoi example_linux l = Some (if l = [] then 0 else ucast (hd l))"
  "do_bar_read example_linux a t = word_of_nat (length t)" "do_now example_linux t = int (length t)"
  by (simp_all add: example_linux_def)

lemma example_offsets: "bar_offsets [4, 0, 0, 0, 4, 0] 0 = [0, 2, 3, 4]"
  by (simp add: bar_offsets.simps kMaxPciBars_def Is64BitBAR_def)

lemma open_succeeds:
  assumes "parse_pci_address_linux loc \<noteq> []" "\<And>p t. do_open_fd s p t \<ge> 0" "\<And>fd t. do_fstat s fd t = Some n"
    "\<And>p t. do_lines s p t = Some ls" "bar_flags_loop s ls 0 (replicate kMaxPciBars 0) = Some fl"
  shows "\<exists>pdev tr'. ggl_pci_open_linux s loc tr = (Some pdev, tr')"
proof -
  have "fst (ggl_pci_open_linux s loc tr) \<noteq> None"
  proof
    assume "fst (ggl_pci_open_linux s loc tr) = None"
    then obtain tr' where "ggl_pci_open_linux s loc tr = (None, tr')"
      by (cases "ggl_pci_open_linux s loc tr") auto
    then show False
      using assms
      by (auto simp: ggl_pci_open_linux_def GetFdSize_def GetBARFlags_def Let_def not_less[symmetric]
          split: if_splits option.splits prod.splits)
  qed
  then show ?thesis by (cases "ggl_pci_open_linux s loc tr") auto
qed

lemma example_opens: "\<exists>pdev tr'. ggl_pci_open_linux example_linux (lit ''01:00.0'') [] = (Some pdev, tr')"
proof (rule open_succeeds)
  show "bar_flags_loop example_linux [[4], [0], [0], [0], [4], [0]] 0 (replicate kMaxPciBars 0) = Some [4, 0, 0, 0, 4, 0]"
    by (simp add: kMaxPciBars_def Let_def example_fields) (simp add: numeral_eq_Suc)
  show "parse_pci_address_linux (lit ''01:00.0'') \<noteq> []"
    by (simp add: parse_pci_address_linux_def path_prefix_def Let_def)
qed (simp_all add: example_fields)

definition example_device :: ggl_pci_device_linux where
  "example_device = \<lparr> device_path = [], pci_config = 3, config_size_bytes = 256,
     bars = [65536, 0, 0, 0, 0, 0], bar_sizes_bytes = [4096, 0, 0, 0, 0, 0] \<rparr>"

lemma example_mapped:
  assumes "mapped_bar example_linux pdev i bo tr tr'" "bo < 5"
  shows "if bo = 3 then bars pdev ! i = NULL
    else bars pdev ! i = 65536 * (48 + bo) \<and> bar_sizes_bytes pdev ! i = 4096"
proof -
  have "bo = 0 \<or> bo = 1 \<or> bo = 2 \<or> bo = 3 \<or> bo = 4" using assms(2) by auto
  have l: "last (resource_path (device_path pdev) bo) = word_of_nat (48 + bo)"
    using assms(2) by (simp add: resource_path_def dec.simps)
  moreover have "unat (word_of_nat (48 + bo) :: u8) = 48 + bo"
    using assms(2) by (simp add: unat_of_nat del: of_nat_add)
  moreover have "(word_of_nat (48 + bo) :: u8) = 51 \<longleftrightarrow> bo = 3"
    using \<open>bo = 0 \<or> bo = 1 \<or> bo = 2 \<or> bo = 3 \<or> bo = 4\<close> by auto
  ultimately show ?thesis
    using assms(1) unfolding mapped_bar_def Let_def by (auto simp: example_linux_def split: if_splits)
qed

section \<open>Properties\<close>

text \<open>C24. EFI numbering of the BARs: entry \<open>i\<close> of an open device stands for the resource file of the
  device's \<open>i\<close>-th BAR, where a 64-bit BAR takes two offsets as the flags in the third column of the
  device's resource list say (0 for a line that is not there). It is the mapping that mapping this file
  gave, with its size; it is empty exactly when the file was not there, its mapping failed, or the
  device has no \<open>i\<close>-th BAR.\<close>

theorem linux_bar_numbering:
  assumes "ggl_pci_open_linux s loc tr = (Some pdev, tr')"
  shows "\<exists>ls fl v u. let p = join_path s (device_path pdev) (lit ''resource'') in
    do_lines s p (tr @ v) = Some ls \<and> tr' = tr @ v @ [ReadLines p] @ u \<and> length fl = 6 \<and>
    (\<forall>k < 6. if k < length ls then length (str_split s (ls ! k)) = 3 \<and> hex_atoi s (str_split s (ls ! k) ! 2) = Some (fl ! k)
             else fl ! k = 0) \<and>
    (\<forall>i < 6. if i < length (bar_offsets fl 0) then mapped_bar s pdev i (bar_offsets fl 0 ! i) tr tr'
             else bars pdev ! i = NULL)"
proof -
  obtain fl ls v u where o:
    "do_lines s (join_path s (device_path pdev) (lit ''resource'')) (tr @ v) = Some ls"
    "tr' = tr @ v @ [ReadLines (join_path s (device_path pdev) (lit ''resource''))] @ u"
    "bar_flags_loop s ls 0 (replicate 6 0) = Some fl"
    "\<forall>k < length (bar_offsets fl 0). mapped_bar s pdev k (bar_offsets fl 0 ! k) tr tr'"
    "\<forall>j < 6. length (bar_offsets fl 0) \<le> j \<longrightarrow> bars pdev ! j = NULL"
    using assms by (rule open_bars)
  have fl: "length fl = 6" "\<And>j. length ls \<le> j \<Longrightarrow> fl ! j = replicate 6 0 ! j"
    "\<And>k. k < length ls \<Longrightarrow> k < 6 \<Longrightarrow>
      length (str_split s (ls ! k)) = 3 \<and> hex_atoi s (str_split s (ls ! k) ! 2) = Some (fl ! k)"
    using bar_flags_loop_props[OF o(3)] by auto
  have "\<forall>k < 6. if k < length ls then length (str_split s (ls ! k)) = 3 \<and>
      hex_atoi s (str_split s (ls ! k) ! 2) = Some (fl ! k) else fl ! k = 0"
    using fl(3) fl(2) by simp
  then show ?thesis
    using o fl(1) unfolding Let_def
    by (intro exI[of _ ls] exI[of _ fl] exI[of _ v] exI[of _ u] conjI) simp_all
qed

theorem linux_bar_numbering_witness:
  "\<exists>pdev tr' fl. ggl_pci_open_linux example_linux (lit ''01:00.0'') [] = (Some pdev, tr') \<and> length fl = 6 \<and>
     fl = [4, 0, 0, 0, 4, 0] \<and> bar_offsets fl 0 = [0, 2, 3, 4] \<and>
     bars pdev = [65536 * 48, 65536 * 50, NULL, 65536 * 52, NULL, NULL] \<and> bar_sizes_bytes pdev ! 3 = 4096"
proof -
  obtain pdev tr' where o: "ggl_pci_open_linux example_linux (lit ''01:00.0'') [] = (Some pdev, tr')"
    using example_opens by blast
  from linux_bar_numbering[OF o, unfolded Let_def] obtain ls fl v where
    l: "do_lines example_linux (join_path example_linux (device_path pdev) (lit ''resource'')) ([] @ v) = Some ls"
    and fl: "length fl = 6" "\<forall>k < 6. if k < length ls then length (str_split example_linux (ls ! k)) = 3 \<and>
      hex_atoi example_linux (str_split example_linux (ls ! k) ! 2) = Some (fl ! k) else fl ! k = 0"
    and b: "\<forall>i < 6. if i < length (bar_offsets fl 0) then mapped_bar example_linux pdev i (bar_offsets fl 0 ! i) [] tr'
      else bars pdev ! i = NULL"
    by (elim exE conjE) (rule that)
  have ls: "ls = [[4], [0], [0], [0], [4], [0]]" using l by (simp add: example_fields)
  have "fl ! 0 = 4 \<and> fl ! 1 = 0 \<and> fl ! 2 = 0 \<and> fl ! 3 = 0 \<and> fl ! 4 = 4 \<and> fl ! 5 = 0"
    using fl(2)[rule_format, of 0] fl(2)[rule_format, of 1] fl(2)[rule_format, of 2] fl(2)[rule_format, of 3]
      fl(2)[rule_format, of 4] fl(2)[rule_format, of 5]
    by (simp add: ls example_fields)
  then have f: "fl = [4, 0, 0, 0, 4, 0]" using fl(1) by (auto simp: length_Suc_conv numeral_eq_Suc)
  have m: "mapped_bar example_linux pdev 0 0 [] tr'" "mapped_bar example_linux pdev 1 2 [] tr'"
    "mapped_bar example_linux pdev 2 3 [] tr'" "mapped_bar example_linux pdev 3 4 [] tr'"
    using b[rule_format, of 0] b[rule_format, of 1] b[rule_format, of 2] b[rule_format, of 3]
    by (simp_all add: f example_offsets)
  have "bars pdev ! 0 = 65536 * 48" "bars pdev ! 1 = 65536 * 50" "bars pdev ! 2 = NULL" "bars pdev ! 3 = 65536 * 52"
    "bar_sizes_bytes pdev ! 3 = 4096"
    using m[THEN example_mapped] by simp_all
  moreover have "bars pdev ! 4 = NULL" "bars pdev ! 5 = NULL"
    using b[rule_format, of 4] b[rule_format, of 5] by (simp_all add: f example_offsets)
  moreover have "length (bars pdev) = Suc (Suc (Suc (Suc (Suc (Suc 0)))))"
    using o by (rule open_bars) simp
  then obtain b0 b1 b2 b3 b4 b5 where "bars pdev = [b0, b1, b2, b3, b4, b5]"
    by (auto simp: length_Suc_conv)
  ultimately have "bars pdev = [65536 * 48, 65536 * 50, NULL, 65536 * 52, NULL, NULL]" "bar_sizes_bytes pdev ! 3 = 4096"
    by simp_all
  then show ?thesis
    using o by (intro exI[of _ pdev] exI[of _ tr'] exI[of _ fl]) (simp add: f example_offsets)
qed

text \<open>C9. An open device holds its descriptor and its mappings. Closing it asks the system to close the
  descriptor and then to release each mapping in turn: if all of these calls succeed, closing returns 0
  and exactly what the device held has been released; if the descriptor cannot be closed, closing returns -1
  and has released no mapping; if a mapping cannot be released, \<open>CHECK\<close> stops the program. When opening fails
  after the configuration file was opened, its descriptor is never closed.\<close>

theorem linux_pci_resources:
  "case ggl_pci_open_linux s loc tr of
     (Some pdev, tr') \<Rightarrow>
       fds tr' = fds tr + {#pci_config pdev#} \<and> maps tr' = maps tr + held_maps pdev \<and>
       (let tr1 = tr' @ [CloseFD (pci_config pdev)] in
        if \<not> do_close_fd s (pci_config pdev) tr' then ggl_pci_close_linux s pdev tr' = Some (-1, tr1) \<and> maps tr1 = maps tr'
        else if unmaps_succeed s (held_list pdev) tr1
        then \<exists>tr''. ggl_pci_close_linux s pdev tr' = Some (0, tr'') \<and> fds tr'' = fds tr \<and> maps tr'' = maps tr
        else ggl_pci_close_linux s pdev tr' = None)
   | (None, tr') \<Rightarrow> maps tr' = maps tr \<and>
       fds tr' = fds tr + (if parse_pci_address_linux loc = [] \<or> do_open_fd s (config_file s loc) tr < 0 then {#}
                           else {#do_open_fd s (config_file s loc) tr#})"
proof (cases "ggl_pci_open_linux s loc tr")
  case (Pair r tr')
  show ?thesis
  proof (cases r)
    case None
    with Pair open_None[of s loc tr tr'] show ?thesis by simp
  next
    case (Some pdev)
    have o: "fds tr' = fds tr + {#pci_config pdev#}" "maps tr' = maps tr + held_maps pdev"
      using open_bars[of s loc tr pdev tr'] Pair Some by metis+
    let ?tr1 = "tr' @ [CloseFD (pci_config pdev)]"
    have "fds (?tr1 @ map (\<lambda>(a, n). MUnmap a n) (held_list pdev)) = fds tr \<and>
        maps (?tr1 @ map (\<lambda>(a, n). MUnmap a n) (held_list pdev)) = maps tr"
      unfolding unmaps_released mset_held_list using o by simp
    moreover have "maps ?tr1 = maps tr'" by simp
    ultimately show ?thesis using o Pair Some by (simp add: close_exact Let_def del: fds_maps_append)
  qed
qed

text \<open>C30. Register accesses of a mapped BAR stay inside its mapping for every offset but the last four of
  the 64-bit range, and are refused exactly when the register does not fit; for those last four
  offsets the sum with the register's size wraps around, the access is made although the offset is
  far outside, and its address is below the mapping.\<close>

theorem linux_mmio_bounds:
  assumes "unat i < 6" "a = bars pdev ! unat i" "n = bar_sizes_bytes pdev ! unat i" "4 \<le> a" "a + unat n < 2 ^ 64" "4 \<le> unat n"
  shows "if unat offset + 4 < 2 ^ 64
    then (if unat offset + 4 \<le> unat n
          then ggl_pci_mread32_linux s pdev i offset tr =
                 Some ((0, Some (do_bar_read s (a + unat offset) tr)), tr @ [BarRead (a + unat offset)]) \<and>
               ggl_pci_mwrite32_linux pdev i offset v tr = Some (0, tr @ [BarWrite (a + unat offset) v])
          else ggl_pci_mread32_linux s pdev i offset tr = Some ((-1, None), tr) \<and>
               ggl_pci_mwrite32_linux pdev i offset v tr = Some (-1, tr))
    else \<exists>b < a. ggl_pci_mread32_linux s pdev i offset tr = Some ((0, Some (do_bar_read s b tr)), tr @ [BarRead b]) \<and>
                 ggl_pci_mwrite32_linux pdev i offset v tr = Some (0, tr @ [BarWrite b v])"
proof -
  have off: "unat offset < 2 ^ 64" using unsigned_less[of offset, where 'a = nat] by simp
  have plus: "unat (offset + 4) = (unat offset + 4) mod 2 ^ 64" by (simp add: unat_word_ariths)
  show ?thesis
  proof (cases "unat offset + 4 < 2 ^ 64")
    case True
    then have "offset + 4 > n \<longleftrightarrow> unat n < unat offset + 4" by (simp add: word_less_nat_alt plus)
    moreover have "bar_address a offset = a + unat offset" if "unat offset + 4 \<le> unat n"
      using that assms(5) by (simp add: bar_address_def)
    ultimately show ?thesis
      using assms(1,4) True
      by (auto simp: ggl_pci_mread32_linux_def ggl_pci_mwrite32_linux_def kMaxPciBars_def Let_def assms(2,3)[symmetric])
  next
    case False
    then have "unat (offset + 4) = unat offset + 4 - 2 ^ 64" using off plus by (simp add: mod_if)
    then have "\<not> offset + 4 > n" using off assms(6) by (simp add: word_less_nat_alt)
    moreover have "bar_address a offset < a"
    proof -
      have "a + unat offset - 2 ^ 64 < 2 ^ 64" "2 ^ 64 \<le> a + unat offset" using off assms(4,5) False by linarith+
      then have "(a + unat offset) mod 2 ^ 64 = a + unat offset - 2 ^ 64" by (simp add: mod_if)
      then show ?thesis using off assms(4) unfolding bar_address_def by linarith
    qed
    ultimately show ?thesis
      using assms(1,4) False
      by (auto simp: ggl_pci_mread32_linux_def ggl_pci_mwrite32_linux_def kMaxPciBars_def Let_def assms(2,3)[symmetric]
          simp del: not_less)
  qed
qed

theorem linux_mmio_bounds_witness:
  "ggl_pci_mread32_linux example_linux example_device 0 4092 [] = Some ((0, Some 0), [BarRead 69628]) \<and>
   ggl_pci_mread32_linux example_linux example_device 0 4093 [] = Some ((-1, None), []) \<and>
   (\<exists>b < 65536. ggl_pci_mwrite32_linux example_device 0 (- 4) 7 [] = Some (0, [BarWrite b 7]))"
proof -
  have h: "unat (0 :: u32) < 6" "(65536 :: ptr) = bars example_device ! unat (0 :: u32)"
    "4096 = bar_sizes_bytes example_device ! unat (0 :: u32)" "(4 :: ptr) \<le> 65536"
    "65536 + unat (4096 :: u64) < 2 ^ 64" "4 \<le> unat (4096 :: u64)"
    by (simp_all add: example_device_def)
  have u: "unat (4092 :: u64) = 4092" "unat (4093 :: u64) = 4093" "unat (4096 :: u64) = 4096"
    "unat (18446744073709551612 :: u64) = 18446744073709551612" by simp_all
  have n: "(- 4 :: u64) = 18446744073709551612" by simp
  have 1: "ggl_pci_mread32_linux example_linux example_device 0 4092 [] = Some ((0, Some 0), [BarRead 69628])"
    using linux_mmio_bounds[OF h, of 4092 example_linux "[]" 7] unfolding u by (simp add: example_fields)
  have 2: "ggl_pci_mread32_linux example_linux example_device 0 4093 [] = Some ((-1, None), [])"
    using linux_mmio_bounds[OF h, of 4093 example_linux "[]" 7] unfolding u by simp
  have 3: "\<exists>b < 65536. ggl_pci_mwrite32_linux example_device 0 18446744073709551612 7 [] = Some (0, [BarWrite b 7])"
    using linux_mmio_bounds[OF h, of 18446744073709551612 example_linux "[]" 7] unfolding u by auto
  show ?thesis unfolding n using 1 2 3 by blast
qed

text \<open>C14. Polling always ends, as long as the clock goes on: with 0 when the last register value read has
  the expected bits, with 1 when the clock has passed the deadline, and with -1, at once, exactly when
  the expected value has bits outside the mask or the register is not accessible.\<close>

theorem linux_poll_ends:
  assumes "unat i < 6" "\<forall>d. \<exists>n. \<forall>t. n \<le> length t \<longrightarrow> d < do_now s t"
  shows "\<exists>res lv tr'. ggl_pci_mpoll32_linux s pdev i bo msk e timeout null tr = Some ((res, lv), tr') \<and>
    poll_ended s pdev i bo msk e (do_now s tr + int (unat timeout)) null res lv tr' \<and>
    (res = -1 \<longleftrightarrow> e AND msk \<noteq> e \<or> bars pdev ! unat i = NULL \<or> ucast bo + 4 > bar_sizes_bytes pdev ! unat i)"
proof (cases "e AND msk = e")
  case False
  then show ?thesis by (auto simp: ggl_pci_mpoll32_linux_def poll_ended_def)
next
  case valid: True
  let ?d = "do_now s tr + int (unat timeout)"
  show ?thesis
  proof (cases "bars pdev ! unat i = NULL \<or> ucast bo + 4 > bar_sizes_bytes pdev ! unat i")
    case True
    then show ?thesis
      using valid mpoll_loop_inaccessible[OF assms(1) True]
      by (auto simp: ggl_pci_mpoll32_linux_def poll_ended_def Let_def)
  next
    case False
    obtain n where "\<forall>t. n \<le> length t \<longrightarrow> ?d < do_now s t" using assms(2) by blast
    from mpoll_loop_ends[OF assms(1) False this, of msk e null "tr @ [Now]"] valid False show ?thesis
      by (auto simp: ggl_pci_mpoll32_linux_def Let_def)
  qed
qed

theorem linux_poll_ends_witness:
  "\<exists>res lv tr'. ggl_pci_mpoll32_linux example_linux example_device 0 0 15 9 100 False [] = Some ((res, lv), tr') \<and>
     res \<noteq> -1 \<and> poll_ended example_linux example_device 0 0 15 9 100 False res lv tr'"
proof -
  have "\<exists>n. \<forall>t. n \<le> length t \<longrightarrow> d < do_now example_linux t" for d
    by (rule exI[of _ "nat (d + 1)"]) (simp add: example_fields nat_le_iff)
  then have c: "\<forall>d. \<exists>n. \<forall>t. n \<le> length t \<longrightarrow> d < do_now example_linux t" by blast
  have u: "unat (0 :: u32) < 6" by simp
  obtain res lv tr' where r: "ggl_pci_mpoll32_linux example_linux example_device 0 0 15 9 100 False [] = Some ((res, lv), tr')"
    "poll_ended example_linux example_device 0 0 15 9 (do_now example_linux [] + int (unat (100 :: u32))) False res lv tr'"
    "res = -1 \<longleftrightarrow> (9 :: u32) AND 15 \<noteq> 9 \<or> bars example_device ! unat (0 :: u32) = NULL \<or>
      ucast (0 :: u32) + 4 > bar_sizes_bytes example_device ! unat (0 :: u32)"
    using linux_poll_ends[OF u c, of example_device 0 15 9 100 False "[]"] by (elim exE conjE) (rule that)
  have "\<not> (bars example_device ! unat (0 :: u32) = NULL \<or>
      ucast (0 :: u32) + 4 > bar_sizes_bytes example_device ! unat (0 :: u32))"
    by (simp add: example_device_def)
  moreover have "(9 :: u32) AND 15 = 9" by simp
  ultimately have "res \<noteq> -1" using r(3) by blast
  moreover have "do_now example_linux [] + int (unat (100 :: u32)) = 100" by (simp add: example_fields)
  ultimately show ?thesis using r(1,2) by (intro exI[of _ res] exI[of _ lv] exI[of _ tr']) simp
qed

end
