(* ===== verification/Native.thy ===== *)
theory Native
  imports Malloc Time
begin

text \<open>
  \<open>native/start_main.c\<close>: the runtime over a host C library, for programs that run on an ordinary
  system. The functions of the host library are parameters (\<open>host\<close>), which act on its state; what
  they do when they fail is left open.
\<close>

section \<open>The code\<close>

text \<open>A host function returns its result and the new state. \<open>h_clock_gettime\<close> returns its status with
  \<open>tv_sec\<close> and \<open>tv_nsec\<close>; the \<open>bool\<close> of \<open>h_exit\<close> tells that it did not return.\<close>

record 'w host =
  h_malloc :: "u64 \<Rightarrow> mem \<Rightarrow> 'w \<Rightarrow> ptr \<times> mem \<times> 'w"
  h_free :: "ptr \<Rightarrow> mem \<Rightarrow> 'w \<Rightarrow> mem \<times> 'w"
  h_write :: "int \<Rightarrow> u8 list \<Rightarrow> 'w \<Rightarrow> int \<times> 'w"
  h_exit :: "int \<Rightarrow> 'w \<Rightarrow> bool \<times> 'w"
  h_sleep :: "u32 \<Rightarrow> 'w \<Rightarrow> u32 \<times> 'w"
  h_usleep :: "u32 \<Rightarrow> 'w \<Rightarrow> int \<times> 'w"
  h_clock_gettime :: "nat \<Rightarrow> 'w \<Rightarrow> (int \<times> int \<times> int) \<times> 'w"

definition NNLC_USECS_IN_ONE_SEC :: u64 where "NNLC_USECS_IN_ONE_SEC = 1000000"
definition STDOUT_FILENO :: int where "STDOUT_FILENO = 1"
definition STDERR_FILENO :: int where "STDERR_FILENO = 2"

text \<open>The arguments of \<open>sleep\<close> and \<open>usleep\<close> are \<open>unsigned int\<close>: 64-bit values are converted.\<close>

definition nnlc_usleep64 :: "'w host \<Rightarrow> u64 \<Rightarrow> 'w \<Rightarrow> u64 \<times> 'w" where
  "nnlc_usleep64 h micro_seconds w =
     (let seconds = micro_seconds div NNLC_USECS_IN_ONE_SEC;
          usecs = micro_seconds mod NNLC_USECS_IN_ONE_SEC;
          finish = (\<lambda>w. if usecs \<noteq> 0 then (let (_, w) = h_usleep h (ucast usecs) w in (0, w)) else (0, w))
      in if seconds \<noteq> 0 then
           (let (rv, w) = h_sleep h (ucast seconds) w in
            if rv > 0 then (ucast rv * NNLC_USECS_IN_ONE_SEC, w) else finish w)
         else finish w)"

definition native_write_stdout :: "'w host \<Rightarrow> 'w writer" where
  "native_write_stdout h d w = h_write h STDOUT_FILENO d w"

definition native_write_stderr :: "'w host \<Rightarrow> 'w writer" where
  "native_write_stderr h d w = h_write h STDERR_FILENO d w"

text \<open>When the clock fails \<open>*secs\<close> and \<open>*nanosecs\<close> keep their values, here those in \<open>old\<close>.\<close>

definition nnlc_gettime :: "'w host \<Rightarrow> nat \<Rightarrow> u64 \<times> u64 \<Rightarrow> 'w \<Rightarrow> (int \<times> u64 \<times> u64) \<times> 'w" where
  "nnlc_gettime h clid old w =
     (let ((rv, sec, nsec), w) = h_clock_gettime h clid w in
      if rv \<noteq> 0 then ((rv, old), w) else ((0, word_of_int sec, word_of_int nsec), w))"

definition native_gettime_wall :: "'w host \<Rightarrow> u64 \<times> u64 \<Rightarrow> 'w \<Rightarrow> (int \<times> u64 \<times> u64) \<times> 'w" where
  "native_gettime_wall h = nnlc_gettime h CLOCK_REALTIME"

definition native_gettime_monotonic :: "'w host \<Rightarrow> u64 \<times> u64 \<Rightarrow> 'w \<Rightarrow> (int \<times> u64 \<times> u64) \<times> 'w" where
  "native_gettime_monotonic h = nnlc_gettime h CLOCK_MONOTONIC"

text \<open>The hooks that \<open>main\<close> fills in. The clocks' callers pass locals that have no value yet.\<close>

definition native_sysdeps :: "'w host \<Rightarrow> u64 \<times> u64 \<Rightarrow> 'w nnlc_sysdeps" where
  "native_sysdeps h old =
     \<lparr> sys_malloc = h_malloc h, sys_free = h_free h,
       sys_write_stdout = native_write_stdout h, sys_write_stderr = native_write_stderr h,
       sys_exit = h_exit h, sys_usleep = nnlc_usleep64 h,
       sys_gettime_monotonic = native_gettime_monotonic h old, sys_gettime_wall = native_gettime_wall h old \<rparr>"

text \<open>\<open>main\<close> of the host program; \<open>prog\<close> is the program's \<open>main\<close> on the initialised library.\<close>

definition native_main ::
  "'w host \<Rightarrow> u64 \<times> u64 \<Rightarrow> ('w nnlc_internal_data \<Rightarrow> int \<Rightarrow> ptr \<Rightarrow> 'w \<Rightarrow> (int, 'w) outcome)
    \<Rightarrow> int \<Rightarrow> ptr \<Rightarrow> 'w \<Rightarrow> (int, 'w) outcome" where
  "native_main h old prog argc argv w =
     (let (rc, d) = nnlc_initialize (native_sysdeps h old) nnlc_internal_data0 in
      if rc \<noteq> 0 then Returns rc w else prog d argc argv w)"

section \<open>The library over the host\<close>

definition native_libc :: "'w host \<Rightarrow> u64 \<times> u64 \<Rightarrow> 'w nnlc_internal_data" where
  "native_libc h old = snd (nnlc_initialize (native_sysdeps h old) nnlc_internal_data0)"

lemma native_libc_fields:
  "sysdeps (native_libc h old) = Some (native_sysdeps h old)"
  "stream_write (Some (libc_stdout (native_libc h old))) = Some (native_write_stdout h)"
  "stream_write (Some (libc_stderr (native_libc h old))) = Some (native_write_stderr h)"
  by (simp_all add: native_libc_def nnlc_initialize_def stream_write_def native_sysdeps_def Let_def)

lemma native_main_eq: "native_main h old prog argc argv w = prog (native_libc h old) argc argv w"
  by (simp add: native_main_def native_libc_def nnlc_initialize_def Let_def)

lemma uint_ucast32: "uint (ucast (n :: u32) :: u64) = uint n"
proof -
  have "uint n < 2 ^ 64" using uint_lt2p[of n] by simp
  then show ?thesis by (simp add: unsigned_ucast_eq take_bit_int_eq_self)
qed

lemma ucast_32: "uint (x :: u64) = uint (y :: u32) \<Longrightarrow> ucast x = y"
  using uint_lt2p[of y] by (simp add: word_uint_eq_iff unsigned_ucast_eq take_bit_int_eq_self)

lemma ucast_ucast32: "ucast (ucast (n :: u32) :: u64) = n"
  by (rule ucast_32) (rule uint_ucast32)

text \<open>The hook's split of a whole number of seconds, and of a 32-bit number of microseconds.\<close>

lemma split_seconds:
  "(ucast (n :: u32) * 1000000 :: u64) div 1000000 = ucast n \<and> (ucast n * 1000000 :: u64) mod 1000000 = 0"
proof -
  have "uint n * 1000000 < 2 ^ 64" using uint_lt2p[of n] by simp
  then have "uint (ucast n * 1000000 :: u64) = uint n * 1000000"
    by (simp add: uint_word_ariths(3) uint_ucast32)
  then show ?thesis by (simp add: word_uint_eq_iff uint_div uint_mod uint_ucast32)
qed

lemma split_micros:
  "ucast ((ucast (n :: u32) :: u64) div 1000000) = n div 1000000 \<and>
   ucast ((ucast n :: u64) mod 1000000) = n mod 1000000 \<and>
   ((ucast n :: u64) div 1000000 = 0 \<longleftrightarrow> n div 1000000 = 0) \<and>
   ((ucast n :: u64) mod 1000000 = 0 \<longleftrightarrow> n mod 1000000 = 0)"
proof -
  have u: "uint ((ucast n :: u64) div 1000000) = uint (n div 1000000)"
    "uint ((ucast n :: u64) mod 1000000) = uint (n mod 1000000)"
    by (simp_all add: uint_div uint_mod uint_ucast32)
  have z: "x = 0 \<longleftrightarrow> y = 0" if "uint (x :: u64) = uint (y :: u32)" for x y
    using that by (simp add: word_uint_eq_iff)
  show ?thesis using ucast_32[OF u(1)] ucast_32[OF u(2)] z[OF u(1)] z[OF u(2)] by simp
qed

text \<open>Sleeping over the host: \<open>sleep\<close> asks the host for exactly the given seconds, in one call, and
  \<open>usleep\<close> for the whole seconds and then, unless it was interrupted, for the microseconds that remain.
  Both return 0 when they were not interrupted; otherwise they return the host's remaining seconds
  times 1000000, cut to 32 bits, without the microseconds that had not been asked for yet.\<close>

theorem native_sleep:
  "sleep (native_libc h old) n w =
     (if n = 0 then Some (0, w)
      else let (rv, w') = h_sleep h n w in Some (rv * 1000000, w')) \<and>
   usleep (native_libc h old) u w =
     (let s = u div 1000000; r = u mod 1000000;
          rest = (\<lambda>w. if r = 0 then Some (0, w) else Some (0, snd (h_usleep h r w)))
      in if s = 0 then rest w
         else let (rv, w') = h_sleep h s w in if rv = 0 then rest w' else Some (rv * 1000000, w'))"
proof -
  have z: "(ucast (x :: u32) :: u64) = 0 \<longleftrightarrow> x = 0" for x
    using uint_ucast32[of x] by (simp add: word_uint_eq_iff)
  have m: "uint (rv :: u32) mod 18446744073709551616 = uint rv" for rv using uint_lt2p[of rv] by simp
  have c: "ucast (ucast (rv :: u32) * 1000000 :: u64) = rv * 1000000" for rv
    using m[of rv] by (intro word_uint_eqI) (simp add: unsigned_ucast_eq uint_word_ariths(3) uint_ucast32 take_bit_eq_mod mod_mod_cancel)
  show ?thesis
    using split_seconds[of n] split_micros[of u]
    by (auto simp: sleep_def usleep_def native_libc_fields native_sysdeps_def nnlc_usleep64_def
        NNLC_USECS_IN_ONE_SEC_def Let_def z c ucast_ucast32 word_gt_0 split: prod.splits)
qed

text \<open>C27. The library over the host: the host program returns what the program's \<open>main\<close> does on the
  initialised library, where \<open>printf\<close> and \<open>fprintf(stderr)\<close> write the formatted text to descriptors 1
  and 2 in blocks of 64 characters, and \<open>time\<close> is the seconds of the host's real-time clock, or -1
  when that fails.\<close>

theorem native_library:
  "native_main h old prog argc argv w = prog (native_libc h old) argc argv w \<and>
   printf tfp (native_libc h old) m fmt args w =
     (let (n, w') = write_blocks (h_write h 1) (chunks 64 (tfp m fmt args)) w 0 in Returns (to_int (int n)) w') \<and>
   fprintf tfp m (Some (libc_stderr (native_libc h old))) fmt args w =
     (let (n, w') = write_blocks (h_write h 2) (chunks 64 (tfp m fmt args)) w 0 in Returns (to_int (int n)) w') \<and>
   time (native_libc h old) True w =
     (let ((rv, sec, nsec), w') = h_clock_gettime h 0 w in
      Some ((if rv = 0 then sint (word_of_int sec :: u64) else -1, None), w'))"
proof -
  have o: "native_write_stdout h = h_write h 1" "native_write_stderr h = h_write h 2"
    by (auto simp: native_write_stdout_def native_write_stderr_def STDOUT_FILENO_def STDERR_FILENO_def fun_eq_iff)
  show ?thesis
    by (auto simp: native_main_eq printf_def vprintf_def fprintf_def vfprintf_exact native_libc_fields o
        time_def native_sysdeps_def native_gettime_wall_def nnlc_gettime_def CLOCK_REALTIME_def split: prod.splits)
qed

end
