(* ===== verification/Hello.thy ===== *)
theory Hello
  imports Efi_Pool
begin

text \<open>
  \<open>example/hello.c\<close>, a whole program on the EFI runtime: the start function, the arguments from the
  shell, the formatted output and the status, from the firmware's call to its return. The string
  literal \<open>World\<close> is at the address \<open>world\<close>. What the formatter does for \<open>%s\<close> is documented behaviour of
  code that is not part of the repository, stated as \<open>prints_hello\<close>.
\<close>

section \<open>The program\<close>

definition hello_format :: "u8 list" where
  "hello_format = lit ''Hello %s!'' @ [10]"

definition hello_main :: "formatter \<Rightarrow> 'f efi_world nnlc_internal_data \<Rightarrow> ptr \<Rightarrow> 'f main_fun" where
  "hello_main tfp d world argc argv m w =
     (case (if argc > 1 then map_option unat (load_u64 m (argv + 8)) else Some world) of
        None \<Rightarrow> Faults
      | Some s \<Rightarrow> andthen (printf tfp d m hello_format [va_ptr s] w) (\<lambda>_ w. Returns 0 w))"

definition prints_hello :: "formatter \<Rightarrow> bool" where
  "prints_hello tfp \<longleftrightarrow>
     (\<forall>m p s. cstr m p s \<longrightarrow> tfp m hello_format [va_ptr p] = lit ''Hello '' @ s @ lit ''!'' @ [10])"

definition greeting :: "u8 list \<Rightarrow> u8 list" where
  "greeting name = lit ''Hello '' @ name @ lit ''!'' @ [10]"

section \<open>What stays as it was\<close>

lemma retrieve_argv_conout:
  assumes "retrieve_argv (efi_libc bs e) Argv m w = Some (r, m', w')"
  shows "conout w' = conout w"
  using assms
  by (auto simp: retrieve_argv_def malloc_def efi_libc_simps efi_sysdeps_def Let_def bind_eq_Some_conv
      split: option.splits if_splits prod.splits)

lemma stderr_conout:
  "\<exists>r w'. fprintf tfp m (Some (libc_stderr (efi_libc bs False))) fmt args w = Returns r w' \<and> conout w' = conout w"
proof (rule vfprintf_keep[where wrt = efi_write_stderr])
  show "conout (snd (efi_write_stderr bs w)) = conout w" for bs and w :: "'a efi_world"
    by (simp add: efi_write_stderr_def Let_def) (rule efi_conio_write_keep, simp add: efi_stderr_writer_def)
qed (simp_all add: efi_libc_simps)

lemma hello_main_greets:
  assumes "prints_hello tfp" "cstr m p name"
    "(if argc > 1 then map_option unat (load_u64 m (argv + 8)) else Some world) = Some p"
  shows "\<exists>w'. hello_main tfp (efi_libc bs e) world argc argv m w = Returns 0 w' \<and>
    shown (conout w') = shown (conout w) @ efi_emit (greeting name)"
proof -
  have t: "tfp m hello_format [va_ptr p] = greeting name" using assms(1,2) by (simp add: prints_hello_def greeting_def)
  have "\<forall>b \<in> set (greeting name). b \<noteq> 0" using cstr_no_nul[OF assms(2)] by (auto simp: greeting_def)
  then have nz: "\<forall>b \<in> set (tfp m hello_format [va_ptr p]). b \<noteq> 0" by (simp only: t)
  have st: "stream_write (Some (libc_stdout (efi_libc bs e))) = Some efi_write_stdout"
    by (simp add: stream_write_def efi_libc_simps)
  obtain w' where "vfprintf tfp m (Some (libc_stdout (efi_libc bs e))) hello_format [va_ptr p] w =
      Returns (to_int (int (length (tfp m hello_format [va_ptr p])))) w'"
    "shown (conout w') = shown (conout w) @ efi_emit (tfp m hello_format [va_ptr p])"
    using efi_stdout.vfprintf_emits[where tfp = tfp and m = m and fmt = hello_format and ap = "[va_ptr p]", OF st nz, of w] by blast
  then show ?thesis by (simp add: hello_main_def assms(3) printf_def vprintf_def t)
qed

lemma call_main_returns:
  assumes "main argc argv m (w\<lparr> main_retval := EXIT_FAILURE \<rparr>) = Returns n w'"
  shows "call_main tfp d main m argc argv w = Returns n (w'\<lparr> main_retval := n \<rparr>)"
  using assms by (simp add: call_main_def Let_def)

section \<open>Properties\<close>

text \<open>C19. The example program greets on EFI. Started by the firmware with its consoles, in a heap in order, it shows on the
  console exactly one greeting and returns success: it greets its first argument after the program's
  name if there is one and there is memory for the block of the arguments, and the world otherwise.
  The shell gives at least the program's name; no character of the arguments has a low byte of 0 (the code assumes
  ASCII); the block of the arguments fits in the address space; and the formatter does what is documented
  of the format \<open>%s\<close>.\<close>

theorem hello_on_efi:
  assumes "heap_inv (efi_libc bs False) live rt m (w\<lparr> main_retval := EXIT_FAILURE \<rparr>)" "prints_hello tfp"
    "cstr m world (lit ''World'')" "narrow Argv" "Argv \<noteq> []" "(length Argv + 1) * 8 + argv_size Argv + 31 < 2 ^ 64"
  shows "\<exists>w'. libnanolibc_start tfp bs (hello_main tfp (efi_libc bs False) world) False False (Some Argv) m w =
      Returns EFI_SUCCESS w' \<and>
    shown (conout w') = shown (conout w) @ efi_emit (greeting
      (if 2 \<le> length Argv \<and> argv_memory (efi_libc bs False) Argv m (w\<lparr> main_retval := EXIT_FAILURE \<rparr>)
       then map ucast (Argv ! 1) else lit ''World''))"
proof -
  let ?d = "efi_libc bs False"
  let ?w = "w\<lparr> main_retval := EXIT_FAILURE \<rparr>"
  obtain argc argv m1 w1 where r: "retrieve_argv ?d (Some Argv) m ?w = Some ((argc, argv), m1, w1)"
    and a: "if argv_memory ?d Argv m ?w
      then argc = int (length Argv) \<and> argv_at m1 argv 0 Argv \<and> (\<forall>a. m a \<noteq> None \<longrightarrow> m1 a = m a)
      else argc = -1 \<and> argv = NULL \<and> m1 = m"
    using retrieve_argv_contract[OF assms(1,4-6)] by blast
  have w1: "conout w1 = conout w" using retrieve_argv_conout[OF r] by simp
  have world: "cstr m1 world (lit ''World'')"
  proof (rule cstr_cong[OF assms(3)])
    fix i assume "i \<le> length (lit ''World'')"
    then have "m (world + i) \<noteq> None" using mappedD[OF cstr_mapped[OF assms(3)]] by simp
    then show "m1 (world + i) = m (world + i)" using a by (auto split: if_splits)
  qed
  let ?name = "if 2 \<le> length Argv \<and> argv_memory ?d Argv m ?w then map ucast (Argv ! 1) else lit ''World''"
  obtain p where p: "(if argc > 1 then map_option unat (load_u64 m1 (argv + 8)) else Some world) = Some p"
    and name: "cstr m1 p ?name"
  proof (cases "argc > 1")
    case True
    with a have l: "1 < length Argv" "argv_memory ?d Argv m ?w" "argv_at m1 argv 0 Argv" by (auto split: if_splits)
    then obtain q where q: "load_u64 m1 (argv + 8 * (0 + 1)) = Some (word_of_nat q)" "q < 2 ^ 64"
        "cstr m1 q (map ucast (Argv ! 1))"
      unfolding argv_at_def by blast
    have "unat (word_of_nat q :: u64) = q" using q(2) by (simp add: unat_of_nat)
    with q l True show ?thesis by (intro that[of q]) auto
  next
    case False
    with a have "\<not> (2 \<le> length Argv \<and> argv_memory ?d Argv m ?w)" by (auto split: if_splits)
    with world False show ?thesis by (intro that[of world]) (auto simp del: lit_simps)
  qed
  obtain w2 where w2: "(if argc < 0 then andthen (fprintf tfp m1 (Some (libc_stderr ?d)) argv_warning [] w1)
      (\<lambda>_ w. Returns () w) else Returns () w1) = Returns () w2" "conout w2 = conout w1"
    using stderr_conout[of tfp m1 bs argv_warning "[]" w1] by (cases "argc < 0") auto
  obtain w3 where w3: "hello_main tfp ?d world argc argv m1 (w2\<lparr> main_retval := EXIT_FAILURE \<rparr>) = Returns 0 w3"
    "shown (conout w3) = shown (conout (w2\<lparr> main_retval := EXIT_FAILURE \<rparr>)) @ efi_emit (greeting ?name)"
    using hello_main_greets[OF assms(2) name p] by blast
  have c: "call_main tfp ?d (hello_main tfp ?d world) m1 argc argv w2 = Returns 0 (w3\<lparr> main_retval := 0 \<rparr>)"
    by (rule call_main_returns) (rule w3(1))
  have init: "nnlc_initialize (efi_sysdeps bs False) nnlc_internal_data0 = (0, ?d)"
    by (simp add: efi_libc_def nnlc_initialize_def Let_def)
  have "libnanolibc_start tfp bs (hello_main tfp ?d world) False False (Some Argv) m w =
      Returns EFI_SUCCESS (w3\<lparr> main_retval := 0 \<rparr>)"
    using r w2(1) c by (simp add: libnanolibc_start_def init EXIT_SUCCESS_def)
  then show ?thesis using w1 w2(2) w3(2) by (intro exI[of _ "w3\<lparr> main_retval := 0 \<rparr>"]) simp
qed

section \<open>An instance\<close>

text \<open>A formatter for this one format; the firmware has a bump allocator, and the program an argument.\<close>

definition hello_formatter :: formatter where
  "hello_formatter m fmt args =
     (case args of [va_ptr p] \<Rightarrow> lit ''Hello '' @ the (load m p (the (strlen m p))) @ lit ''!'' @ [10] | _ \<Rightarrow> [])"

lemma hello_formatter_prints: "prints_hello hello_formatter"
  by (auto simp: prints_hello_def hello_formatter_def strlen_exact cstr_iff)

definition hello_world :: "bump efi_world" where
  "hello_world = \<lparr> conout = [], conerr = [], stalls = [], main_retval = EXIT_FAILURE, firmware = (1000, []) \<rparr>"

lemma hello_heap:
  "heap_inv (efi_libc bump_services False) (\<lambda>w. set (snd (firmware w))) (\<lambda>D w. bump_rt D (firmware w))
     (string_at 64 ''World'') hello_world"
proof -
  have "dom (string_at 64 ''World'') \<subseteq> {..< 1000}" by (auto simp: string_at_def bytes_at_def store_def split: if_splits)
  then show ?thesis
    using efi_runtime_heap[of "\<lambda>w. set (snd w)" bump_rt bump_services False] bump_malloc_ok bump_free_ok
    by (auto simp: heap_inv_def bump_services_def hello_world_def bump_rt_def)
qed

lemma hello_memory: "argv_memory (efi_libc bump_services False) [[97], [66, 111, 98]] (string_at 64 ''World'') hello_world"
proof -
  obtain p m w where mal: "malloc (efi_libc bump_services False) 30 (string_at 64 ''World'') hello_world = Some (p, m, w)"
    using malloc_contract[OF hello_heap, of 30] by (auto split: if_splits simp del: split_paired_Ex)
  then have "p \<noteq> NULL" using bump_pool_grows[OF mal] by (simp add: hello_world_def)
  with mal show ?thesis by (simp add: argv_memory_def argv_size_def)
qed

theorem hello_on_efi_witness:
  "\<exists>w'. libnanolibc_start hello_formatter bump_services
      (hello_main hello_formatter (efi_libc bump_services False) 64) False False (Some [[97], [66, 111, 98]])
      (string_at 64 ''World'') hello_world = Returns EFI_SUCCESS w' \<and>
    shown (conout w') = efi_emit (lit ''Hello Bob!'' @ [10])"
proof -
  have w: "hello_world\<lparr> main_retval := EXIT_FAILURE \<rparr> = hello_world" by (simp add: hello_world_def)
  have c: "cstr (string_at 64 ''World'') 64 (lit ''World'')" by (rule cstr_string_at) simp
  have n: "narrow [[97], [66, 111, 98]]" by code_simp
  have g: "greeting [66, 111, 98] = lit ''Hello Bob!'' @ [10]" by (simp add: greeting_def)
  have b: "map ucast ([[97], [66, 111, 98]] ! 1 :: u16 list) = ([66, 111, 98] :: u8 list)" by simp
  obtain w' where "libnanolibc_start hello_formatter bump_services
      (hello_main hello_formatter (efi_libc bump_services False) 64) False False (Some [[97], [66, 111, 98]])
      (string_at 64 ''World'') hello_world = Returns EFI_SUCCESS w'"
    "shown (conout w') = shown (conout hello_world) @ efi_emit (greeting (map ucast ([[97], [66, 111, 98]] ! 1 :: u16 list)))"
    using hello_on_efi[OF _ hello_formatter_prints c n, of bump_services "\<lambda>w. set (snd (firmware w))" "\<lambda>D w. bump_rt D (firmware w)" hello_world]
      hello_heap hello_memory unfolding w by (auto simp: argv_size_def simp del: lit_simps)
  then show ?thesis unfolding b g by (intro exI[of _ w']) (simp add: hello_world_def shown_def)
qed

end
