(* ===== verification/Cxx_Vector.thy ===== *)
theory Cxx_Vector
  imports Prelude
begin

text \<open>
  \<open>cxx/include/vector\<close>, with the \<open>operator new\<close> of \<open>cxx/cxxrt.cc\<close> that allocates its arrays. A vector
  is the array it owns, whose length is \<open>_max_nitems\<close>, and \<open>_nitems\<close>. The template's parameters are
  the type variable, its size \<open>sz\<close> and its default value \<open>T()\<close>, \<open>dflt\<close>. The argument \<open>alloc\<close> is what
  \<open>malloc\<close> answers for an array of the given length: nothing, or what the new array's elements hold.
  Iterators are indices; arguments passed by reference are values that are not part of the vector.
  Moving an element leaves its value behind, as it does for types with no destructor.
\<close>

section \<open>The code\<close>

text \<open>\<open>Aborted\<close>: an assertion or \<open>abort\<close> ended the program. \<open>Diverges\<close>: a loop does not end.
  \<open>Dangling\<close>: memory that has been released, or was never allocated, is read or written.\<close>

datatype failed = Aborted | Diverges | Dangling

definition ebind :: "failed + 'a \<Rightarrow> ('a \<Rightarrow> failed + 'b) \<Rightarrow> failed + 'b" where
  "ebind x f = (case x of Inl e \<Rightarrow> Inl e | Inr a \<Rightarrow> f a)"

record 'a vector =
  items :: "'a list"
  nitems :: nat

definition vector_empty :: "'a vector" where
  "vector_empty = \<lparr> items = [], nitems = 0 \<rparr>"

text \<open>\<open>operator new []\<close>: a null pointer fails the assertion.\<close>

definition new_array :: "(nat \<Rightarrow> (nat \<Rightarrow> 'a) option) \<Rightarrow> nat \<Rightarrow> failed + (nat \<Rightarrow> 'a)" where
  "new_array alloc n = (case alloc n of None \<Rightarrow> Inl Aborted | Some p \<Rightarrow> Inr p)"

text \<open>The doubling of \<open>new_nbytes\<close>, a 64-bit \<open>size_t\<close>.\<close>

partial_function (option) grow_loop :: "nat \<Rightarrow> nat \<Rightarrow> nat \<Rightarrow> nat option" where
  "grow_loop sz n new_nbytes =
     (if new_nbytes div sz < n then grow_loop sz n (new_nbytes * 2 mod 2 ^ 64) else Some (new_nbytes div sz))"

definition vector_reserve ::
  "(nat \<Rightarrow> (nat \<Rightarrow> 'a) option) \<Rightarrow> nat \<Rightarrow> 'a vector \<Rightarrow> nat \<Rightarrow> nat \<Rightarrow> failed + 'a vector" where
  "vector_reserve alloc sz v n copy_only =
     (if n \<le> length (items v) then Inr v
      else case grow_loop sz n 64 of
        None \<Rightarrow> Inl Diverges
      | Some new_max_nitems \<Rightarrow>
          ebind (new_array alloc new_max_nitems) (\<lambda>new_data.
            Inr (v\<lparr> items := map (\<lambda>i. if i < copy_only then items v ! i else new_data i) [0..<new_max_nitems] \<rparr>)))"

definition reserve ::
  "(nat \<Rightarrow> (nat \<Rightarrow> 'a) option) \<Rightarrow> nat \<Rightarrow> 'a vector \<Rightarrow> nat \<Rightarrow> failed + 'a vector" where
  "reserve alloc sz v n = vector_reserve alloc sz v n (nitems v)"

definition vector_resize ::
  "(nat \<Rightarrow> (nat \<Rightarrow> 'a) option) \<Rightarrow> nat \<Rightarrow> 'a \<Rightarrow> 'a vector \<Rightarrow> nat \<Rightarrow> failed + 'a vector" where
  "vector_resize alloc sz dflt v n =
     ebind (reserve alloc sz v n) (\<lambda>v.
       Inr \<lparr> items = fold (\<lambda>i xs. xs[i := dflt]) [nitems v..<n] (items v), nitems = n \<rparr>)"

definition vector_at :: "'a vector \<Rightarrow> nat \<Rightarrow> failed + 'a" where
  "vector_at v i = (if i < nitems v then Inr (items v ! i) else Inl Aborted)"

text \<open>A store through the reference that \<open>at\<close> returns.\<close>

definition vector_set :: "'a vector \<Rightarrow> nat \<Rightarrow> 'a \<Rightarrow> failed + 'a vector" where
  "vector_set v i x = ebind (vector_at v i) (\<lambda>_. Inr (v\<lparr> items := (items v)[i := x] \<rparr>))"

definition push_back ::
  "(nat \<Rightarrow> (nat \<Rightarrow> 'a) option) \<Rightarrow> nat \<Rightarrow> 'a vector \<Rightarrow> 'a \<Rightarrow> failed + 'a vector" where
  "push_back alloc sz v x =
     ebind (reserve alloc sz v (nitems v + 1)) (\<lambda>v.
       Inr \<lparr> items = (items v)[nitems v := x], nitems = nitems v + 1 \<rparr>)"

definition pop_back :: "'a \<Rightarrow> 'a vector \<Rightarrow> failed + 'a vector" where
  "pop_back dflt v =
     (if nitems v = 0 then Inl Aborted
      else Inr \<lparr> items = (items v)[nitems v - 1 := dflt], nitems = nitems v - 1 \<rparr>)"

definition vector_erase :: "'a \<Rightarrow> 'a vector \<Rightarrow> nat \<Rightarrow> failed + 'a vector" where
  "vector_erase dflt v it =
     (if it \<ge> nitems v then Inl Aborted
      else Inr \<lparr> items = fold (\<lambda>p xs. xs[p := xs ! (p + 1)]) [it..<nitems v - 1] ((items v)[it := dflt]),
                 nitems = nitems v - 1 \<rparr>)"

definition insert_hole ::
  "(nat \<Rightarrow> (nat \<Rightarrow> 'a) option) \<Rightarrow> nat \<Rightarrow> 'a vector \<Rightarrow> nat \<Rightarrow> nat \<Rightarrow> failed + 'a vector" where
  "insert_hole alloc sz v idx n =
     (if idx > nitems v then Inl Aborted
      else ebind (vector_reserve alloc sz v (nitems v + n) idx) (\<lambda>v.
        Inr \<lparr> items = (if idx < nitems v
                      then fold (\<lambda>i xs. xs[i := xs ! (i - n)]) (rev [idx + n..<nitems v + n]) (items v)
                      else items v),
              nitems = nitems v + n \<rparr>))"

definition insert_one ::
  "(nat \<Rightarrow> (nat \<Rightarrow> 'a) option) \<Rightarrow> nat \<Rightarrow> 'a vector \<Rightarrow> nat \<Rightarrow> 'a \<Rightarrow> failed + 'a vector" where
  "insert_one alloc sz v ip x =
     ebind (insert_hole alloc sz v ip 1) (\<lambda>v. Inr (v\<lparr> items := (items v)[ip := x] \<rparr>))"

text \<open>\<open>src\<close> holds the elements between the two iterators.\<close>

definition insert_range ::
  "(nat \<Rightarrow> (nat \<Rightarrow> 'a) option) \<Rightarrow> nat \<Rightarrow> 'a vector \<Rightarrow> nat \<Rightarrow> 'a list \<Rightarrow> failed + 'a vector" where
  "insert_range alloc sz v ip src =
     (if src = [] then Inr v
      else ebind (insert_hole alloc sz v ip (length src)) (\<lambda>v.
        Inr (v\<lparr> items := fold (\<lambda>i xs. xs[ip + i := src ! i]) [0..<length src] (items v) \<rparr>)))"

text \<open>The constructor from a range, the copy assignment and the move assignment.\<close>

definition vector_of ::
  "(nat \<Rightarrow> (nat \<Rightarrow> 'a) option) \<Rightarrow> nat \<Rightarrow> 'a \<Rightarrow> 'a list \<Rightarrow> failed + 'a vector" where
  "vector_of alloc sz dflt src =
     ebind (vector_resize alloc sz dflt vector_empty (length src)) (\<lambda>v.
       Inr (v\<lparr> items := fold (\<lambda>i xs. xs[i := src ! i]) [0..<length src] (items v) \<rparr>))"

definition vector_copy ::
  "(nat \<Rightarrow> (nat \<Rightarrow> 'a) option) \<Rightarrow> nat \<Rightarrow> 'a vector \<Rightarrow> 'a vector \<Rightarrow> failed + 'a vector" where
  "vector_copy alloc sz this v =
     ebind (vector_reserve alloc sz this (nitems v) 0) (\<lambda>this.
       Inr \<lparr> items = fold (\<lambda>i xs. xs[i := items v ! i]) [0..<nitems v] (items this), nitems = nitems v \<rparr>)"

definition vector_move :: "'a vector \<Rightarrow> 'a vector \<times> 'a vector" where
  "vector_move v = (v, vector_empty)"

text \<open>The other constructors, and \<open>clear\<close>.\<close>

definition vector_sized ::
  "(nat \<Rightarrow> (nat \<Rightarrow> 'a) option) \<Rightarrow> nat \<Rightarrow> 'a \<Rightarrow> nat \<Rightarrow> failed + 'a vector" where
  "vector_sized alloc sz dflt n = vector_resize alloc sz dflt vector_empty n"

definition vector_copied ::
  "(nat \<Rightarrow> (nat \<Rightarrow> 'a) option) \<Rightarrow> nat \<Rightarrow> 'a vector \<Rightarrow> failed + 'a vector" where
  "vector_copied alloc sz v = vector_copy alloc sz vector_empty v"

definition vector_moved :: "'a vector \<Rightarrow> 'a vector \<times> 'a vector" where
  "vector_moved v = vector_move v"

definition vector_clear ::
  "(nat \<Rightarrow> (nat \<Rightarrow> 'a) option) \<Rightarrow> nat \<Rightarrow> 'a \<Rightarrow> 'a vector \<Rightarrow> failed + 'a vector" where
  "vector_clear alloc sz dflt v = vector_resize alloc sz dflt v 0"

section \<open>Lemmas\<close>

definition contents :: "'a vector \<Rightarrow> 'a list" where
  "contents v = take (nitems v) (items v)"

definition wf_vector :: "'a vector \<Rightarrow> bool" where
  "wf_vector v \<longleftrightarrow> nitems v \<le> length (items v)"

lemma ebind_simps [simp]: "ebind (Inl e) f = Inl e" "ebind (Inr a) f = f a"
  by (simp_all add: ebind_def)

text \<open>Writing a range of indices one by one.\<close>

lemma length_fold_update [simp]: "length (fold (\<lambda>i xs. xs[f i := g i xs]) is xs) = length xs"
  by (induction "is" arbitrary: xs) auto

lemma fold_update_nth:
  "b \<le> length xs \<Longrightarrow> j < length xs \<Longrightarrow>
   fold (\<lambda>i xs. xs[i := g i]) [a..<b] xs ! j = (if a \<le> j \<and> j < b then g j else xs ! j)"
  by (induction b) (auto simp: less_Suc_eq_le nth_list_update)

lemma fold_shift_down:
  "b < length xs \<Longrightarrow> j < length xs \<Longrightarrow>
   fold (\<lambda>p xs. xs[p := xs ! (p + 1)]) [a..<b] xs ! j = (if a \<le> j \<and> j < b then xs ! (j + 1) else xs ! j)"
  by (induction b arbitrary: j) (auto simp: less_Suc_eq_le nth_list_update)

lemma fold_shift_up:
  "a \<le> b \<Longrightarrow> 0 < n \<Longrightarrow> n \<le> a \<Longrightarrow> b \<le> length xs \<Longrightarrow> j < length xs \<Longrightarrow>
   fold (\<lambda>i xs. xs[i := xs ! (i - n)]) (rev [a..<b]) xs ! j = (if a \<le> j \<and> j < b then xs ! (j - n) else xs ! j)"
proof (induction "b - a" arbitrary: b xs)
  case (Suc k)
  then obtain c where b: "b = Suc c" "a \<le> c" by (cases b) auto
  have "fold (\<lambda>i xs. xs[i := xs ! (i - n)]) (rev [a..<c]) (xs[c := xs ! (c - n)]) ! j =
    (if a \<le> j \<and> j < c then xs[c := xs ! (c - n)] ! (j - n) else xs[c := xs ! (c - n)] ! j)"
    using Suc b by (intro Suc.hyps(1)) auto
  then show ?case using Suc.prems b by (auto simp: nth_list_update)
qed auto

lemma fold_write_at:
  "k \<le> length src \<Longrightarrow> ip + k \<le> length xs \<Longrightarrow> j < length xs \<Longrightarrow>
   fold (\<lambda>i xs. xs[ip + i := src ! i]) [0..<k] xs ! j = (if ip \<le> j \<and> j < ip + k then src ! (j - ip) else xs ! j)"
  by (induction k) (auto simp: nth_list_update)

text \<open>The doubling ends when a power of two below 2^64 is large enough.\<close>

lemma grow_loop_ends:
  assumes "0 < sz" "n * sz \<le> 2 ^ 63" "0 < k" "k \<le> 63"
  shows "\<exists>m. grow_loop sz n (2 ^ k) = Some m \<and> n \<le> m \<and> (m = 2 ^ k div sz \<or> m < 2 * n)"
  using assms(3,4)
proof (induction "63 - k" arbitrary: k)
  case 0
  then have "k = 63" by simp
  moreover have "n \<le> 2 ^ 63 div sz" using assms(1,2) by (simp only: less_eq_div_iff_mult_less_eq)
  then have "grow_loop sz n (2 ^ 63) = Some (2 ^ 63 div sz)"
    by (subst grow_loop.simps) (simp only: not_less[symmetric] if_False)
  ultimately show ?case using \<open>n \<le> 2 ^ 63 div sz\<close> by blast
next
  case (Suc d)
  show ?case
  proof (cases "2 ^ k div sz < n")
    case True
    have "(2::nat) ^ k * 2 mod 2 ^ 64 = 2 ^ Suc k"
    proof -
      have "(2::nat) ^ Suc k < 2 ^ 64" using Suc.hyps(2) by (intro power_strict_increasing) auto
      then show ?thesis by (simp add: mult.commute)
    qed
    then have g: "grow_loop sz n (2 ^ k) = grow_loop sz n (2 ^ Suc k)"
      using True by (simp only: grow_loop.simps[of sz n "2 ^ k"] if_True)
    have "2 ^ k < n * sz" using True assms(1) by (simp add: div_less_iff_less_mult)
    then have "2 ^ Suc k < 2 * n * sz" by simp
    then have "2 ^ Suc k div sz < 2 * n" using assms(1) by (simp only: div_less_iff_less_mult)
    then show ?thesis using Suc.hyps(1)[of "Suc k"] Suc.hyps(2) Suc.prems unfolding g by force
  next
    case False
    then show ?thesis by (simp add: grow_loop.simps[of sz n "2 ^ k"])
  qed
qed

lemma grow_loop_bound: "grow_loop sz n b = Some m \<Longrightarrow> n \<le> m"
  by (erule grow_loop.raw_induct[rotated]) (auto split: if_splits)

text \<open>
  An allocator that always has room, and a size of the elements with which \<open>n\<close> of them fit in the
  doubling of a \<open>size_t\<close>.
\<close>

definition roomy :: "(nat \<Rightarrow> (nat \<Rightarrow> 'a) option) \<Rightarrow> nat \<Rightarrow> nat \<Rightarrow> bool" where
  "roomy alloc sz n \<longleftrightarrow> (\<forall>k. alloc k \<noteq> None) \<and> 0 < sz \<and> n * sz \<le> 2 ^ 63"

lemma vector_reserve_room:
  assumes "roomy alloc sz n" "c \<le> length (items v)"
  obtains v' where "vector_reserve alloc sz v n c = Inr v'" "n \<le> length (items v')" "nitems v' = nitems v"
    "take c (items v') = take c (items v)" "length (items v) \<le> length (items v')" "n \<le> length (items v) \<Longrightarrow> v' = v"
proof (cases "n \<le> length (items v)")
  case True
  then show thesis by (intro that[of v]) (auto simp: vector_reserve_def)
next
  case False
  obtain m where m: "grow_loop sz n 64 = Some m" "n \<le> m"
    using grow_loop_ends[of sz n 6] assms(1) by (auto simp: roomy_def)
  obtain d where "alloc m = Some d" using assms(1) by (auto simp: roomy_def)
  with m False assms(2) show thesis
    by (intro that[of "v\<lparr> items := map (\<lambda>i. if i < c then items v ! i else d i) [0..<m] \<rparr>"])
      (auto simp: vector_reserve_def new_array_def intro: nth_equalityI)
qed

lemma push_back_contents:
  assumes "wf_vector v" "roomy alloc sz (Suc (nitems v))"
  obtains v' where "push_back alloc sz v x = Inr v'" "wf_vector v'" "contents v' = contents v @ [x]"
proof -
  obtain v1 where v1: "vector_reserve alloc sz v (Suc (nitems v)) (nitems v) = Inr v1"
    "Suc (nitems v) \<le> length (items v1)" "nitems v1 = nitems v" "take (nitems v) (items v1) = take (nitems v) (items v)"
    by (rule vector_reserve_room[OF assms(2)]) (use assms(1) in \<open>auto simp: wf_vector_def\<close>)
  then show thesis
    by (intro that[of "\<lparr> items = (items v1)[nitems v := x], nitems = Suc (nitems v) \<rparr>"])
      (auto simp: push_back_def reserve_def wf_vector_def contents_def take_Suc_conv_app_nth)
qed

lemma resize_contents:
  assumes "wf_vector v" "roomy alloc sz n"
  obtains v' where "vector_resize alloc sz dflt v n = Inr v'" "wf_vector v'"
    "contents v' = take n (contents v) @ replicate (n - nitems v) dflt"
proof -
  obtain v1 where v1: "vector_reserve alloc sz v n (nitems v) = Inr v1"
    "n \<le> length (items v1)" "nitems v1 = nitems v" "take (nitems v) (items v1) = take (nitems v) (items v)"
    "length (items v) \<le> length (items v1)"
    by (rule vector_reserve_room[OF assms(2)]) (use assms(1) in \<open>auto simp: wf_vector_def\<close>)
  define xs where "xs = fold (\<lambda>i xs. xs[i := dflt]) [nitems v..<n] (items v1)"
  have "nitems v \<le> length (items v1)" using v1(5) assms(1) by (simp add: wf_vector_def)
  then have old: "items v1 ! j = items v ! j" if "j < nitems v" for j
    using that v1(4) by (metis nth_take)
  have "xs ! j = (if nitems v \<le> j then dflt else items v ! j)" if "j < n" for j
    using that v1(2) old unfolding xs_def by (subst fold_update_nth) auto
  moreover have "length xs = length (items v1)" using length_fold_update[of "\<lambda>i. i"] by (simp add: xs_def)
  ultimately have "take n xs = take n (take (nitems v) (items v)) @ replicate (n - nitems v) dflt"
    using v1(2) assms(1) by (intro nth_equalityI) (auto simp: nth_append wf_vector_def min_def split: if_splits)
  then show thesis using v1 \<open>length xs = _\<close>
    by (intro that[of "\<lparr> items = xs, nitems = n \<rparr>"])
      (auto simp: vector_resize_def reserve_def wf_vector_def contents_def xs_def)
qed

lemma vector_sized_contents:
  assumes "roomy alloc sz n"
  obtains v where "vector_sized alloc sz dflt n = Inr v" "wf_vector v" "contents v = replicate n dflt"
  using resize_contents[of vector_empty alloc sz n dflt] assms
  by (auto simp: vector_sized_def vector_empty_def wf_vector_def contents_def)

lemma vector_clear_contents:
  assumes "wf_vector v" "roomy alloc sz 0"
  obtains v' where "vector_clear alloc sz dflt v = Inr v'" "wf_vector v'" "contents v' = []"
  using resize_contents[of v alloc sz 0 dflt] assms by (auto simp: vector_clear_def)

lemma erase_contents:
  assumes "wf_vector v" "it < nitems v"
  shows "vector_erase dflt v it \<noteq> Inl e"
    "vector_erase dflt v it = Inr v' \<Longrightarrow> wf_vector v' \<and> contents v' = take it (contents v) @ drop (Suc it) (contents v)"
proof -
  define xs where "xs = fold (\<lambda>p xs. xs[p := xs ! (p + 1)]) [it..<nitems v - 1] ((items v)[it := dflt])"
  have len: "length xs = length (items v)"
    by (simp add: xs_def)
  show "vector_erase dflt v it \<noteq> Inl e" using assms by (simp add: vector_erase_def)
  have "xs ! j = (if it \<le> j then items v ! Suc j else items v ! j)" if "j < nitems v - 1" for j
    using that assms unfolding xs_def by (subst fold_shift_down) (auto simp: wf_vector_def)
  then have "take (nitems v - 1) xs = take it (contents v) @ drop (Suc it) (contents v)"
    using assms len by (intro nth_equalityI) (auto simp: nth_append wf_vector_def contents_def min_def split: if_splits)
  moreover have "vector_erase dflt v it = Inr \<lparr> items = xs, nitems = nitems v - 1 \<rparr>"
    using assms by (simp add: vector_erase_def xs_def)
  ultimately show "vector_erase dflt v it = Inr v' \<Longrightarrow>
      wf_vector v' \<and> contents v' = take it (contents v) @ drop (Suc it) (contents v)"
    using assms len by (auto simp: wf_vector_def contents_def)
qed

lemma pop_back_contents:
  assumes "wf_vector v" "0 < nitems v"
  obtains v' where "pop_back dflt v = Inr v'" "wf_vector v'" "contents v' = butlast (contents v)"
  using assms
  by (intro that[of "\<lparr> items = (items v)[nitems v - 1 := dflt], nitems = nitems v - 1 \<rparr>"])
    (auto simp: pop_back_def wf_vector_def contents_def butlast_take)

lemma set_contents:
  assumes "wf_vector v" "i < nitems v"
  obtains v' where "vector_set v i x = Inr v'" "wf_vector v'" "contents v' = (contents v)[i := x]"
  using assms
  by (intro that[of "v\<lparr> items := (items v)[i := x] \<rparr>"])
    (auto simp: vector_set_def vector_at_def wf_vector_def contents_def take_update_swap)

text \<open>The operations on a vector's elements, and what they do to a list.\<close>

datatype 'a vector_op = Push 'a | Pop | Resize nat | Erase_At nat | Store nat 'a

fun vector_step ::
  "(nat \<Rightarrow> (nat \<Rightarrow> 'a) option) \<Rightarrow> nat \<Rightarrow> 'a \<Rightarrow> 'a vector_op \<Rightarrow> 'a vector \<Rightarrow> failed + 'a vector" where
  "vector_step alloc sz dflt (Push x) v = push_back alloc sz v x"
| "vector_step alloc sz dflt Pop v = pop_back dflt v"
| "vector_step alloc sz dflt (Resize n) v = vector_resize alloc sz dflt v n"
| "vector_step alloc sz dflt (Erase_At i) v = vector_erase dflt v i"
| "vector_step alloc sz dflt (Store i x) v = vector_set v i x"

fun vector_spec :: "'a \<Rightarrow> 'a vector_op \<Rightarrow> 'a list \<Rightarrow> 'a list option" where
  "vector_spec dflt (Push x) xs = Some (xs @ [x])"
| "vector_spec dflt Pop xs = (if xs = [] then None else Some (butlast xs))"
| "vector_spec dflt (Resize n) xs = Some (take n xs @ replicate (n - length xs) dflt)"
| "vector_spec dflt (Erase_At i) xs = (if i < length xs then Some (take i xs @ drop (Suc i) xs) else None)"
| "vector_spec dflt (Store i x) xs = (if i < length xs then Some (xs[i := x]) else None)"

fun vector_need :: "'a vector_op \<Rightarrow> nat \<Rightarrow> nat" where
  "vector_need (Push x) n = Suc n"
| "vector_need (Resize k) n = k"
| "vector_need _ n = n"

lemma length_contents: "wf_vector v \<Longrightarrow> length (contents v) = nitems v"
  by (simp add: contents_def wf_vector_def)

text \<open>Reads and writes around the hole of an insertion.\<close>

lemma insert_range_items:
  assumes "src \<noteq> []" "ip \<le> nitems v" "vector_reserve alloc sz v (nitems v + length src) ip = Inr v1"
    "nitems v1 = nitems v" "nitems v + length src \<le> length (items v1)"
  obtains v' where "insert_range alloc sz v ip src = Inr v'" "wf_vector v'"
    "nitems v' = nitems v + length src"
    "\<And>j. j < nitems v' \<Longrightarrow> items v' ! j =
      (if j < ip then items v1 ! j else if j < ip + length src then src ! (j - ip) else items v1 ! (j - length src))"
proof -
  define n where "n = length src"
  have n: "0 < n" using assms(1) by (simp add: n_def)
  define xs where "xs = (if ip < nitems v
    then fold (\<lambda>i xs. xs[i := xs ! (i - n)]) (rev [ip + n..<nitems v + n]) (items v1) else items v1)"
  define ys where "ys = fold (\<lambda>i xs. xs[ip + i := src ! i]) [0..<n] xs"
  have len: "length xs = length (items v1)" by (simp add: xs_def)
  have xs: "xs ! j = (if ip + n \<le> j \<and> j < nitems v + n then items v1 ! (j - n) else items v1 ! j)"
    if "j < nitems v + n" for j
    using that assms(2,5) n unfolding xs_def n_def[symmetric] by (auto simp: fold_shift_up)
  have "ys ! j = (if j < ip then items v1 ! j else if j < ip + n then src ! (j - ip) else items v1 ! (j - n))"
    if "j < nitems v + n" for j
    using that assms(2,5) xs[OF that] len unfolding ys_def n_def[symmetric]
    by (subst fold_write_at) (auto simp: n_def)
  moreover have "insert_range alloc sz v ip src = Inr \<lparr> items = ys, nitems = nitems v + n \<rparr>"
    using assms by (simp add: insert_range_def insert_hole_def n_def xs_def ys_def)
  moreover have "length ys = length (items v1)" by (simp add: ys_def len)
  ultimately show thesis using assms(5)
    by (intro that[of "\<lparr> items = ys, nitems = nitems v + n \<rparr>"]) (auto simp: wf_vector_def n_def)
qed

lemma insert_one_range: "insert_one alloc sz v ip x = insert_range alloc sz v ip [x]"
  by (simp add: insert_one_def insert_range_def)

text \<open>Construction from a range and copies hold the elements they are given.\<close>

lemma vector_of_contents:
  assumes "roomy alloc sz (length src)"
  obtains v where "vector_of alloc sz dflt src = Inr v" "wf_vector v" "contents v = src"
proof -
  have "wf_vector vector_empty" by (simp add: wf_vector_def vector_empty_def)
  from resize_contents[OF this assms, of dflt] obtain v1 where
    v1: "vector_resize alloc sz dflt vector_empty (length src) = Inr v1" "wf_vector v1"
    "contents v1 = replicate (length src) dflt" by (auto simp: contents_def vector_empty_def)
  then have n: "nitems v1 = length src" using length_contents[OF v1(2)] by simp
  define xs where "xs = fold (\<lambda>i xs. xs[i := src ! i]) [0..<length src] (items v1)"
  have "length src \<le> length (items v1)" using v1(2) n by (simp add: wf_vector_def)
  then have "take (length src) xs = src"
    by (intro nth_equalityI) (auto simp: xs_def fold_update_nth)
  then show thesis using v1(1,2) n
    by (intro that[of "v1\<lparr> items := xs \<rparr>"]) (auto simp: vector_of_def xs_def wf_vector_def contents_def)
qed

lemma vector_copy_contents:
  assumes "wf_vector v" "roomy alloc sz (nitems v)"
  obtains w where "vector_copy alloc sz this v = Inr w" "wf_vector w" "contents w = contents v"
proof -
  obtain v1 where v1: "vector_reserve alloc sz this (nitems v) 0 = Inr v1" "nitems v \<le> length (items v1)"
    by (rule vector_reserve_room[OF assms(2), of 0]) auto
  define xs where "xs = fold (\<lambda>i xs. xs[i := items v ! i]) [0..<nitems v] (items v1)"
  have "take (nitems v) xs = contents v"
    using v1(2) assms(1) by (intro nth_equalityI) (auto simp: xs_def fold_update_nth contents_def wf_vector_def)
  then show thesis using v1
    by (intro that[of "\<lparr> items = xs, nitems = nitems v \<rparr>"])
      (auto simp: vector_copy_def xs_def wf_vector_def contents_def)
qed

section \<open>Properties\<close>

text \<open>
  C25. Appending, removing the last element, resizing, erasing and storing do to a vector's elements
  what they do to a list, and abort where the list has no such element, provided that memory is
  there and the doubling of the capacity does not wrap around; growing moves every element along.
\<close>

theorem vector_refines_list:
  assumes "wf_vector v" "roomy alloc sz (vector_need op (nitems v))"
  shows "case vector_spec dflt op (contents v) of
      None \<Rightarrow> vector_step alloc sz dflt op v = Inl Aborted
    | Some xs \<Rightarrow> \<exists>v'. vector_step alloc sz dflt op v = Inr v' \<and> wf_vector v' \<and> contents v' = xs"
proof -
  have len: "length (contents v) = nitems v" "contents v = [] \<longleftrightarrow> nitems v = 0"
    using length_contents[OF assms(1)] by auto
  show ?thesis
  proof (cases op)
    case (Push x)
    then have "roomy alloc sz (Suc (nitems v))" using assms(2) by simp
    from push_back_contents[OF assms(1) this, of x] obtain v' where "push_back alloc sz v x = Inr v'"
      "wf_vector v'" "contents v' = contents v @ [x]" by blast
    then show ?thesis using Push by simp
  next
    case Pop
    show ?thesis
    proof (cases "nitems v = 0")
      case True
      then show ?thesis using Pop len by (simp add: pop_back_def)
    next
      case False
      then obtain v' where "pop_back dflt v = Inr v'" "wf_vector v'" "contents v' = butlast (contents v)"
        using pop_back_contents[OF assms(1), of dflt] by blast
      then show ?thesis using Pop False len by auto
    qed
  next
    case (Resize n)
    then have "roomy alloc sz n" using assms(2) by simp
    from resize_contents[OF assms(1) this, of dflt] obtain v' where "vector_resize alloc sz dflt v n = Inr v'"
      "wf_vector v'" "contents v' = take n (contents v) @ replicate (n - nitems v) dflt" by blast
    then show ?thesis using Resize len by simp
  next
    case (Erase_At i)
    show ?thesis
    proof (cases "i < nitems v")
      case True
      then obtain v' where "vector_erase dflt v i = Inr v'"
        using erase_contents(1)[OF assms(1) True, of dflt] by (cases "vector_erase dflt v i") auto
      then show ?thesis using Erase_At erase_contents(2)[OF assms(1) True] True len by simp
    qed (use Erase_At len in \<open>simp add: vector_erase_def\<close>)
  next
    case (Store i x)
    show ?thesis
    proof (cases "i < nitems v")
      case True
      then obtain v' where "vector_set v i x = Inr v'" "wf_vector v'" "contents v' = (contents v)[i := x]"
        using set_contents[OF assms(1)] by blast
      then show ?thesis using Store True len by simp
    qed (use Store len in \<open>simp add: vector_set_def vector_at_def\<close>)
  qed
qed

lemma vector_refines_list_witness:
  "\<exists>v'. vector_step (\<lambda>k. Some (\<lambda>i. 99)) 8 (0::nat) (Push 7) \<lparr> items = [1, 2], nitems = 2 \<rparr> = Inr v' \<and>
    contents v' = [1, 2, 7]"
  using vector_refines_list[of "\<lparr> items = [1::nat, 2], nitems = 2 \<rparr>" "\<lambda>k. Some (\<lambda>i. 99)" 8 "Push 7" 0]
  by (auto simp: wf_vector_def roomy_def contents_def)

text \<open>
  C31. Inserting a range keeps the elements before it and puts the range there. The elements after
  it move up when the array has the capacity (or there are none); when a larger array is
  allocated only the elements before the range are copied to it, so those after it are lost:
  what stands there is what the new array happened to hold.
\<close>

theorem vector_insert:
  assumes "wf_vector v" "ip \<le> nitems v" "roomy alloc sz (nitems v + length src)"
  shows "\<exists>v'. insert_range alloc sz v ip src = Inr v' \<and> wf_vector v' \<and>
    (if nitems v + length src \<le> length (items v) \<or> ip = nitems v
     then contents v' = take ip (contents v) @ src @ drop ip (contents v)
     else \<exists>k new_data. alloc k = Some new_data \<and> nitems v + length src \<le> k \<and>
       contents v' = take ip (contents v) @ src @ map new_data [ip..<nitems v])"
proof (cases "src = []")
  case True
  then show ?thesis using assms(1) by (simp add: insert_range_def wf_vector_def)
next
  case src: False
  have ip: "ip \<le> length (items v)" using assms(1,2) by (simp add: wf_vector_def)
  have pre: "take ip (contents v) = map ((!) (items v)) [0..<ip]"
    using assms(1,2) ip by (intro nth_equalityI) (auto simp: contents_def wf_vector_def)
  show ?thesis
  proof (cases "nitems v + length src \<le> length (items v)")
    case True
    then have "vector_reserve alloc sz v (nitems v + length src) ip = Inr v" by (simp add: vector_reserve_def)
    from insert_range_items[OF src assms(2) this _ True] obtain v' where v':
      "insert_range alloc sz v ip src = Inr v'" "wf_vector v'" "nitems v' = nitems v + length src"
      "\<And>j. j < nitems v' \<Longrightarrow> items v' ! j =
        (if j < ip then items v ! j else if j < ip + length src then src ! (j - ip) else items v ! (j - length src))"
      by blast
    have "contents v' = take ip (contents v) @ src @ drop ip (contents v)"
      using v'(2-4) True assms(1,2) src
      by (intro nth_equalityI) (auto simp: contents_def wf_vector_def nth_append min_def split: if_splits)
    then show ?thesis using v' True by simp
  next
    case False
    obtain m where m: "grow_loop sz (nitems v + length src) 64 = Some m" "nitems v + length src \<le> m"
      using grow_loop_ends[of sz "nitems v + length src" 6] assms(3) by (auto simp: roomy_def)
    obtain d where d: "alloc m = Some d" using assms(3) by (auto simp: roomy_def)
    define v1 where "v1 = v\<lparr> items := map (\<lambda>i. if i < ip then items v ! i else d i) [0..<m] \<rparr>"
    have "vector_reserve alloc sz v (nitems v + length src) ip = Inr v1"
      using False m(1) d by (simp add: vector_reserve_def new_array_def v1_def)
    from insert_range_items[OF src assms(2) this] m(2) obtain v' where v':
      "insert_range alloc sz v ip src = Inr v'" "wf_vector v'" "nitems v' = nitems v + length src"
      "\<And>j. j < nitems v' \<Longrightarrow> items v' ! j =
        (if j < ip then items v1 ! j else if j < ip + length src then src ! (j - ip) else items v1 ! (j - length src))"
      by (auto simp: v1_def)
    have "contents v' = take ip (contents v) @ src @ map d [ip..<nitems v]"
      using v'(2-4) m(2) assms(1,2) src unfolding pre
      by (intro nth_equalityI) (auto simp: contents_def wf_vector_def nth_append min_def v1_def split: if_splits)
    then show ?thesis using v' False m(2) d length_contents[OF assms(1)] by auto
  qed
qed

lemma vector_insert_witness:
  "\<exists>v'. insert_one (\<lambda>k. Some (\<lambda>i. 0)) 8 \<lparr> items = [1, 2, 3], nitems = 3 \<rparr> 1 (9::nat) = Inr v' \<and>
    contents v' = [1, 9, 0, 0]"
  using vector_insert[of "\<lparr> items = [1::nat, 2, 3], nitems = 3 \<rparr>" 1 "\<lambda>k. Some (\<lambda>i. 0)" 8 "[9]"]
  by (auto simp: wf_vector_def roomy_def contents_def insert_one_range numeral_3_eq_3)

end
