(* ===== verification/Cxx_Unordered_Map.thy ===== *)
theory Cxx_Unordered_Map
  imports Prelude
begin

text \<open>
  \<open>cxx/include/unordered_map\<close>, and the hash functions of \<open>cxx/include/functional\<close>: a hash table whose entries are in one vector; each slot of the table
  holds the index of the first entry of a chain, which goes on through the entries' \<open>next\<close> fields.
  The hash function is a parameter of the template. Vectors are lists, for which there is always memory
  (\<open>Cxx_Vector\<close> has the vector with its growth and its aborts); an iterator is the index
  of the entry it points to, the end iterator the number of entries. The value \<open>None\<close> stands for an
  access outside a vector (whose assertion fails) and for a loop that does not end.
\<close>

section \<open>The code\<close>

definition SIZE_MAX :: nat where "SIZE_MAX = 2 ^ 64 - 1"
definition kInitialHashTableSize :: nat where "kInitialHashTableSize = 32"

record ('k, 'v) entry =
  first :: 'k
  second :: 'v
  nxt :: nat
  hsh :: u64

record ('k, 'v) unordered_map =
  entries :: "('k, 'v) entry list"
  hash_table :: "nat list"

definition EntryFromIndex :: "('k, 'v) unordered_map \<Rightarrow> nat \<Rightarrow> nat" where
  "EntryFromIndex m index = (if index = SIZE_MAX then length (entries m) else index)"

definition hash_table_index :: "u64 \<Rightarrow> nat \<Rightarrow> nat" where
  "hash_table_index h table_size = unat (h AND (word_of_nat table_size - 1))"

definition empty_map :: "('k, 'v) unordered_map" where
  "empty_map = \<lparr> entries = [], hash_table = replicate kInitialHashTableSize SIZE_MAX \<rparr>"

partial_function (option) find_loop :: "('k, 'v) unordered_map \<Rightarrow> 'k \<Rightarrow> nat \<Rightarrow> nat option" where
  "find_loop m key it =
     (if it = length (entries m) then Some it
      else if it > length (entries m) then None
      else if first (entries m ! it) = key then Some it
      else find_loop m key (EntryFromIndex m (nxt (entries m ! it))))"

definition find_map :: "('k \<Rightarrow> u64) \<Rightarrow> ('k, 'v) unordered_map \<Rightarrow> 'k \<Rightarrow> nat option" where
  "find_map hasher m key =
     (let index = hash_table_index (hasher key) (length (hash_table m))
      in if index < length (hash_table m) then find_loop m key (EntryFromIndex m (hash_table m ! index)) else None)"

definition link_entry :: "('k, 'v) unordered_map \<Rightarrow> nat \<Rightarrow> ('k, 'v) unordered_map" where
  "link_entry m it =
     (let index = hash_table_index (hsh (entries m ! it)) (length (hash_table m));
          next_entry_index = hash_table m ! index;
          m = m\<lparr> entries := (entries m)[it := (entries m ! it)\<lparr> nxt := next_entry_index \<rparr>] \<rparr>
      in m\<lparr> hash_table := (hash_table m)[index := it] \<rparr>)"

definition InsertIntoHashTable :: "('k, 'v) unordered_map \<Rightarrow> nat \<Rightarrow> ('k, 'v) unordered_map option" where
  "InsertIntoHashTable m it =
     (if hash_table_index (hsh (entries m ! it)) (length (hash_table m)) < length (hash_table m)
      then Some (link_entry m it) else None)"

partial_function (option) remove_loop ::
  "nat \<Rightarrow> nat \<Rightarrow> ('k, 'v) unordered_map \<Rightarrow> nat \<Rightarrow> nat \<Rightarrow> ('k, 'v) unordered_map option" where
  "remove_loop index it m prev_entry p =
     (if p = length (entries m) then Some m
      else if p > length (entries m) then None
      else if p = it then
        (let m = (if prev_entry = length (entries m)
                  then m\<lparr> hash_table := (hash_table m)[index := nxt (entries m ! it)] \<rparr>
                  else m\<lparr> entries := (entries m)[prev_entry := (entries m ! prev_entry)\<lparr> nxt := nxt (entries m ! it) \<rparr>] \<rparr>)
         in Some (m\<lparr> entries := (entries m)[it := (entries m ! it)\<lparr> nxt := SIZE_MAX \<rparr>] \<rparr>))
      else remove_loop index it m p (EntryFromIndex m (nxt (entries m ! p))))"

definition RemoveFromHashTable :: "('k, 'v) unordered_map \<Rightarrow> nat \<Rightarrow> ('k, 'v) unordered_map option" where
  "RemoveFromHashTable m it =
     (let index = hash_table_index (hsh (entries m ! it)) (length (hash_table m))
      in if index < length (hash_table m)
         then remove_loop index it m (length (entries m)) (EntryFromIndex m (hash_table m ! index)) else None)"

primrec insert_all :: "nat list \<Rightarrow> ('k, 'v) unordered_map \<Rightarrow> ('k, 'v) unordered_map option" where
  "insert_all [] m = Some m"
| "insert_all (it # its) m = do { m \<leftarrow> InsertIntoHashTable m it; insert_all its m }"

definition ExpandHashTable :: "('k, 'v) unordered_map \<Rightarrow> ('k, 'v) unordered_map option" where
  "ExpandHashTable m =
     insert_all [0..<length (entries m)] (m\<lparr> hash_table := replicate (length (hash_table m) * 2) SIZE_MAX \<rparr>)"

text \<open>\<open>operator[]\<close>: the index of the entry whose \<open>second\<close> is returned by reference; \<open>dflt\<close> is \<open>T()\<close>.\<close>

definition index_map ::
  "('k \<Rightarrow> u64) \<Rightarrow> 'v \<Rightarrow> ('k, 'v) unordered_map \<Rightarrow> 'k \<Rightarrow> (nat \<times> ('k, 'v) unordered_map) option" where
  "index_map hasher dflt m key = do {
     it \<leftarrow> find_map hasher m key;
     if it \<noteq> length (entries m) then Some (it, m)
     else do {
       m \<leftarrow> (if length (entries m) * 2 \<ge> length (hash_table m) then ExpandHashTable m else Some m);
       let m = m\<lparr> entries := entries m @ [\<lparr> first = key, second = dflt, nxt = SIZE_MAX, hsh = hasher key \<rparr>] \<rparr>;
       let it = length (entries m) - 1;
       m \<leftarrow> InsertIntoHashTable m it;
       Some (it, m) } }"

text \<open>A store through the reference, as in \<open>m[key] = v\<close>.\<close>

definition assign_map ::
  "('k \<Rightarrow> u64) \<Rightarrow> 'v \<Rightarrow> ('k, 'v) unordered_map \<Rightarrow> 'k \<Rightarrow> 'v \<Rightarrow> ('k, 'v) unordered_map option" where
  "assign_map hasher dflt m key v = do {
     (it, m) \<leftarrow> index_map hasher dflt m key;
     Some (m\<lparr> entries := (entries m)[it := (entries m ! it)\<lparr> second := v \<rparr>] \<rparr>) }"

definition erase_map :: "('k \<Rightarrow> u64) \<Rightarrow> ('k, 'v) unordered_map \<Rightarrow> 'k \<Rightarrow> ('k, 'v) unordered_map option" where
  "erase_map hasher m key =
     (if entries m = [] then Some m
      else do {
        it \<leftarrow> find_map hasher m key;
        if it = length (entries m) then Some m
        else do {
          m \<leftarrow> RemoveFromHashTable m it;
          let last_entry = length (entries m) - 1;
          m \<leftarrow> (if it \<noteq> last_entry then do {
                  m \<leftarrow> RemoveFromHashTable m last_entry;
                  let m = m\<lparr> entries := (entries m)[it := entries m ! last_entry] \<rparr>;
                  InsertIntoHashTable m it }
                else Some m);
          Some (m\<lparr> entries := butlast (entries m) \<rparr>) } })"

text \<open>
  The move assignment, as the vectors' own move assignment leaves both sides: the map moved from has
  no hash table left.
\<close>

definition move_map :: "('k, 'v) unordered_map \<Rightarrow> ('k, 'v) unordered_map \<times> ('k, 'v) unordered_map" where
  "move_map other = (other, \<lparr> entries = [], hash_table = [] \<rparr>)"

text \<open>The two hash functions: of the (signed) characters of a string and of a \<open>size_t\<close>.\<close>

definition hash_step :: "u64 \<Rightarrow> u64 \<Rightarrow> u64" where
  "hash_step h c = (let h = h + c; h = h * 413679843 in h XOR drop_bit 16 h)"

definition hash_string :: "u8 list \<Rightarrow> u64" where
  "hash_string str = fold (\<lambda>c h. hash_step h (scast c)) str 0xdeadbeef"

definition hash_size_t :: "u64 \<Rightarrow> u64" where
  "hash_size_t v = hash_step 0xdeadbeef v"

section \<open>Chains\<close>

text \<open>The entries, by index, on the chain that starts with the index \<open>x\<close>.\<close>

fun chain :: "('k, 'v) entry list \<Rightarrow> nat \<Rightarrow> nat list \<Rightarrow> bool" where
  "chain es x [] \<longleftrightarrow> x = SIZE_MAX"
| "chain es x (i # is) \<longleftrightarrow> x = i \<and> i < length es \<and> i < SIZE_MAX \<and> chain es (nxt (es ! i)) is"

lemma chain_cong:
  "\<forall>i \<in> set xs. i < length es' \<and> nxt (es' ! i) = nxt (es ! i) \<Longrightarrow> chain es x xs \<Longrightarrow> chain es' x xs"
  by (induction xs arbitrary: x) auto

lemma chain_update: "i \<notin> set xs \<Longrightarrow> chain (es[i := e]) x xs \<longleftrightarrow> chain es x xs"
  by (induction xs arbitrary: x) auto

lemma chain_bound: "chain es x xs \<Longrightarrow> i \<in> set xs \<Longrightarrow> i < length es \<and> i < SIZE_MAX"
  by (induction xs arbitrary: x) auto

text \<open>Following the chain finds the first entry with the key.\<close>

lemma find_loop_chain:
  assumes "chain (entries m) x xs"
  shows "find_loop m key (EntryFromIndex m x) =
    Some (case filter (\<lambda>i. first (entries m ! i) = key) xs of [] \<Rightarrow> length (entries m) | i # _ \<Rightarrow> i)"
  using assms
proof (induction xs arbitrary: x)
  case Nil
  then show ?case by (simp add: EntryFromIndex_def find_loop.simps[of m key "length (entries m)"])
next
  case (Cons i xs)
  then have "EntryFromIndex m x = i" "i < length (entries m)" by (auto simp: EntryFromIndex_def)
  with Cons show ?case by (simp add: find_loop.simps[of m key i])
qed

text \<open>Removing an entry from its chain.\<close>

lemma remove_loop_chain:
  assumes "chain (entries m) x (ys @ i # zs)" "i \<notin> set ys"
  shows "remove_loop index i m prev (EntryFromIndex m x) =
    (let n = length (entries m); p = (if ys = [] then prev else last ys);
         m = (if p = n then m\<lparr> hash_table := (hash_table m)[index := nxt (entries m ! i)] \<rparr>
              else m\<lparr> entries := (entries m)[p := (entries m ! p)\<lparr> nxt := nxt (entries m ! i) \<rparr>] \<rparr>)
     in Some (m\<lparr> entries := (entries m)[i := (entries m ! i)\<lparr> nxt := SIZE_MAX \<rparr>] \<rparr>))"
  using assms
proof (induction ys arbitrary: x prev)
  case Nil
  then have "EntryFromIndex m x = i" "i < length (entries m)" by (auto simp: EntryFromIndex_def)
  then show ?case by (simp add: remove_loop.simps[of index i m prev i] Let_def)
next
  case (Cons y ys)
  then have "EntryFromIndex m x = y" "y < length (entries m)" "y \<noteq> i" by (auto simp: EntryFromIndex_def)
  then have "remove_loop index i m prev (EntryFromIndex m x) =
      remove_loop index i m y (EntryFromIndex m (nxt (entries m ! y)))"
    by (simp add: remove_loop.simps[of index i m prev y])
  also have "\<dots> = (let n = length (entries m); p = (if ys = [] then y else last ys);
         m = (if p = n then m\<lparr> hash_table := (hash_table m)[index := nxt (entries m ! i)] \<rparr>
              else m\<lparr> entries := (entries m)[p := (entries m ! p)\<lparr> nxt := nxt (entries m ! i) \<rparr>] \<rparr>)
     in Some (m\<lparr> entries := (entries m)[i := (entries m ! i)\<lparr> nxt := SIZE_MAX \<rparr>] \<rparr>))"
    using Cons.prems by (intro Cons.IH) auto
  finally show ?case by simp
qed

lemma chain_snoc_skip:
  assumes "chain es x (ys @ i # zs)" "ys \<noteq> []" "distinct (ys @ i # zs)"
  shows "chain (es[last ys := (es ! last ys)\<lparr> nxt := nxt (es ! i) \<rparr>]) x (ys @ zs)"
  using assms
proof (induction ys arbitrary: x)
  case (Cons y ys)
  show ?case
  proof (cases "ys = []")
    case True
    with Cons.prems show ?thesis by (auto simp: chain_update)
  next
    case False
    then have "last ys \<noteq> y" using Cons.prems(3) last_in_set by fastforce
    with Cons False show ?thesis by auto
  qed
qed simp

text \<open>Every bucket's chain lists exactly the entries of \<open>S\<close> with that bucket, each once.\<close>

definition chains :: "nat list \<Rightarrow> ('k, 'v) entry list \<Rightarrow> nat set \<Rightarrow> bool" where
  "chains ht es S \<longleftrightarrow> S \<subseteq> {..<length es} \<and> (\<forall>b < length ht. \<exists>xs. chain es (ht ! b) xs \<and> distinct xs \<and>
     set xs = {i \<in> S. hash_table_index (hsh (es ! i)) (length ht) = b})"

lemma chainsE:
  assumes "chains ht es S" "b < length ht"
  obtains xs where "chain es (ht ! b) xs" "distinct xs"
    "set xs = {i \<in> S. hash_table_index (hsh (es ! i)) (length ht) = b}"
  using assms unfolding chains_def by blast

lemma hash_table_index_bound: "p \<le> 63 \<Longrightarrow> hash_table_index h (2 ^ p) < 2 ^ p"
proof -
  assume "p \<le> 63"
  have "h AND (word_of_nat (2 ^ p) - 1) = take_bit p h"
    by (simp add: take_bit_eq_mask mask_eq_exp_minus_1)
  then have "hash_table_index h (2 ^ p) = take_bit p (unat h)"
    by (simp add: hash_table_index_def unsigned_take_bit_eq)
  then show ?thesis by simp
qed

text \<open>What the chain updates leave of an entry.\<close>

definition payload :: "('k, 'v) entry \<Rightarrow> 'k \<times> 'v \<times> u64" where
  "payload e = (first e, second e, hsh e)"

lemma payload_nxt [simp]: "payload (e\<lparr> nxt := x \<rparr>) = payload e"
  by (simp add: payload_def)

lemma payload_update [simp]: "payload e = payload (es ! i) \<Longrightarrow> map payload (es[i := e]) = map payload es"
  by (metis list_update_beyond list_update_id map_update not_le nth_map)

lemma payload_nth:
  assumes "map payload es' = map payload es" "i < length es"
  shows "first (es' ! i) = first (es ! i)" "second (es' ! i) = second (es ! i)" "hsh (es' ! i) = hsh (es ! i)"
  using assms by (metis length_map nth_map payload_def prod.inject)+

lemma insert_chains:
  assumes c: "chains (hash_table m) (entries m) S" and i: "i < length (entries m)" "i \<notin> S" "i < SIZE_MAX"
    and b: "hash_table_index (hsh (entries m ! i)) (length (hash_table m)) < length (hash_table m)"
  shows "chains (hash_table (link_entry m i)) (entries (link_entry m i)) (insert i S)"
proof -
  define n where "n = length (hash_table m)"
  define c where "c = hash_table_index (hsh (entries m ! i)) n"
  define es where "es = (entries m)[i := (entries m ! i)\<lparr> nxt := hash_table m ! c \<rparr>]"
  have hsh: "hsh (es ! j) = hsh (entries m ! j)" for j
    using i by (cases "j = i") (auto simp: es_def)
  have "\<exists>xs. chain es ((hash_table m)[c := i] ! b) xs \<and> distinct xs \<and>
      set xs = {j \<in> insert i S. hash_table_index (hsh (es ! j)) n = b}" if bn: "b < n" for b
  proof -
    obtain xs where xs: "chain (entries m) (hash_table m ! b) xs" "distinct xs"
      "set xs = {j \<in> S. hash_table_index (hsh (entries m ! j)) n = b}"
      by (rule chainsE[OF assms(1), folded n_def, OF bn])
    then have "i \<notin> set xs" using i by auto
    then have "chain es (hash_table m ! b) xs" using xs(1) by (simp add: es_def chain_update)
    then show ?thesis
    proof (cases "b = c")
      case True
      have "chain es i (i # xs)" using \<open>chain es (hash_table m ! b) xs\<close> i True by (simp add: es_def)
      moreover have "(hash_table m)[c := i] ! b = i" using bn True by (simp add: n_def)
      moreover have "set (i # xs) = {j \<in> insert i S. hash_table_index (hsh (es ! j)) n = b}"
        using xs(3) True by (auto simp: hsh c_def)
      ultimately show ?thesis using \<open>i \<notin> set xs\<close> xs(2) by (intro exI[of _ "i # xs"]) simp
    next
      case False
      then have "(hash_table m)[c := i] ! b = hash_table m ! b" by simp
      moreover have "set xs = {j \<in> insert i S. hash_table_index (hsh (es ! j)) n = b}"
        using xs(3) False by (auto simp: hsh c_def)
      ultimately show ?thesis using \<open>chain es (hash_table m ! b) xs\<close> xs(2) by (intro exI[of _ xs]) simp
    qed
  qed
  moreover have "entries (link_entry m i) = es"
    "hash_table (link_entry m i) = (hash_table m)[c := i]"
    by (simp_all add: link_entry_def Let_def es_def c_def n_def)
  moreover have "insert i S \<subseteq> {..<length es}" using assms(1) i by (auto simp: chains_def es_def)
  ultimately show ?thesis by (simp add: chains_def n_def)
qed

lemma insert_payload [simp]:
  "map payload (entries (link_entry m i)) = map payload (entries m)"
  "length (entries (link_entry m i)) = length (entries m)"
  "length (hash_table (link_entry m i)) = length (hash_table m)"
  by (simp_all add: link_entry_def Let_def)

lemma chain_drop:
  assumes "chain es x (ys @ i # zs)" "distinct (ys @ i # zs)"
  shows "chain (es[i := (es ! i)\<lparr> nxt := y \<rparr>]) (nxt (es ! i)) zs"
  using assms by (induction ys arbitrary: x) (auto simp: chain_update)

lemma remove_chains:
  assumes c: "chains (hash_table m) (entries m) S" and i: "i \<in> S"
    and b: "hash_table_index (hsh (entries m ! i)) (length (hash_table m)) < length (hash_table m)"
  obtains m' where "RemoveFromHashTable m i = Some m'"
    "chains (hash_table m') (entries m') (S - {i})"
    "map payload (entries m') = map payload (entries m)" "length (hash_table m') = length (hash_table m)"
proof -
  define n where "n = length (hash_table m)"
  define h where "h = hash_table_index (hsh (entries m ! i)) n"
  obtain xs where xs: "chain (entries m) (hash_table m ! h) xs" "distinct xs"
    "set xs = {j \<in> S. hash_table_index (hsh (entries m ! j)) n = h}"
    by (rule chainsE[OF c b, folded n_def, folded h_def])
  then have "i \<in> set xs" using i by (simp add: h_def)
  then obtain ys zs where sp: "xs = ys @ i # zs" by (meson split_list)
  have il: "i < length (entries m)" using c i by (auto simp: chains_def)
  have last: "ys \<noteq> [] \<Longrightarrow> last ys < length (entries m)" "ys \<noteq> [] \<Longrightarrow> last ys \<noteq> i"
    using xs(2) chain_bound[OF xs(1), of "last ys"] last_in_set[of ys] by (auto simp: sp)
  define m' where "m' = (let m1 = (if ys = [] then m\<lparr> hash_table := (hash_table m)[h := nxt (entries m ! i)] \<rparr>
      else m\<lparr> entries := (entries m)[last ys := (entries m ! last ys)\<lparr> nxt := nxt (entries m ! i) \<rparr>] \<rparr>)
     in m1\<lparr> entries := (entries m1)[i := (entries m1 ! i)\<lparr> nxt := SIZE_MAX \<rparr>] \<rparr>)"
  have "RemoveFromHashTable m i = Some m'"
    using last b remove_loop_chain[of m "hash_table m ! h" ys i zs h "length (entries m)"] xs(1,2)
    by (cases "ys = []") (simp_all add: RemoveFromHashTable_def Let_def h_def n_def sp m'_def)
  moreover have pay: "map payload (entries m') = map payload (entries m)"
    using last by (simp add: m'_def Let_def)
  moreover have len: "length (hash_table m') = n" by (simp add: m'_def Let_def n_def)
  moreover have "chains (hash_table m') (entries m') (S - {i})"
  proof -
    have hs: "hsh (entries m' ! j) = hsh (entries m ! j)" if "j \<in> S" for j
      using payload_nth(3)[OF pay] that c by (auto simp: chains_def)
    have "\<exists>xs. chain (entries m') (hash_table m' ! b) xs \<and> distinct xs \<and>
      set xs = {j \<in> S - {i}. hash_table_index (hsh (entries m' ! j)) n = b}" if bn: "b < n" for b
    proof (cases "b = h")
      case True
      have "chain (entries m') (hash_table m' ! b) (ys @ zs)"
      proof (cases "ys = []")
        case True
        then show ?thesis using xs b chain_drop[of "entries m" "hash_table m ! h" "[]" i zs] \<open>b = h\<close>
          by (simp add: m'_def Let_def sp h_def n_def)
      next
        case False
        then show ?thesis using xs chain_snoc_skip[of "entries m" "hash_table m ! h" ys i zs] \<open>b = h\<close> last
          by (simp add: m'_def Let_def sp chain_update)
      qed
      moreover have "set (ys @ zs) = {j \<in> S - {i}. hash_table_index (hsh (entries m' ! j)) n = b}"
      proof -
        have "set (ys @ zs) = set xs - {i}" using xs(2) by (auto simp: sp)
        then show ?thesis using hs xs(3) True by auto
      qed
      ultimately show ?thesis using xs(2) by (intro exI[of _ "ys @ zs"]) (auto simp: sp)
    next
      case False
      obtain us where us: "chain (entries m) (hash_table m ! b) us" "distinct us"
        "set us = {j \<in> S. hash_table_index (hsh (entries m ! j)) n = b}"
        by (rule chainsE[OF c, folded n_def, OF bn])
      have "i \<notin> set us" "ys \<noteq> [] \<Longrightarrow> last ys \<notin> set us"
        using us(3) xs(3) False last_in_set[of ys] by (auto simp: sp h_def)
      then have "chain (entries m') (hash_table m' ! b) us"
        using us(1) False by (simp add: m'_def Let_def chain_update)
      moreover have "set us = {j \<in> S - {i}. hash_table_index (hsh (entries m' ! j)) n = b}"
        using us(3) \<open>i \<notin> set us\<close> hs by auto
      ultimately show ?thesis using us(2) by blast
    qed
    moreover have "S - {i} \<subseteq> {..<length (entries m')}"
      using c arg_cong[OF pay, of length] by (auto simp: chains_def)
    ultimately show ?thesis by (simp add: chains_def len)
  qed
  ultimately show thesis using that by (simp add: n_def)
qed

lemma chains_cong:
  assumes "chains ht es S" "S \<subseteq> {..<length es'}"
    "\<And>i. i \<in> S \<Longrightarrow> nxt (es' ! i) = nxt (es ! i) \<and> hsh (es' ! i) = hsh (es ! i)"
  shows "chains ht es' S"
  unfolding chains_def
proof (intro conjI allI impI)
  fix b assume b: "b < length ht"
  obtain xs where xs: "chain es (ht ! b) xs" "distinct xs"
    "set xs = {i \<in> S. hash_table_index (hsh (es ! i)) (length ht) = b}" by (rule chainsE[OF assms(1) b])
  moreover have "chain es' (ht ! b) xs" using xs(3) assms(2,3) by (intro chain_cong[OF _ xs(1)]) auto
  moreover have "set xs = {i \<in> S. hash_table_index (hsh (es' ! i)) (length ht) = b}"
    using xs(3) assms(3) by auto
  ultimately show "\<exists>xs. chain es' (ht ! b) xs \<and> distinct xs \<and>
     set xs = {i \<in> S. hash_table_index (hsh (es' ! i)) (length ht) = b}" by (intro exI[of _ xs]) simp
qed (use assms in simp)

lemma empty_chains: "chains (replicate n SIZE_MAX) es {}"
  by (auto simp: chains_def intro: exI[of _ "[]"])

lemma insert_all_append: "insert_all (xs @ ys) m = Option.bind (insert_all xs m) (insert_all ys)"
  by (induction xs arbitrary: m) (simp_all add: Option.bind_assoc)

definition rehashed :: "('k, 'v) unordered_map \<Rightarrow> ('k, 'v) unordered_map" where
  "rehashed m = fold (\<lambda>it m. link_entry m it) [0..<length (entries m)]
     (m\<lparr> hash_table := replicate (length (hash_table m) * 2) SIZE_MAX \<rparr>)"

text \<open>Rehashing every entry into an empty table.\<close>

lemma expand_chains:
  assumes "length (hash_table m) = 2 ^ p" "p < 63" "length (entries m) \<le> SIZE_MAX"
  shows "chains (hash_table (rehashed m)) (entries (rehashed m)) {..<length (entries m)}"
    "map payload (entries (rehashed m)) = map payload (entries m)"
    "length (hash_table (rehashed m)) = 2 * length (hash_table m)"
    "ExpandHashTable m = Some (rehashed m)"
proof -
  define m0 where "m0 = m\<lparr> hash_table := replicate (length (hash_table m) * 2) SIZE_MAX \<rparr>"
  have "(let m' = fold (\<lambda>it m. link_entry m it) [0..<k] m0
      in chains (hash_table m') (entries m') {..<k} \<and> map payload (entries m') = map payload (entries m) \<and>
         length (hash_table m') = 2 * length (hash_table m) \<and> insert_all [0..<k] m0 = Some m')" if "k \<le> length (entries m)" for k
    using that
  proof (induction k)
    case 0
    then show ?case by (simp add: m0_def empty_chains)
  next
    case (Suc k)
    define m' where "m' = fold (\<lambda>it m. link_entry m it) [0..<k] m0"
    have m': "chains (hash_table m') (entries m') {..<k}" "map payload (entries m') = map payload (entries m)"
      "length (hash_table m') = 2 ^ Suc p" "insert_all [0..<k] m0 = Some m'"
      using Suc assms(1) by (simp_all add: m'_def Let_def)
    have "length (entries m') = length (entries m)" by (metis m'(2) length_map)
    then have "chains (hash_table (link_entry m' k)) (entries (link_entry m' k)) (insert k {..<k})"
      using Suc.prems assms m' hash_table_index_bound[of "Suc p"] by (intro insert_chains) simp_all
    then show ?case using m' assms(1,2) hash_table_index_bound[of "Suc p"]
      by (simp add: Let_def m'_def[symmetric] lessThan_Suc insert_all_append InsertIntoHashTable_def)
  qed
  from this[of "length (entries m)"] show
    "chains (hash_table (rehashed m)) (entries (rehashed m)) {..<length (entries m)}"
    "map payload (entries (rehashed m)) = map payload (entries m)"
    "length (hash_table (rehashed m)) = 2 * length (hash_table m)"
    "ExpandHashTable m = Some (rehashed m)"
    by (simp_all add: rehashed_def ExpandHashTable_def m0_def Let_def)
qed

section \<open>The invariant and the map\<close>

text \<open>
  After at most \<open>n\<close> insertions: the table's length is a power of two and at least twice the number
  of entries; every entry holds its key's hash, no key occurs twice, and the chains list all entries.
\<close>

definition wf_map :: "('k \<Rightarrow> u64) \<Rightarrow> nat \<Rightarrow> ('k, 'v) unordered_map \<Rightarrow> bool" where
  "wf_map hasher n m \<longleftrightarrow>
     (\<exists>p > 0. length (hash_table m) = 2 ^ p) \<and> 2 * length (entries m) \<le> length (hash_table m) \<and>
     length (hash_table m) \<le> max kInitialHashTableSize (4 * n) \<and> length (entries m) \<le> n \<and> n \<le> 2 ^ 60 \<and>
     (\<forall>e \<in> set (map payload (entries m)). snd (snd e) = hasher (fst e)) \<and>
     distinct (map fst (map payload (entries m))) \<and>
     chains (hash_table m) (entries m) {..<length (entries m)}"

definition abs_map :: "('k, 'v) unordered_map \<Rightarrow> 'k \<rightharpoonup> 'v" where
  "abs_map m = map_of (map (\<lambda>(k, v, h). (k, v)) (map payload (entries m)))"

lemma wf_mapD:
  assumes "wf_map hasher n m"
  shows "chains (hash_table m) (entries m) {..<length (entries m)}"
    "length (entries m) < SIZE_MAX"
    "i < length (entries m) \<Longrightarrow> hsh (entries m ! i) = hasher (first (entries m ! i))"
    "i < length (entries m) \<Longrightarrow> j < length (entries m) \<Longrightarrow>
      first (entries m ! i) = first (entries m ! j) \<longleftrightarrow> i = j"
  using assms
  by (auto simp: wf_map_def SIZE_MAX_def payload_def o_def distinct_conv_nth)

lemma wf_map_size:
  assumes "wf_map hasher n m"
  obtains p where "length (hash_table m) = 2 ^ p" "0 < p" "p < 63"
proof -
  obtain p where p: "length (hash_table m) = 2 ^ p" "0 < p" using assms by (auto simp: wf_map_def)
  moreover have "(2::nat) ^ p \<le> 2 ^ 62" using assms p by (auto simp: wf_map_def kInitialHashTableSize_def)
  ultimately show thesis using that[of p] power_le_imp_le_exp[of "2::nat" p 62] by simp
qed

lemma wf_map_bucket:
  "wf_map hasher n m \<Longrightarrow> hash_table_index h (length (hash_table m)) < length (hash_table m)"
  by (rule wf_map_size, assumption) (simp add: hash_table_index_bound)

lemma find_map_hit:
  assumes w: "wf_map hasher n m" and i: "i < length (entries m)" "first (entries m ! i) = key"
  shows "find_map hasher m key = Some i"
proof -
  define h where "h = hash_table_index (hasher key) (length (hash_table m))"
  obtain xs where xs: "chain (entries m) (hash_table m ! h) xs" "distinct xs"
    "set xs = {j \<in> {..<length (entries m)}. hash_table_index (hsh (entries m ! j)) (length (hash_table m)) = h}"
    using wf_map_bucket[OF w] by (rule chainsE[OF wf_mapD(1)[OF w]]) (simp add: h_def)
  have "i \<in> set xs" using xs(3) i wf_mapD(3)[OF w i(1)] by (simp add: h_def)
  then obtain ys zs where sp: "xs = ys @ i # zs" "i \<notin> set ys" by (meson split_list_first)
  have "first (entries m ! j) \<noteq> key" if "j \<in> set ys" for j
    using that sp xs(3) i wf_mapD(4)[OF w, of j i] by auto
  then have "filter (\<lambda>j. first (entries m ! j) = key) xs = i # filter (\<lambda>j. first (entries m ! j) = key) zs"
    using i by (simp add: sp filter_empty_conv)
  then show ?thesis using find_loop_chain[OF xs(1), of key] wf_map_bucket[OF w]
    by (simp add: find_map_def Let_def h_def)
qed

lemma find_map_miss:
  assumes w: "wf_map hasher n m" and i: "\<And>i. i < length (entries m) \<Longrightarrow> first (entries m ! i) \<noteq> key"
  shows "find_map hasher m key = Some (length (entries m))"
proof -
  define h where "h = hash_table_index (hasher key) (length (hash_table m))"
  obtain xs where xs: "chain (entries m) (hash_table m ! h) xs" "distinct xs"
    "set xs = {j \<in> {..<length (entries m)}. hash_table_index (hsh (entries m ! j)) (length (hash_table m)) = h}"
    using wf_map_bucket[OF w] by (rule chainsE[OF wf_mapD(1)[OF w]]) (simp add: h_def)
  then have "filter (\<lambda>j. first (entries m ! j) = key) xs = []"
    using i by (auto simp: filter_empty_conv)
  then show ?thesis using find_loop_chain[OF xs(1), of key] wf_map_bucket[OF w]
    by (simp add: find_map_def Let_def h_def)
qed

lemma abs_map_hit:
  assumes "wf_map hasher n m" "i < length (entries m)"
  shows "abs_map m (first (entries m ! i)) = Some (second (entries m ! i))"
proof -
  have "map fst (map (\<lambda>(k, v, h). (k, v)) (map payload (entries m))) = map fst (map payload (entries m))"
    by (auto simp: payload_def)
  then have "distinct (map fst (map (\<lambda>(k, v, h). (k, v)) (map payload (entries m))))"
    using assms(1) by (metis wf_map_def)
  then show ?thesis using assms(2) unfolding abs_map_def
    by (intro map_of_is_SomeI) (auto simp: payload_def intro!: image_eqI[of _ _ "entries m ! i"])
qed

lemma abs_map_miss:
  "(\<And>i. i < length (entries m) \<Longrightarrow> first (entries m ! i) \<noteq> key) \<Longrightarrow> abs_map m key = None"
  by (fastforce simp: abs_map_def map_of_eq_None_iff payload_def image_iff in_set_conv_nth)

lemma find_cases:
  assumes "wf_map hasher n m"
  obtains (hit) i where "i < length (entries m)" "first (entries m ! i) = key" "find_map hasher m key = Some i"
      "abs_map m key = Some (second (entries m ! i))"
    | (miss) "\<And>i. i < length (entries m) \<Longrightarrow> first (entries m ! i) \<noteq> key"
      "find_map hasher m key = Some (length (entries m))" "abs_map m key = None"
proof (cases "\<exists>i < length (entries m). first (entries m ! i) = key")
  case True
  then show ?thesis using hit find_map_hit[OF assms] abs_map_hit[OF assms] by metis
next
  case False
  then show ?thesis using miss find_map_miss[OF assms] abs_map_miss by metis
qed

subsection \<open>Insertion\<close>

lemma InsertIntoHashTable_total:
  "(\<And>h. hash_table_index h (length (hash_table m)) < length (hash_table m)) \<Longrightarrow>
   InsertIntoHashTable m i = Some (link_entry m i)"
  by (simp add: InsertIntoHashTable_def)

lemma wf_map_room:
  assumes "wf_map hasher n m" "2 * length (entries m) < length (hash_table m)"
  shows "2 * Suc (length (entries m)) \<le> length (hash_table m)"
proof -
  obtain p where "length (hash_table m) = 2 ^ p" "0 < p" by (rule wf_map_size[OF assms(1)])
  then have "even (length (hash_table m))" by simp
  then show ?thesis using assms(2) by presburger
qed

lemma append_wf:
  assumes w: "wf_map hasher n m" and room: "2 * length (entries m) < length (hash_table m)"
    and new: "\<And>i. i < length (entries m) \<Longrightarrow> first (entries m ! i) \<noteq> key"
    and n: "length (entries m) < N" "n \<le> N" "N \<le> 2 ^ 60"
    and m': "m' = m\<lparr> entries := entries m @ [\<lparr> first = key, second = v, nxt = x, hsh = hasher key \<rparr>] \<rparr>"
  shows "wf_map hasher N (link_entry m' (length (entries m)))"
    "map payload (entries (link_entry m' (length (entries m)))) =
     map payload (entries m) @ [(key, v, hasher key)]"
proof -
  have len: "length (entries m') = Suc (length (entries m))" "hash_table m' = hash_table m" by (simp_all add: m')
  have "chains (hash_table m') (entries m') {..<length (entries m)}"
    unfolding len(2) by (rule chains_cong[OF wf_mapD(1)[OF w]]) (auto simp: m' nth_append)
  moreover have "hash_table_index (hsh (entries m' ! length (entries m))) (length (hash_table m')) < length (hash_table m')"
    unfolding len(2) by (rule wf_map_bucket[OF w])
  ultimately have "chains (hash_table (link_entry m' (length (entries m))))
      (entries (link_entry m' (length (entries m)))) (insert (length (entries m)) {..<length (entries m)})"
    using len wf_mapD(2)[OF w] by (intro insert_chains) auto
  moreover show p: "map payload (entries (link_entry m' (length (entries m)))) =
     map payload (entries m) @ [(key, v, hasher key)]" by (simp add: m' payload_def)
  moreover have "key \<notin> set (map fst (map payload (entries m)))"
    using new by (fastforce simp: payload_def in_set_conv_nth)
  ultimately show "wf_map hasher N (link_entry m' (length (entries m)))"
    using w n wf_map_room[OF w room] unfolding wf_map_def p by (auto simp: len lessThan_Suc)
qed

lemma expand_wf:
  assumes w: "wf_map hasher n m" and full: "length (hash_table m) \<le> 2 * length (entries m)"
  shows "wf_map hasher n (rehashed m)" "2 * length (entries (rehashed m)) < length (hash_table (rehashed m))"
    "map payload (entries (rehashed m)) = map payload (entries m)" "ExpandHashTable m = Some (rehashed m)"
proof -
  obtain p where p: "length (hash_table m) = 2 ^ p" "0 < p" "p < 63" by (rule wf_map_size[OF w])
  note e = expand_chains[OF p(1,3) less_imp_le[OF wf_mapD(2)[OF w]]]
  have len: "length (entries (rehashed m)) = length (entries m)" using e(2) by (metis length_map)
  have "wf_map hasher n (rehashed m) \<longleftrightarrow>
     (\<exists>p > 0. length (hash_table (rehashed m)) = 2 ^ p) \<and>
     2 * length (entries m) \<le> length (hash_table (rehashed m)) \<and>
     length (hash_table (rehashed m)) \<le> max kInitialHashTableSize (4 * n)"
    using w e(1) unfolding wf_map_def e(2) len by blast
  moreover have "length (hash_table (rehashed m)) = 2 ^ Suc p" using e(3) p by simp
  moreover have "length (hash_table (rehashed m)) \<le> 4 * n"
    using e(3) full w by (auto simp: wf_map_def)
  moreover have size: "2 * length (entries m) < length (hash_table (rehashed m))"
  proof -
    have "(0::nat) < 2 ^ p" by simp
    moreover have "2 * length (entries m) \<le> 2 ^ p" using w p(1) by (simp add: wf_map_def)
    ultimately show ?thesis unfolding e(3) p(1) by linarith
  qed
  ultimately show "wf_map hasher n (rehashed m)" by (metis less_imp_le max.coboundedI2 zero_less_Suc)
  show "2 * length (entries (rehashed m)) < length (hash_table (rehashed m))"
    using size by (simp add: len)
  show "map payload (entries (rehashed m)) = map payload (entries m)" "ExpandHashTable m = Some (rehashed m)"
    by (rule e(2), rule e(4))
qed

lemma map_of_list_update:
  "distinct (map fst xs) \<Longrightarrow> i < length xs \<Longrightarrow>
   map_of (xs[i := (fst (xs ! i), v)]) = (map_of xs)(fst (xs ! i) \<mapsto> v)"
proof (induction xs arbitrary: i)
  case (Cons x xs)
  show ?case
  proof (cases i)
    case (Suc j)
    with Cons.prems have "fst (xs ! j) \<noteq> fst x"
      by (metis Suc_less_eq distinct.simps(2) length_Cons length_map list.simps(9) nth_map nth_mem)
    with Suc Cons show ?thesis by (cases x) (auto simp: fun_upd_twist)
  qed (cases x, auto)
qed simp

lemma fst_key_value: "map fst (map (\<lambda>(k, v, h). (k, v)) ps) = map fst ps"
  by (auto split: prod.splits)

lemma second_update:
  fixes v :: 'v
  assumes w: "wf_map hasher n m" and i: "i < length (entries m)"
  defines "m' \<equiv> m\<lparr> entries := (entries m)[i := (entries m ! i)\<lparr> second := v \<rparr>] \<rparr>"
  shows "wf_map hasher n m'" "abs_map m' = (abs_map m)(first (entries m ! i) \<mapsto> v)"
proof -
  let ?ps = "map payload (entries m)"
  have ps: "map payload (entries m') = ?ps[i := (first (entries m ! i), v, hsh (entries m ! i))]"
    by (simp add: m'_def map_update payload_def)
  have keys: "map fst (map payload (entries m')) = map fst ?ps"
    unfolding ps using i by (simp add: map_update payload_def)
      (metis (mono_tags, lifting) comp_apply fst_conv length_map list_update_id nth_map payload_def)
  have "chains (hash_table m) (entries m') {..<length (entries m)}"
    by (rule chains_cong[OF wf_mapD(1)[OF w]]) (use i in \<open>auto simp: m'_def nth_list_update\<close>)
  moreover have "\<forall>e \<in> set (map payload (entries m')). snd (snd e) = hasher (fst e)"
    using set_update_subset_insert[of ?ps i "(first (entries m ! i), v, hsh (entries m ! i))"]
      wf_mapD(3)[OF w i] w unfolding ps wf_map_def by fastforce
  ultimately show "wf_map hasher n m'" using w keys by (simp add: wf_map_def m'_def del: map_map)
  have "distinct (map fst (map (\<lambda>(k, v, h). (k, v)) ?ps))"
    using w unfolding fst_key_value wf_map_def by blast
  from map_of_list_update[OF this, of i v] i
  show "abs_map m' = (abs_map m)(first (entries m ! i) \<mapsto> v)"
    by (simp add: abs_map_def ps map_update payload_def del: map_map)
qed

lemma index_map_contract:
  assumes w: "wf_map hasher n m" and n: "n < 2 ^ 60"
  obtains i m' where "index_map hasher dflt m key = Some (i, m')" "wf_map hasher (Suc n) m'"
    "i < length (entries m')" "first (entries m' ! i) = key"
    "abs_map m' = (abs_map m)(key \<mapsto> case abs_map m key of Some v \<Rightarrow> v | None \<Rightarrow> dflt)"
  using w
proof (cases rule: find_cases[where key = key])
  case (hit i)
  have "wf_map hasher (Suc n) m" using w n by (auto simp: wf_map_def)
  then show thesis using hit by (intro that[of i m]) (auto simp: index_map_def)
next
  case miss
  define m1 where "m1 = (if length (hash_table m) \<le> 2 * length (entries m) then rehashed m else m)"
  have m1: "wf_map hasher n m1" "2 * length (entries m1) < length (hash_table m1)"
    "map payload (entries m1) = map payload (entries m)"
    using expand_wf[OF w] w by (auto simp: m1_def)
  have len: "length (entries m1) = length (entries m)" by (metis length_map m1(3))
  define m2 where "m2 = m1\<lparr> entries := entries m1 @ [\<lparr> first = key, second = dflt, nxt = SIZE_MAX, hsh = hasher key \<rparr>] \<rparr>"
  have new: "first (entries m1 ! i) \<noteq> key" if "i < length (entries m1)" for i
    using miss(1) payload_nth(1)[OF m1(3)] that len by metis
  have "length (entries m1) < Suc n" using w len by (simp add: wf_map_def)
  note a = append_wf[OF m1(1,2) new this _ _ m2_def]
  have "index_map hasher dflt m key = Some (length (entries m1), link_entry m2 (length (entries m1)))"
  proof -
    have "InsertIntoHashTable m2 (length (entries m1)) = Some (link_entry m2 (length (entries m1)))"
      by (rule InsertIntoHashTable_total) (simp add: m2_def wf_map_bucket[OF m1(1)])
    moreover have "(if length (entries m) * 2 \<ge> length (hash_table m) then ExpandHashTable m else Some m) = Some m1"
      using expand_wf(4)[OF w] by (auto simp: m1_def mult.commute)
    ultimately show ?thesis using miss(2) by (simp add: index_map_def m2_def Let_def)
  qed
  moreover have "map payload (entries (link_entry m2 (length (entries m1)))) =
      map payload (entries m) @ [(key, dflt, hasher key)]" using a(2) n by (simp add: m1(3))
  moreover have "first (entries (link_entry m2 (length (entries m1))) ! length (entries m1)) = key"
    by (simp add: link_entry_def Let_def m2_def)
  ultimately show thesis using a(1) n miss(3)
    by (intro that[of "length (entries m1)" "link_entry m2 (length (entries m1))"])
      (auto simp: abs_map_def m2_def map_add_def fun_eq_iff simp del: map_map split: option.splits)
qed

lemma assign_map_contract:
  assumes w: "wf_map hasher n m" and n: "n < 2 ^ 60"
  obtains m' where "assign_map hasher dflt m key v = Some m'" "wf_map hasher (Suc n) m'"
    "abs_map m' = (abs_map m)(key \<mapsto> v)"
proof -
  obtain i m1 where i: "index_map hasher dflt m key = Some (i, m1)" "wf_map hasher (Suc n) m1"
    "i < length (entries m1)" "first (entries m1 ! i) = key"
    "abs_map m1 = (abs_map m)(key \<mapsto> case abs_map m key of Some v \<Rightarrow> v | None \<Rightarrow> dflt)"
    using index_map_contract[OF w n] .
  show thesis using second_update[OF i(2,3), of v] i
    by (intro that) (auto simp: assign_map_def)
qed

subsection \<open>Deletion\<close>

text \<open>Filling the hole at \<open>i\<close> with the last element deletes the key at \<open>i\<close>.\<close>

lemma map_of_swap_delete:
  assumes "distinct (map fst xs)" "i < length xs"
  defines "ys \<equiv> butlast (xs[i := last xs])"
  shows "map_of ys = (map_of xs)(fst (xs ! i) := None)" "distinct (map fst ys)" "set ys \<subseteq> set xs"
proof -
  obtain us x vs where xs: "xs = us @ x # vs" "length us = i"
    using assms(2) by (metis id_take_nth_drop length_take min.absorb4)
  have ys: "ys = (if vs = [] then us else us @ last vs # butlast vs)"
    unfolding ys_def using xs by (auto simp: butlast_append)
  have perm: "vs \<noteq> [] \<Longrightarrow> set (last vs # butlast vs) = set vs \<and>
      (distinct (map fst (last vs # butlast vs)) \<longleftrightarrow> distinct (map fst vs))"
    by (cases vs rule: rev_cases) auto
  show d: "distinct (map fst ys)" using assms(1) unfolding ys xs(1)
    by (cases vs rule: rev_cases) auto
  have s: "set ys = set us \<union> set vs" using perm by (auto simp: ys)
  then show "set ys \<subseteq> set xs" by (auto simp: xs(1))
  have "set ys = {p \<in> set xs. fst p \<noteq> fst (xs ! i)}"
    using assms(1) xs(2) by (auto simp: s xs(1) nth_append rev_image_eqI)
  then have "map_of ys k = Some v \<longleftrightarrow> ((map_of xs)(fst (xs ! i) := None)) k = Some v" for k v
    using map_of_eq_Some_iff[OF d, of k v] map_of_eq_Some_iff[OF assms(1), of k v] by auto
  then have "map_of ys k = ((map_of xs)(fst (xs ! i) := None)) k" for k by (intro option.expand) (metis not_None_eq)+
  then show "map_of ys = (map_of xs)(fst (xs ! i) := None)" by (intro ext)
qed

lemma shrink_wf:
  assumes w: "wf_map hasher n m" and i: "i < length (entries m)"
    and pay: "map payload (entries m') = (map payload (entries m))[i := last (map payload (entries m))]"
    and len: "length (hash_table m') = length (hash_table m)"
    and ch: "chains (hash_table m') (entries m') {..<length (entries m) - 1}"
  defines "m'' \<equiv> m'\<lparr> entries := butlast (entries m') \<rparr>"
  shows "wf_map hasher n m''" "abs_map m'' = (abs_map m)(first (entries m ! i) := None)"
proof -
  let ?ps = "map payload (entries m)"
  have ps: "map payload (entries m'') = butlast (?ps[i := last ?ps])"
    unfolding m''_def by (simp add: map_butlast pay)
  have l: "length (entries m'') = length (entries m) - 1" using arg_cong[OF ps, of length] by simp
  have d: "distinct (map fst ?ps)" using w by (simp only: wf_map_def)
  have "chains (hash_table m'') (entries m'') {..<length (entries m) - 1}"
    using l arg_cong[OF pay, of length] chains_cong[OF ch, of "butlast (entries m')"]
    by (auto simp: nth_butlast m''_def)
  moreover note map_of_swap_delete(2,3)[OF d, of i]
  ultimately show "wf_map hasher n m''" using w i unfolding wf_map_def ps l by (auto simp: m''_def len)
  have "distinct (map fst (map (\<lambda>(k, v, h). (k, v)) ?ps))" unfolding fst_key_value by (rule d)
  note del = map_of_swap_delete(1)[OF this, of i]
  have "map f (butlast (?ps[i := last ?ps])) = butlast ((map f ?ps)[i := last (map f ?ps)])"
    for f :: "'a \<times> 'b \<times> u64 \<Rightarrow> 'a \<times> 'b"
    using i by (cases "entries m = []") (auto simp: map_butlast map_update last_map)
  then show "abs_map m'' = (abs_map m)(first (entries m ! i) := None)"
    using del i unfolding abs_map_def ps by (simp add: payload_def)
qed

text \<open>Taking two different entries off their chains, and linking the second one in as the first.\<close>

lemma move_last:
  assumes w: "wf_map hasher n m" and i: "i < length (entries m) - 1"
    and m1: "chains (hash_table m1) (entries m1) ({..<length (entries m)} - {i})"
      "map payload (entries m1) = map payload (entries m)" "length (hash_table m1) = length (hash_table m)"
  obtains m2 where "RemoveFromHashTable m1 (length (entries m) - 1) = Some m2"
    "length (entries m2) = length (entries m)"
    "(let m' = link_entry (m2\<lparr> entries := (entries m2)[i := entries m2 ! (length (entries m) - 1)] \<rparr>) i
      in chains (hash_table m') (entries m') {..<length (entries m) - 1} \<and>
         map payload (entries m') = (map payload (entries m))[i := last (map payload (entries m))] \<and>
         length (hash_table m') = length (hash_table m))"
proof -
  define l where "l = length (entries m) - 1"
  have l: "l < length (entries m)" "i < l" using i by (auto simp: l_def)
  have bucket: "hash_table_index h (length (hash_table m)) < length (hash_table m)" for h
    by (rule wf_map_bucket[OF w])
  obtain m2 where m2: "RemoveFromHashTable m1 l = Some m2"
    "chains (hash_table m2) (entries m2) ({..<length (entries m)} - {i} - {l})"
    "map payload (entries m2) = map payload (entries m1)" "length (hash_table m2) = length (hash_table m1)"
    by (rule remove_chains[OF m1(1), of l]) (use l bucket m1(3) in auto)
  have len: "length (entries m2) = length (entries m)" by (metis length_map m1(2) m2(3))
  define m3 where "m3 = m2\<lparr> entries := (entries m2)[i := entries m2 ! l] \<rparr>"
  have c3: "chains (hash_table m3) (entries m3) ({..<length (entries m)} - {i} - {l})"
    using chains_cong[OF m2(2), of "entries m3"] by (auto simp: m3_def len)
  have "chains (hash_table (link_entry m3 i)) (entries (link_entry m3 i))
      (insert i ({..<length (entries m)} - {i} - {l}))"
    using l bucket m1(3) m2(4) wf_mapD(2)[OF w] by (intro insert_chains[OF c3]) (auto simp: m3_def len)
  moreover have "insert i ({..<length (entries m)} - {i} - {l}) = {..<l}" using l by (auto simp: l_def)
  moreover have "map payload (entries m3) = (map payload (entries m))[i := last (map payload (entries m))]"
  proof -
    have "map payload (entries m2) = map payload (entries m)" using m1(2) m2(3) by simp
    moreover have "payload (entries m2 ! l) = last (map payload (entries m2))"
      using l len by (cases "entries m2 = []") (auto simp: last_conv_nth l_def)
    ultimately show ?thesis by (simp add: m3_def map_update)
  qed
  moreover have "length (hash_table m3) = length (hash_table m)" using m1(3) m2(4) by (simp add: m3_def)
  ultimately show thesis using that[of m2, folded l_def, folded m3_def] m2(1) len by (simp add: Let_def)
qed

lemma erase_map_contract:
  assumes w: "wf_map hasher n m"
  obtains m' where "erase_map hasher m key = Some m'" "wf_map hasher n m'" "abs_map m' = (abs_map m)(key := None)"
proof (cases rule: find_cases[OF w, of key])
  case 2
  then show thesis using w by (intro that[of m]) (auto simp: erase_map_def fun_eq_iff)
next
  case (1 i)
  then have ne: "entries m \<noteq> []" "i \<noteq> length (entries m)" by auto
  obtain m1 where m1: "RemoveFromHashTable m i = Some m1"
    "chains (hash_table m1) (entries m1) ({..<length (entries m)} - {i})"
    "map payload (entries m1) = map payload (entries m)" "length (hash_table m1) = length (hash_table m)"
    by (rule remove_chains[OF wf_mapD(1)[OF w], of i]) (use 1 wf_map_bucket[OF w] in auto)
  have len: "length (entries m1) = length (entries m)" by (metis length_map m1(3))
  show thesis
  proof (cases "i = length (entries m) - 1")
    case True
    then have "{..<length (entries m)} - {i} = {..<length (entries m) - 1}" by auto
    moreover have "(map payload (entries m))[i := last (map payload (entries m))] = map payload (entries m)"
      using True 1(1) ne(1) by (simp add: last_map last_conv_nth list_update_same_conv)
    ultimately have "wf_map hasher n (m1\<lparr> entries := butlast (entries m1) \<rparr>)"
      "abs_map (m1\<lparr> entries := butlast (entries m1) \<rparr>) = (abs_map m)(key := None)"
      using shrink_wf[OF w 1(1), of m1] m1 1(2) by simp_all
    moreover have "erase_map hasher m key = Some (m1\<lparr> entries := butlast (entries m1) \<rparr>)"
      using ne 1(3) m1(1) True len by (simp add: erase_map_def)
    ultimately show thesis by (intro that)
  next
    case False
    then have il: "i < length (entries m) - 1" using 1(1) by linarith
    obtain m2 where m2: "RemoveFromHashTable m1 (length (entries m) - 1) = Some m2"
      "length (entries m2) = length (entries m)"
      "(let m' = link_entry (m2\<lparr> entries := (entries m2)[i := entries m2 ! (length (entries m) - 1)] \<rparr>) i
        in chains (hash_table m') (entries m') {..<length (entries m) - 1} \<and>
           map payload (entries m') = (map payload (entries m))[i := last (map payload (entries m))] \<and>
           length (hash_table m') = length (hash_table m))"
      by (rule move_last[OF w il m1(2-4)])
    define m' where "m' = link_entry (m2\<lparr> entries := (entries m2)[i := entries m2 ! (length (entries m) - 1)] \<rparr>) i"
    have "wf_map hasher n (m'\<lparr> entries := butlast (entries m') \<rparr>)"
      "abs_map (m'\<lparr> entries := butlast (entries m') \<rparr>) = (abs_map m)(key := None)"
      using shrink_wf[OF w 1(1), of m'] m2(3) 1(2) by (simp_all add: m'_def Let_def)
    moreover have "InsertIntoHashTable (m2\<lparr> entries := (entries m2)[i := entries m2 ! (length (entries m) - 1)] \<rparr>) i = Some m'"
      unfolding m'_def by (rule InsertIntoHashTable_total) (use m2(3) wf_map_bucket[OF w] in \<open>simp add: Let_def\<close>)
    then have "erase_map hasher m key = Some (m'\<lparr> entries := butlast (entries m') \<rparr>)"
      using ne 1(3) m1(1) m2(1,2) False len by (simp add: erase_map_def Let_def)
    ultimately show thesis by (intro that)
  qed
qed

section \<open>The interface\<close>

text \<open>
  What a client of a map relies on: looking a key up gives the value last stored, and a map that has
  taken fewer than \<open>room\<close> insertions takes another.
\<close>

datatype ('k, 'v) map_op = Assign 'k 'v | Erase 'k

fun map_ops ::
  "('m \<Rightarrow> 'k \<Rightarrow> 'v \<Rightarrow> 'm option) \<Rightarrow> ('m \<Rightarrow> 'k \<Rightarrow> 'm option) \<Rightarrow> ('k, 'v) map_op list \<Rightarrow> 'm \<Rightarrow> 'm option" where
  "map_ops put del [] m = Some m"
| "map_ops put del (Assign k v # ops) m = Option.bind (put m k v) (map_ops put del ops)"
| "map_ops put del (Erase k # ops) m = Option.bind (del m k) (map_ops put del ops)"

fun map_spec :: "('k, 'v) map_op list \<Rightarrow> ('k \<rightharpoonup> 'v) \<Rightarrow> 'k \<rightharpoonup> 'v" where
  "map_spec [] f = f"
| "map_spec (Assign k v # ops) f = map_spec ops (f(k \<mapsto> v))"
| "map_spec (Erase k # ops) f = map_spec ops (f(k := None))"

locale dictionary =
  fixes inv :: "nat \<Rightarrow> 'm \<Rightarrow> bool" and view :: "'m \<Rightarrow> 'k \<rightharpoonup> 'v" and room :: nat and new :: 'm
    and get :: "'m \<Rightarrow> 'k \<Rightarrow> 'v option option"
    and put :: "'m \<Rightarrow> 'k \<Rightarrow> 'v \<Rightarrow> 'm option" and del :: "'m \<Rightarrow> 'k \<Rightarrow> 'm option"
  assumes inv_new: "inv 0 new" and view_new: "view new = Map.empty"
    and get_view: "inv n m \<Longrightarrow> get m k = Some (view m k)"
    and put_view: "inv n m \<Longrightarrow> n < room \<Longrightarrow>
      \<exists>m'. put m k v = Some m' \<and> inv (Suc n) m' \<and> view m' = (view m)(k \<mapsto> v)"
    and del_view: "inv n m \<Longrightarrow> \<exists>m'. del m k = Some m' \<and> inv n m' \<and> view m' = (view m)(k := None)"
begin

lemma ops_view:
  "inv n m \<Longrightarrow> n + length ops \<le> room \<Longrightarrow>
   \<exists>m' n'. map_ops put del ops m = Some m' \<and> inv n' m' \<and> view m' = map_spec ops (view m)"
proof (induction ops arbitrary: m n)
  case (Cons op ops)
  show ?case
  proof (cases op)
    case (Assign k v)
    then obtain m' where m': "put m k v = Some m'" "inv (Suc n) m'" "view m' = (view m)(k \<mapsto> v)"
      using put_view[OF Cons.prems(1), of k v] Cons.prems(2) by auto
    with Cons.IH[OF m'(2)] Cons.prems(2) Assign show ?thesis by (simp add: fun_upd_def)
  next
    case (Erase k)
    then obtain m' where m': "del m k = Some m'" "inv n m'" "view m' = (view m)(k := None)"
      using del_view[OF Cons.prems(1), of k] by auto
    with Cons.IH[OF m'(2)] Cons.prems(2) Erase show ?thesis by (simp add: fun_upd_def)
  qed
qed auto

lemma ops_get:
  assumes "length ops \<le> room"
  shows "\<exists>m. map_ops put del ops new = Some m \<and> (\<forall>k. get m k = Some (map_spec ops Map.empty k))"
  using ops_view[OF inv_new] assms get_view view_new by fastforce

end

text \<open>A caller's \<open>it = m.find(key)\<close>: the value of the entry found, nothing for the end iterator.\<close>

definition lookup_map :: "('k \<Rightarrow> u64) \<Rightarrow> ('k, 'v) unordered_map \<Rightarrow> 'k \<Rightarrow> 'v option option" where
  "lookup_map hasher m key = do {
     it \<leftarrow> find_map hasher m key;
     Some (if it = length (entries m) then None else Some (second (entries m ! it))) }"

lemma lookup_map_view: "wf_map hasher n m \<Longrightarrow> lookup_map hasher m key = Some (abs_map m key)"
  by (rule find_cases[of hasher n m key]) (auto simp: lookup_map_def)

lemma wf_empty_map: "wf_map hasher 0 empty_map"
proof -
  have "kInitialHashTableSize = 2 ^ 5" by (simp add: kInitialHashTableSize_def)
  then have "\<exists>p > 0. kInitialHashTableSize = 2 ^ p" by (metis zero_less_numeral)
  then show ?thesis by (simp add: wf_map_def empty_map_def empty_chains)
qed

interpretation um: dictionary "wf_map hasher" abs_map "2 ^ 60" empty_map "lookup_map hasher"
  "assign_map hasher dflt" "erase_map hasher" for hasher dflt
proof
  show "wf_map hasher 0 empty_map" by (rule wf_empty_map)
  show "abs_map empty_map = Map.empty" by (simp add: abs_map_def empty_map_def)
  show "wf_map hasher n m \<Longrightarrow> lookup_map hasher m k = Some (abs_map m k)" for n m k
    by (rule lookup_map_view)
  show "wf_map hasher n m \<Longrightarrow> n < 2 ^ 60 \<Longrightarrow> \<exists>m'. assign_map hasher dflt m k v = Some m' \<and>
      wf_map hasher (Suc n) m' \<and> abs_map m' = (abs_map m)(k \<mapsto> v)" for n m k v
    by (rule assign_map_contract) auto
  show "wf_map hasher n m \<Longrightarrow> \<exists>m'. erase_map hasher m k = Some m' \<and>
      wf_map hasher n m' \<and> abs_map m' = (abs_map m)(k := None)" for n m k
    by (rule erase_map_contract) auto
qed

section \<open>Properties\<close>

text \<open>
  C6. Any sequence of up to 2^60 assignments \<open>m[k] = v\<close> and erasures on an empty \<open>unordered_map\<close>, for any
  hash function (however it collides), ends, keeps within its vectors, and leaves a map in which
  \<open>find\<close> gives exactly what the same operations leave in a finite map, across rehashing and
  the moving of the last entry into the hole an erased one leaves.
\<close>

theorem unordered_map_is_map:
  assumes "length ops \<le> 2 ^ 60"
  shows "\<exists>m. map_ops (assign_map hasher dflt) (erase_map hasher) ops empty_map = Some m \<and>
    (\<forall>k. lookup_map hasher m k = Some (map_spec ops Map.empty k))"
  by (rule um.ops_get[OF assms])

lemma unordered_map_is_map_witness:
  "\<exists>m. map_ops (assign_map (\<lambda>k. 7) (0::nat)) (erase_map (\<lambda>k. 7))
      [Assign ''ab'' 1, Assign ''cd'' 2, Assign ''ef'' 3, Erase ''ab'', Assign ''cd'' 9] empty_map = Some m \<and>
    lookup_map (\<lambda>k. 7) m ''ab'' = Some None \<and> lookup_map (\<lambda>k. 7) m ''cd'' = Some (Some 9)"
  using unordered_map_is_map[of "[Assign ''ab'' 1, Assign ''cd'' 2, Assign ''ef'' 3, Erase ''ab'', Assign ''cd'' 9]"
      "\<lambda>k. 7" "0::nat"] by auto



text \<open>Mixing loses nothing: the multiplier is odd, and the shifted bits can be taken out again.\<close>

lemma xor_shift_inverse:
  fixes h :: u64
  defines "g \<equiv> h XOR drop_bit 16 h"
  shows "g XOR drop_bit 16 g XOR drop_bit 32 g XOR drop_bit 48 g = h"
proof -
  have "drop_bit 64 h = 0" by (rule bit_word_eqI) (auto simp: bit_drop_bit_eq dest: bit_imp_le_length)
  then show ?thesis by (simp add: g_def drop_bit_xor ac_simps)
qed

lemma xor_shift_inject: "(x :: u64) XOR drop_bit 16 x = y XOR drop_bit 16 y \<Longrightarrow> x = y"
  by (metis xor_shift_inverse)

lemma hash_step_inject: "hash_step h c = hash_step h' c' \<longleftrightarrow> h + c = h' + c'"
proof
  assume "hash_step h c = hash_step h' c'"
  then have e: "(h + c) * 413679843 = (h' + c') * 413679843"
    unfolding hash_step_def Let_def by (rule xor_shift_inject)
  have "(413679843 :: u64) * 10950858436983325899 = 1" by simp
  then have "x * 413679843 * 10950858436983325899 = x" for x :: u64 by (simp only: mult.assoc mult_1_right)
  from this[of "h + c"] this[of "h' + c'"] show "h + c = h' + c'" unfolding e by simp
qed (simp add: hash_step_def)

text \<open>
  The hash of a \<open>size_t\<close> is injective: two different keys never have the same 64-bit hash, so
  they collide only through the masking with the table's size.
\<close>

theorem hash_size_t_injective: "inj hash_size_t"
  by (rule injI) (simp add: hash_size_t_def hash_step_inject)

text \<open>Two strings that differ only in the last character have different hashes.\<close>

lemma hash_string_last: "hash_string (s @ [a]) = hash_string (s @ [b]) \<longleftrightarrow> a = b"
proof -
  have "scast (scast c :: u64) = c" for c :: u8 by (rule scast_up_scast_id) (simp add: is_up)
  then have "scast a = (scast b :: u64) \<longleftrightarrow> a = b" by metis
  then show ?thesis by (simp add: hash_string_def hash_step_inject)
qed

end
