(* ===== verification/Cxx_Runtime.thy ===== *)
theory Cxx_Runtime
  imports Stdlib Malloc
begin

text \<open>
  \<open>cxx/cxxrt.cc\<close>: the functions that compiled C++ code calls. \<open>operator new\<close> is \<open>malloc\<close> with an
  assertion that it succeeded, so that it never returns a null pointer; \<open>operator delete\<close> is \<open>free\<close>.
\<close>

text \<open>What the calls work with: the formatter, the library, and for each assertion of the file the
  addresses of its expression, file and function names, with its line.\<close>

record 'w cxx_env =
  cx_tfp :: formatter
  cx_libc :: "'w nnlc_internal_data"
  cx_here :: "nat \<Rightarrow> ptr \<times> ptr \<times> int \<times> ptr"

definition cxx_assert :: "'w cxx_env \<Rightarrow> mem \<Rightarrow> nat \<Rightarrow> bool \<Rightarrow> 'w \<Rightarrow> (unit, 'w) outcome" where
  "cxx_assert e m site val w =
     (let (expr, fname, line, funcname) = cx_here e site
      in nnlc_assert (cx_tfp e) (cx_libc e) m (of_bool val) expr fname line funcname w)"

definition cxa_pure_virtual :: "'w cxx_env \<Rightarrow> mem \<Rightarrow> 'w \<Rightarrow> (unit, 'w) outcome" where
  "cxa_pure_virtual e m w = cxx_assert e m 23 False w"

definition cxa_deleted_virtual :: "'w cxx_env \<Rightarrow> mem \<Rightarrow> 'w \<Rightarrow> (unit, 'w) outcome" where
  "cxa_deleted_virtual e m w = cxx_assert e m 25 False w"

definition std_abort :: "'w cxx_env \<Rightarrow> mem \<Rightarrow> 'w \<Rightarrow> ('a, 'w) outcome" where
  "std_abort e m w = andthen (cxx_assert e m 31 False w) (\<lambda>_ w. abort (cx_tfp e) (cx_libc e) m w)"

definition std_terminate :: "'w cxx_env \<Rightarrow> mem \<Rightarrow> 'w \<Rightarrow> ('a, 'w) outcome" where
  "std_terminate e m w = std_abort e m w"

definition operator_new :: "'w cxx_env \<Rightarrow> u64 \<Rightarrow> mem \<Rightarrow> 'w \<Rightarrow> (ptr \<times> mem, 'w) outcome" where
  "operator_new e sz m w =
     (let sz = (if sz = 0 then 1 else sz) in
      case malloc (cx_libc e) sz m w of
        None \<Rightarrow> Faults
      | Some (p, m, w) \<Rightarrow> andthen (cxx_assert e m 47 (p \<noteq> NULL) w) (\<lambda>_ w. Returns (p, m) w))"

definition operator_new_array :: "'w cxx_env \<Rightarrow> u64 \<Rightarrow> mem \<Rightarrow> 'w \<Rightarrow> (ptr \<times> mem, 'w) outcome" where
  "operator_new_array e sz m w = operator_new e sz m w"

definition operator_delete :: "'w cxx_env \<Rightarrow> ptr \<Rightarrow> mem \<Rightarrow> 'w \<Rightarrow> (mem, 'w) outcome" where
  "operator_delete e p m w =
     (if p \<noteq> NULL then (case free (cx_libc e) p m w of None \<Rightarrow> Faults | Some (m, w) \<Rightarrow> Returns m w)
      else Returns m w)"

definition operator_delete_array :: "'w cxx_env \<Rightarrow> ptr \<Rightarrow> mem \<Rightarrow> 'w \<Rightarrow> (mem, 'w) outcome" where
  "operator_delete_array e p m w = operator_delete e p m w"

text \<open>\<open>cxx/noimpl/algorithm\<close>: the two templates \<open>sort\<close>. The literal in \<open>!"not implemented"\<close> is not null.\<close>

definition sort_noimpl :: "'w cxx_env \<Rightarrow> ptr \<Rightarrow> ptr \<Rightarrow> mem \<Rightarrow> 'w \<Rightarrow> (unit, 'w) outcome" where
  "sort_noimpl e it it_end m w = cxx_assert e m 19 False w"

definition sort_comp_noimpl :: "'w cxx_env \<Rightarrow> ptr \<Rightarrow> ptr \<Rightarrow> 'c \<Rightarrow> mem \<Rightarrow> 'w \<Rightarrow> (unit, 'w) outcome" where
  "sort_comp_noimpl e it it_end cmp m w = cxx_assert e m 28 False w"

section \<open>Lemmas\<close>

lemma cxx_assert_Returns_iff: "cxx_assert e m site val w = Returns u w' \<longleftrightarrow> val \<and> w' = w"
  by (auto simp: cxx_assert_def nnlc_assert_Returns_iff split: prod.splits)

lemma cxx_assert_True [simp]: "cxx_assert e m site True w = Returns () w"
  using cxx_assert_Returns_iff[of e m site True w "()" w] by simp

text \<open>The outcomes in which control does not come back, none of them undefined.\<close>

definition stops :: "('a, 'w) outcome \<Rightarrow> bool" where
  "stops r \<longleftrightarrow> (\<forall>a w. r \<noteq> Returns a w) \<and> r \<noteq> Faults"

lemma stops_andthen: "stops r \<Longrightarrow> stops (andthen r f)"
  by (cases r) (auto simp: stops_def)

lemma stops_abort: "sysdeps d \<noteq> None \<Longrightarrow> stops (abort tfp d m w)"
proof -
  assume "sysdeps d \<noteq> None"
  then obtain sd where sd: "sysdeps d = Some sd" by blast
  obtain left w1 where e: "sys_exit sd (-1) w = (left, w1)" by fastforce
  obtain r w2 where "fprintf tfp m (Some (libc_stderr d)) exit_failed_format [] w1 = Returns r w2"
    using fprintf_Returns[of tfp m "Some (libc_stderr d)" exit_failed_format "[]" w1] by blast
  then show ?thesis by (simp add: stops_def abort_def exit'_def sd e)
qed

lemma stops_message:
  "sysdeps d \<noteq> None \<Longrightarrow> stops (andthen (fprintf tfp m' stream fmt args w) (\<lambda>_ w. abort tfp d m w))"
  using fprintf_Returns[of tfp m' stream fmt args w] by (auto simp: stops_abort)

lemma stops_assert_False: "sysdeps (cx_libc e) \<noteq> None \<Longrightarrow> stops (cxx_assert e m site False w)"
  by (auto simp: cxx_assert_def nnlc_assert_def stops_message split: prod.splits)

text \<open>A call of a placeholder compiles and ends the program.\<close>

lemma sort_stops:
  "sysdeps (cx_libc e) \<noteq> None \<Longrightarrow>
   stops (sort_noimpl e it it_end m w) \<and> stops (sort_comp_noimpl e it it_end cmp m w)"
  by (simp add: sort_noimpl_def sort_comp_noimpl_def stops_assert_False)

lemma heap_sysdeps: "heap_inv d live rt m w \<Longrightarrow> sysdeps d \<noteq> None"
  by (cases "sysdeps d") (auto simp: heap_inv_def runtime_heap_def)

text \<open>A null pointer of \<open>malloc\<close> stops the program; otherwise \<open>operator new\<close> returns what \<open>malloc\<close> does.\<close>

lemma operator_new_malloc:
  assumes "sz \<noteq> 0" "malloc (cx_libc e) sz m w = Some (p, m', w')"
  shows "if p = NULL then stops (operator_new_array e sz m w) else operator_new_array e sz m w = Returns (p, m') w'"
proof -
  have "sysdeps (cx_libc e) \<noteq> None" using assms by (auto simp: malloc_def Let_def bind_eq_Some_conv)
  then show ?thesis
    using assms by (auto simp: operator_new_array_def operator_new_def stops_andthen stops_assert_False)
qed

text \<open>\<open>malloc\<close> has no block of \<open>n\<close> bytes.\<close>

definition out_of_memory :: "'w cxx_env \<Rightarrow> nat \<Rightarrow> mem \<Rightarrow> 'w \<Rightarrow> bool" where
  "out_of_memory e n m w \<longleftrightarrow> (\<exists>m' w'. malloc (cx_libc e) (word_of_nat n) m w = Some (NULL, m', w'))"

lemma operator_delete_block:
  assumes "heap_inv (cx_libc e) live rt m w" "malloc_block live m w p l"
  obtains m' w' where "operator_delete_array e p m w = Returns m' w'" "heap_inv (cx_libc e) live rt m' w'"
    "\<And>q k. malloc_block live m w q k \<Longrightarrow> q \<noteq> p \<Longrightarrow> malloc_block live m' w' q k \<and> load m' q k = load m q k"
proof -
  have "p \<noteq> NULL" using heap.block_mapped[OF assms] by simp
  moreover obtain m' w' where "free (cx_libc e) p m w = Some (m', w')" "heap_inv (cx_libc e) live rt m' w'"
    "\<forall>q k. malloc_block live m w q k \<longrightarrow> q \<noteq> p \<longrightarrow> malloc_block live m' w' q k \<and> load m' q k = load m q k"
    using heap.release_block[OF assms] by blast
  ultimately show thesis by (intro that[of m' w']) (auto simp: operator_delete_array_def operator_delete_def)
qed

lemma old_block_ne:
  assumes "heap_inv d live rt m w" "malloc_block live m w q k" "m p = None"
  shows "q \<noteq> p"
proof -
  have "0 < k" using assms(2) by (auto simp: malloc_block_def malloc_block_at_def)
  then have "m q \<noteq> None" using heap.block_mapped[OF assms(1,2)] mappedD[of m q k 0] by auto
  then show ?thesis using assms(3) by auto
qed

lemma kept_load: "\<forall>a. m a \<noteq> None \<longrightarrow> m' a = m a \<Longrightarrow> mapped m q k \<Longrightarrow> load m' q k = load m q k"
  by (rule load_cong) (auto simp: mapped_def)

section \<open>Properties\<close>

text \<open>
  In a heap in order \<open>operator new\<close> either stops the program, when \<open>malloc\<close> has no memory, or returns a block of at least one byte
  that is not null and was not in use, with everything else kept; \<open>operator delete\<close> of it gives a heap
  in order with all other blocks. A call of a pure virtual function, \<open>std::abort\<close> and
  \<open>std::terminate\<close> do not return.
\<close>

theorem cxx_new_delete:
  assumes "heap_inv (cx_libc e) live rt m w" "unat sz + 31 < 2 ^ 64"
  shows "(stops (operator_new e sz m w) \<and> out_of_memory e (max 1 (unat sz)) m w \<or>
      (\<exists>p m' w'. operator_new e sz m w = Returns (p, m') w' \<and> p \<noteq> NULL \<and> heap_inv (cx_libc e) live rt m' w' \<and>
        malloc_block live m' w' p (max 1 (unat sz)) \<and> (\<forall>a. m a \<noteq> None \<longrightarrow> m' a = m a \<and> \<not> (p \<le> a \<and> a < p + unat sz)) \<and>
        (\<forall>q k. malloc_block live m w q k \<longrightarrow> malloc_block live m' w' q k) \<and>
        (\<exists>m'' w''. operator_delete e p m' w' = Returns m'' w'' \<and> heap_inv (cx_libc e) live rt m'' w'' \<and>
          (\<forall>q k. malloc_block live m w q k \<longrightarrow> malloc_block live m'' w'' q k \<and> load m'' q k = load m q k)))) \<and>
    stops (cxa_pure_virtual e m w) \<and> stops (cxa_deleted_virtual e m w) \<and>
    stops (std_abort e m w) \<and> stops (std_terminate e m w)"
proof (intro conjI)
  define n where "n = (if sz = 0 then 1 else sz)"
  have n: "n \<noteq> 0" "0 < unat n" "unat n = max 1 (unat sz)" "unat n + 31 < 2 ^ 64"
    using assms(2) by (auto simp: n_def unat_gt_0 max_def not_le less_Suc_eq)
  have new: "operator_new e sz m w = operator_new_array e n m w"
    by (simp add: operator_new_array_def operator_new_def n_def)
  obtain p m1 w1 where mal: "malloc (cx_libc e) n m w = Some (p, m1, w1)" "heap_inv (cx_libc e) live rt m1 w1"
    "\<forall>a. m a \<noteq> None \<longrightarrow> m1 a = m a" "\<forall>q k. malloc_block live m w q k \<longrightarrow> malloc_block live m1 w1 q k"
    and p: "p \<noteq> NULL \<Longrightarrow> malloc_block live m1 w1 p (unat n) \<and> (\<forall>i < unat n. m (p + i) = None)"
    using malloc_contract[OF assms(1) n(2,4)] by (elim exE conjE) (rule that; auto split: if_splits)
  show "stops (operator_new e sz m w) \<and> out_of_memory e (max 1 (unat sz)) m w \<or>
      (\<exists>p m' w'. operator_new e sz m w = Returns (p, m') w' \<and> p \<noteq> NULL \<and> heap_inv (cx_libc e) live rt m' w' \<and>
        malloc_block live m' w' p (max 1 (unat sz)) \<and> (\<forall>a. m a \<noteq> None \<longrightarrow> m' a = m a \<and> \<not> (p \<le> a \<and> a < p + unat sz)) \<and>
        (\<forall>q k. malloc_block live m w q k \<longrightarrow> malloc_block live m' w' q k) \<and>
        (\<exists>m'' w''. operator_delete e p m' w' = Returns m'' w'' \<and> heap_inv (cx_libc e) live rt m'' w'' \<and>
          (\<forall>q k. malloc_block live m w q k \<longrightarrow> malloc_block live m'' w'' q k \<and> load m'' q k = load m q k)))"
  proof (cases "p = NULL")
    case True
    moreover have "word_of_nat (max 1 (unat sz)) = n" by (simp only: n(3)[symmetric]) simp
    ultimately show ?thesis using operator_new_malloc[OF n(1) mal(1)] mal(1) unfolding new
      by (simp add: out_of_memory_def)
  next
    case False
    note p = p[OF False]
    obtain m2 w2 where del: "operator_delete_array e p m1 w1 = Returns m2 w2" "heap_inv (cx_libc e) live rt m2 w2"
      "\<And>q k. malloc_block live m1 w1 q k \<Longrightarrow> q \<noteq> p \<Longrightarrow> malloc_block live m2 w2 q k \<and> load m2 q k = load m1 q k"
      using operator_delete_block[OF mal(2) conjunct1[OF p]] by blast
    have none: "m a = None" if "p \<le> a" "a < p + unat n" for a
    proof -
      have "a - p < unat n" using that by linarith
      with p have "m (p + (a - p)) = None" by blast
      with that show ?thesis by simp
    qed
    have "malloc_block live m2 w2 q k \<and> load m2 q k = load m q k" if q: "malloc_block live m w q k" for q k
      using del(3)[of q k] mal(4) q old_block_ne[OF assms(1) q none[OF order_refl]] n(2)
        kept_load[OF mal(3) conjunct1[OF heap.block_mapped[OF assms(1) q]]] by simp
    moreover have "m a \<noteq> None \<longrightarrow> m1 a = m a \<and> \<not> (p \<le> a \<and> a < p + unat sz)" for a
      using mal(3) none[of a] n(3) by auto
    moreover have "operator_new e sz m w = Returns (p, m1) w1"
      using operator_new_malloc[OF n(1) mal(1)] False unfolding new by simp
    ultimately show ?thesis using False mal(2,4) p del(1,2) n(3)
      by (intro disjI2 exI[of _ p] exI[of _ m1] exI[of _ w1]) (auto simp: operator_delete_array_def)
  qed
qed (simp_all add: cxa_pure_virtual_def cxa_deleted_virtual_def std_terminate_def std_abort_def
    stops_assert_False[OF heap_sysdeps[OF assms(1)]] stops_andthen)

definition example_cxx :: "bump cxx_env" where
  "example_cxx = \<lparr> cx_tfp = (\<lambda>m f a. f), cx_libc = bump_libc, cx_here = (\<lambda>_. (1, 2, 3, 4)) \<rparr>"

theorem cxx_new_delete_witness:
  "stops (operator_new example_cxx 4 (\<lambda>_. None) (5, [])) \<or>
   (\<exists>p m' w'. operator_new example_cxx 4 (\<lambda>_. None) (5, []) = Returns (p, m') w' \<and> p \<noteq> NULL)"
proof -
  have "heap_inv (cx_libc example_cxx) (\<lambda>w. set (snd w)) bump_rt (\<lambda>_. None) (5, [])"
    unfolding example_cxx_def cxx_env.simps by (rule bump_heap_inv) auto
  from cxx_new_delete[OF this, of 4] show ?thesis by (auto simp del: split_paired_Ex)
qed

end
