(* ===== verification/Cxx_String.thy ===== *)
theory Cxx_String
  imports Cxx_Runtime CString_Compare Strtox
begin

text \<open>
  \<open>cxx/include/string\<close>: \<open>std::string\<close> over the library's heap and its memory functions. String objects
  live in a store, a function from names to objects, so that the arguments of an operation may be the
  same object. The functions work on the memory and the store; an access outside the memory is
  \<open>Faults\<close>.
\<close>

section \<open>The code\<close>

record cxx_string =
  str_size :: u64
  str_data :: ptr

type_synonym strings = "nat \<Rightarrow> cxx_string"

definition no_string :: cxx_string where "no_string = \<lparr> str_size = 0, str_data = NULL \<rparr>"

definition attempt :: "'a option \<Rightarrow> 'w \<Rightarrow> ('a, 'w) outcome" where
  "attempt x w = (case x of None \<Rightarrow> Faults | Some a \<Rightarrow> Returns a w)"

definition NewData :: "'w cxx_env \<Rightarrow> u64 \<Rightarrow> mem \<Rightarrow> 'w \<Rightarrow> (ptr \<times> mem, 'w) outcome" where
  "NewData e sz m w =
     (if sz = 0 then Returns (NULL, m) w
      else andthen (operator_new_array e (sz + 1) m w) (\<lambda>(data, m) w.
        andthen (attempt (wr m (data + unat sz) 0) w) (\<lambda>m w. Returns (data, m) w)))"

text \<open>\<open>memcpy\<close> and \<open>memset\<close>, whose results are not used.\<close>

definition copy :: "ptr \<Rightarrow> ptr \<Rightarrow> u64 \<Rightarrow> mem \<Rightarrow> 'w \<Rightarrow> (mem, 'w) outcome" where
  "copy dst src n m w = attempt (map_option snd (memcpy m dst src (unat n))) w"

definition fill :: "ptr \<Rightarrow> u8 \<Rightarrow> u64 \<Rightarrow> mem \<Rightarrow> 'w \<Rightarrow> (mem, 'w) outcome" where
  "fill dst c n m w = attempt (map_option snd (memset m dst (sint c) (unat n))) w"

text \<open>Construction of the object \<open>this\<close>.\<close>

definition string_fill ::
  "'w cxx_env \<Rightarrow> u64 \<Rightarrow> u8 \<Rightarrow> nat \<Rightarrow> mem \<times> strings \<Rightarrow> 'w \<Rightarrow> (mem \<times> strings, 'w) outcome" where
  "string_fill e sz v this = (\<lambda>(m, obs) w.
     andthen (NewData e sz m w) (\<lambda>(data, m) w.
       andthen (if sz \<noteq> 0 then fill data v sz m w else Returns m w) (\<lambda>m w.
         Returns (m, obs(this := \<lparr> str_size = sz, str_data = data \<rparr>)) w)))"

definition string_of ::
  "'w cxx_env \<Rightarrow> ptr \<Rightarrow> u64 \<Rightarrow> nat \<Rightarrow> mem \<times> strings \<Rightarrow> 'w \<Rightarrow> (mem \<times> strings, 'w) outcome" where
  "string_of e src sz this = (\<lambda>(m, obs) w.
     andthen (NewData e sz m w) (\<lambda>(data, m) w.
       andthen (if sz \<noteq> 0 then copy data src sz m w else Returns m w) (\<lambda>m w.
         Returns (m, obs(this := \<lparr> str_size = sz, str_data = data \<rparr>)) w)))"

definition string_of_cstr ::
  "'w cxx_env \<Rightarrow> ptr \<Rightarrow> nat \<Rightarrow> mem \<times> strings \<Rightarrow> 'w \<Rightarrow> (mem \<times> strings, 'w) outcome" where
  "string_of_cstr e src this = (\<lambda>(m, obs) w.
     andthen (attempt (strlen m src) w) (\<lambda>n w. string_of e src (word_of_nat n) this (m, obs) w))"

definition string_copy ::
  "'w cxx_env \<Rightarrow> nat \<Rightarrow> nat \<Rightarrow> mem \<times> strings \<Rightarrow> 'w \<Rightarrow> (mem \<times> strings, 'w) outcome" where
  "string_copy e other this = (\<lambda>(m, obs) w.
     string_of e (str_data (obs other)) (str_size (obs other)) this (m, obs) w)"

definition string_move :: "nat \<Rightarrow> nat \<Rightarrow> mem \<times> strings \<Rightarrow> 'w \<Rightarrow> (mem \<times> strings, 'w) outcome" where
  "string_move other this = (\<lambda>(m, obs) w. Returns (m, obs(this := obs other, other := no_string)) w)"

definition string_clear ::
  "'w cxx_env \<Rightarrow> nat \<Rightarrow> mem \<times> strings \<Rightarrow> 'w \<Rightarrow> (mem \<times> strings, 'w) outcome" where
  "string_clear e this = (\<lambda>(m, obs) w.
     andthen (operator_delete_array e (str_data (obs this)) m w) (\<lambda>m w. Returns (m, obs(this := no_string)) w))"

definition string_assign_move ::
  "'w cxx_env \<Rightarrow> nat \<Rightarrow> nat \<Rightarrow> mem \<times> strings \<Rightarrow> 'w \<Rightarrow> (mem \<times> strings, 'w) outcome" where
  "string_assign_move e this other s w =
     andthen (string_clear e this s w) (\<lambda>(m, obs) w. Returns (m, obs(this := obs other, other := no_string)) w)"

definition string_assign ::
  "'w cxx_env \<Rightarrow> nat \<Rightarrow> nat \<Rightarrow> mem \<times> strings \<Rightarrow> 'w \<Rightarrow> (mem \<times> strings, 'w) outcome" where
  "string_assign e this other s w =
     andthen (string_clear e this s w) (\<lambda>(m, obs) w.
       let obs = obs(this := (obs this)\<lparr> str_size := str_size (obs other) \<rparr>) in
       andthen (NewData e (str_size (obs this)) m w) (\<lambda>(data, m) w.
         let obs = obs(this := (obs this)\<lparr> str_data := data \<rparr>) in
         andthen (if str_size (obs this) \<noteq> 0
                  then copy data (str_data (obs other)) (str_size (obs this)) m w else Returns m w) (\<lambda>m w.
           Returns (m, obs) w)))"

definition substr_message :: "u8 list" where
  "substr_message = lit ''Indexed past end of string buffer in substr.'' @ [10]"

definition replace_message :: "u8 list" where
  "replace_message = lit ''Indexed past end of string buffer in replace.'' @ [10]"

definition range_error :: "'w cxx_env \<Rightarrow> u8 list \<Rightarrow> mem \<Rightarrow> 'w \<Rightarrow> ('a, 'w) outcome" where
  "range_error e msg m w =
     andthen (fprintf (cx_tfp e) m (Some (libc_stderr (cx_libc e))) msg [] w)
       (\<lambda>_ w. abort (cx_tfp e) (cx_libc e) m w)"

definition string_substr ::
  "'w cxx_env \<Rightarrow> nat \<Rightarrow> u64 \<Rightarrow> u64 \<Rightarrow> nat \<Rightarrow> mem \<times> strings \<Rightarrow> 'w \<Rightarrow> (mem \<times> strings, 'w) outcome" where
  "string_substr e this pos len res = (\<lambda>(m, obs) w.
     if pos > str_size (obs this) then range_error e substr_message m w
     else
       (let len = (if len > str_size (obs this) - pos then str_size (obs this) - pos else len)
        in string_of e (str_data (obs this) + unat pos) len res (m, obs) w))"

text \<open>\<open>compare\<close> of the object with \<open>sz\<close> bytes at \<open>data\<close>, and with another object.\<close>

definition compare_data :: "mem \<Rightarrow> cxx_string \<Rightarrow> ptr \<Rightarrow> u64 \<Rightarrow> int option" where
  "compare_data m this data sz = do {
     let mn = (if str_size this \<le> sz then str_size this else sz);
     res \<leftarrow> (if mn \<noteq> 0 then memcmp m (str_data this) data (unat mn) else Some 0);
     Some (if res \<noteq> 0 then res
           else if str_size this < sz then - 1
           else if str_size this > sz then 1
           else 0) }"

definition compare_string :: "mem \<Rightarrow> cxx_string \<Rightarrow> cxx_string \<Rightarrow> int option" where
  "compare_string m this other = compare_data m this (str_data other) (str_size other)"

definition string_eq :: "mem \<Rightarrow> cxx_string \<Rightarrow> cxx_string \<Rightarrow> bool option" where
  "string_eq m a b = map_option (\<lambda>r. r = 0) (compare_string m a b)"

definition string_less :: "mem \<Rightarrow> cxx_string \<Rightarrow> cxx_string \<Rightarrow> bool option" where
  "string_less m a b = map_option (\<lambda>r. r < 0) (compare_string m a b)"

definition string_ne :: "mem \<Rightarrow> cxx_string \<Rightarrow> cxx_string \<Rightarrow> bool option" where
  "string_ne m a b = map_option (\<lambda>r. r \<noteq> 0) (compare_string m a b)"

definition string_le :: "mem \<Rightarrow> cxx_string \<Rightarrow> cxx_string \<Rightarrow> bool option" where
  "string_le m a b = map_option (\<lambda>r. r \<le> 0) (compare_string m a b)"

definition string_ge :: "mem \<Rightarrow> cxx_string \<Rightarrow> cxx_string \<Rightarrow> bool option" where
  "string_ge m a b = map_option (\<lambda>r. r \<ge> 0) (compare_string m a b)"

definition string_greater :: "mem \<Rightarrow> cxx_string \<Rightarrow> cxx_string \<Rightarrow> bool option" where
  "string_greater m a b = map_option (\<lambda>r. r > 0) (compare_string m a b)"

text \<open>\<open>at\<close> and \<open>operator[]\<close>, read and written through; neither is checked.\<close>

definition string_at_index :: "mem \<Rightarrow> cxx_string \<Rightarrow> u64 \<Rightarrow> u8 option" where
  "string_at_index m this index = m (str_data this + unat index)"

definition string_set_index :: "mem \<Rightarrow> cxx_string \<Rightarrow> u64 \<Rightarrow> u8 \<Rightarrow> mem option" where
  "string_set_index m this index c = wr m (str_data this + unat index) c"

text \<open>
  The comparison operators with a C string on the left: the expression \<open>s.compare(data)\<close> makes a
  temporary string \<open>tmp\<close>, which is destroyed at its end.
\<close>

definition compare_cstr ::
  "'w cxx_env \<Rightarrow> (int \<Rightarrow> bool) \<Rightarrow> nat \<Rightarrow> ptr \<Rightarrow> nat \<Rightarrow> mem \<times> strings \<Rightarrow> 'w \<Rightarrow> (bool \<times> mem \<times> strings, 'w) outcome" where
  "compare_cstr e test s data tmp st w =
     andthen (string_of_cstr e data tmp st w) (\<lambda>(m, obs) w.
       andthen (attempt (compare_string m (obs s) (obs tmp)) w) (\<lambda>r w.
         andthen (string_clear e tmp (m, obs) w) (\<lambda>(m, obs) w. Returns (test r, m, obs) w)))"

definition cstr_eq where "cstr_eq e data s = compare_cstr e (\<lambda>r. r = 0) s data"
definition cstr_ne where "cstr_ne e data s = compare_cstr e (\<lambda>r. r \<noteq> 0) s data"
definition cstr_le where "cstr_le e data s = compare_cstr e (\<lambda>r. r \<ge> 0) s data"
definition cstr_ge where "cstr_ge e data s = compare_cstr e (\<lambda>r. r \<le> 0) s data"
definition cstr_less where "cstr_less e data s = compare_cstr e (\<lambda>r. r > 0) s data"
definition cstr_greater where "cstr_greater e data s = compare_cstr e (\<lambda>r. r < 0) s data"

definition string_resize ::
  "'w cxx_env \<Rightarrow> nat \<Rightarrow> u64 \<Rightarrow> u8 \<Rightarrow> mem \<times> strings \<Rightarrow> 'w \<Rightarrow> (mem \<times> strings, 'w) outcome" where
  "string_resize e this sz c = (\<lambda>(m, obs) w.
     andthen (NewData e sz m w) (\<lambda>(data, m) w.
       let min_pos = (if sz \<le> str_size (obs this) then sz else str_size (obs this)) in
       andthen (if min_pos \<noteq> 0 then copy data (str_data (obs this)) min_pos m w else Returns m w) (\<lambda>m w.
         let num_to_pad = sz - min_pos in
         andthen (if num_to_pad \<noteq> 0 then fill (data + unat min_pos) c num_to_pad m w else Returns m w) (\<lambda>m w.
           andthen (string_clear e this (m, obs) w) (\<lambda>(m, obs) w.
             Returns (m, obs(this := \<lparr> str_size = sz, str_data = data \<rparr>)) w)))))"

text \<open>The object \<open>other\<close> is read again after \<open>resize\<close>.\<close>

definition string_append ::
  "'w cxx_env \<Rightarrow> nat \<Rightarrow> nat \<Rightarrow> mem \<times> strings \<Rightarrow> 'w \<Rightarrow> (mem \<times> strings, 'w) outcome" where
  "string_append e this other = (\<lambda>(m, obs) w.
     let old_size = str_size (obs this) in
     andthen (string_resize e this (str_size (obs this) + str_size (obs other)) 0 (m, obs) w) (\<lambda>(m, obs) w.
       andthen (copy (str_data (obs this) + unat old_size) (str_data (obs other)) (str_size (obs other)) m w) (\<lambda>m w.
         Returns (m, obs) w)))"

definition string_plus_assign ::
  "'w cxx_env \<Rightarrow> nat \<Rightarrow> nat \<Rightarrow> mem \<times> strings \<Rightarrow> 'w \<Rightarrow> (mem \<times> strings, 'w) outcome" where
  "string_plus_assign e this other s w =
     (if str_size (snd s other) \<noteq> 0 then string_append e this other s w else Returns s w)"

definition string_replace ::
  "'w cxx_env \<Rightarrow> nat \<Rightarrow> u64 \<Rightarrow> u64 \<Rightarrow> nat \<Rightarrow> mem \<times> strings \<Rightarrow> 'w \<Rightarrow> (mem \<times> strings, 'w) outcome" where
  "string_replace e this pos len str = (\<lambda>(m, obs) w.
     if pos > str_size (obs this) then range_error e replace_message m w
     else
       let len = (if len > str_size (obs this) - pos then str_size (obs this) - pos else len);
           new_size = str_size (obs this) + str_size (obs str) - len in
       if new_size = 0 then string_clear e this (m, obs) w
       else
         andthen (NewData e new_size m w) (\<lambda>(new_data, m) w.
           andthen (copy new_data (str_data (obs this)) pos m w) (\<lambda>m w.
             andthen (copy (new_data + unat pos) (str_data (obs str)) (str_size (obs str)) m w) (\<lambda>m w.
               let remaining = str_size (obs this) - pos - len in
               andthen (copy (new_data + unat pos + unat (str_size (obs str)))
                          (str_data (obs this) + unat pos + unat len) remaining m w) (\<lambda>m w.
                 andthen (operator_delete_array e (str_data (obs this)) m w) (\<lambda>m w.
                   Returns (m, obs(this := \<lparr> str_size = new_size, str_data = new_data \<rparr>)) w))))))"

text \<open>\<open>data()\<close> and \<open>operator+\<close>; \<open>empty_lit\<close> is the address of the literal \<open>""\<close>.\<close>

definition string_data :: "ptr \<Rightarrow> cxx_string \<Rightarrow> ptr" where
  "string_data empty_lit s = (if str_data s = NULL then empty_lit else str_data s)"

definition string_plus ::
  "'w cxx_env \<Rightarrow> ptr \<Rightarrow> nat \<Rightarrow> nat \<Rightarrow> nat \<Rightarrow> mem \<times> strings \<Rightarrow> 'w \<Rightarrow> (mem \<times> strings, 'w) outcome" where
  "string_plus e empty_lit s1 s2 res = (\<lambda>(m, obs) w.
     andthen (string_fill e (str_size (obs s1) + str_size (obs s2)) 0 res (m, obs) w) (\<lambda>(m, obs) w.
       andthen (copy (string_data empty_lit (obs res)) (string_data empty_lit (obs s1)) (str_size (obs s1)) m w) (\<lambda>m w.
         andthen (copy (string_data empty_lit (obs res) + unat (str_size (obs s1))) (string_data empty_lit (obs s2))
                    (str_size (obs s2)) m w) (\<lambda>m w.
           Returns (m, obs) w))))"

text \<open>\<open>to_string\<close>; \<open>buf\<close> is the address of the array of 32 characters on the stack.\<close>

definition to_string ::
  "'w cxx_env \<Rightarrow> ptr \<Rightarrow> u64 \<Rightarrow> nat \<Rightarrow> mem \<times> strings \<Rightarrow> 'w \<Rightarrow> (mem \<times> strings, 'w) outcome" where
  "to_string e buf val res = (\<lambda>(m, obs) w.
     andthen (attempt (sprintf (cx_tfp e) m buf (lit ''%u'') [va_int (uint val)]) w) (\<lambda>(_, m) w.
       string_of_cstr e buf res (m, obs) w))"

section \<open>The contents of a string\<close>

text \<open>
  An object holds \<open>bs\<close>: it has no data when \<open>bs\<close> is empty, and otherwise a block of its own with the
  bytes and a terminator.
\<close>

definition holds ::
  "('w \<Rightarrow> (ptr \<times> nat) set) \<Rightarrow> mem \<Rightarrow> 'w \<Rightarrow> cxx_string \<Rightarrow> u8 list \<Rightarrow> bool" where
  "holds live m w s bs \<longleftrightarrow> unat (str_size s) = length bs \<and>
     (if bs = [] then str_data s = NULL
      else malloc_block live m w (str_data s) (Suc (length bs)) \<and>
        load m (str_data s) (Suc (length bs)) = Some (bs @ [0]))"

definition apart :: "cxx_string \<Rightarrow> cxx_string \<Rightarrow> bool" where
  "apart s t \<longleftrightarrow> str_data s \<noteq> str_data t \<or> str_data s = NULL"

lemma holds_no_string [simp]: "holds live m w no_string []"
  by (simp add: holds_def no_string_def)

lemma holds_load: "holds live m w s bs \<Longrightarrow> load m (str_data s) (length bs) = Some bs"
  using load_prefix[of m "str_data s" "Suc (length bs)" "bs @ [0]" "length bs"]
  by (auto simp: holds_def split: if_splits)

lemma holds_mapped: "holds live m w s bs \<Longrightarrow> mapped m (str_data s) (length bs)"
  by (auto simp: mapped_iff_load dest: holds_load)

text \<open>All blocks of the heap, and their contents, are kept.\<close>

definition keeps ::
  "('w \<Rightarrow> (ptr \<times> nat) set) \<Rightarrow> mem \<Rightarrow> 'w \<Rightarrow> mem \<Rightarrow> 'w \<Rightarrow> bool" where
  "keeps live m w m' w' \<longleftrightarrow>
     (\<forall>q k. malloc_block live m w q k \<longrightarrow> malloc_block live m' w' q k \<and> load m' q k = load m q k)"

lemma keeps_holds: "keeps live m w m' w' \<Longrightarrow> holds live m w s bs \<Longrightarrow> holds live m' w' s bs"
  by (auto simp: keeps_def holds_def simp del: load.simps)

lemma attempt_simps [simp]: "attempt (Some a) w = Returns a w" "attempt None w = Faults"
  by (simp_all add: attempt_def)

lemma copy_exact:
  "load m src (unat n) = Some bs \<Longrightarrow> mapped m dst (unat n) \<Longrightarrow> dst \<le> src \<or> src + unat n \<le> dst \<Longrightarrow>
   copy dst src n m w = Returns (store m dst bs) w"
  by (simp add: copy_def memcpy_correct)

lemma fill_exact:
  "mapped m dst (unat n) \<Longrightarrow> fill dst c n m w = Returns (store m dst (replicate (unat n) c)) w"
  by (simp add: fill_def memset_exact)

text \<open>
  A new array that is filled later: whatever bytes are put before its terminator, the heap stays in
  order, the object made of it holds them, and all other memory keeps its contents.
\<close>

lemma NewData_contract:
  assumes inv: "heap_inv (cx_libc e) live rt m w" and n: "n \<noteq> 0" "unat n + 32 < 2 ^ 64"
  obtains (no_memory) "stops (NewData e n m w)" "out_of_memory e (Suc (unat n)) m w"
  | (block) p m1 w1 where "NewData e n m w = Returns (p, m1) w1" "p \<noteq> NULL" "mapped m1 p (Suc (unat n))"
      "\<And>a. m a \<noteq> None \<Longrightarrow> m1 a = m a" "\<And>a. p \<le> a \<Longrightarrow> a \<le> p + unat n \<Longrightarrow> m a = None"
      "\<And>bs. length bs = unat n \<Longrightarrow> heap_inv (cx_libc e) live rt (store m1 p bs) w1 \<and>
        holds live (store m1 p bs) w1 \<lparr> str_size = n, str_data = p \<rparr> bs \<and>
        keeps live m w (store m1 p bs) w1"
      "\<And>q k. malloc_block live m w q k \<Longrightarrow> q \<noteq> p"
proof -
  have u: "unat (n + 1) = Suc (unat n)" using n(2) by (simp add: unat_word_ariths)
  have n1: "n + 1 \<noteq> 0" "0 < unat (n + 1)" "unat (n + 1) + 31 < 2 ^ 64" using u n(2) by auto
  obtain p m0 w1 where mal: "malloc (cx_libc e) (n + 1) m w = Some (p, m0, w1)"
    "\<forall>a. m a \<noteq> None \<longrightarrow> m0 a = m a" "heap_inv (cx_libc e) live rt m0 w1"
    and p: "p \<noteq> NULL \<Longrightarrow> malloc_block live m0 w1 p (unat (n + 1)) \<and> (\<forall>i < unat (n + 1). m (p + i) = None)"
    using malloc_contract[OF inv n1(2,3)] by (elim exE conjE) (rule that; auto split: if_splits)
  show thesis
  proof (cases "p = NULL")
    case True
    then have "stops (NewData e n m w)"
      using operator_new_malloc[OF n1(1) mal(1)] n(1) by (simp add: NewData_def stops_andthen)
    moreover have "out_of_memory e (Suc (unat n)) m w"
      using mal(1) True by (simp add: out_of_memory_def add.commute)
    ultimately show thesis by (rule no_memory)
  next
    case False
    note p = p[OF False, unfolded u]
    have mp: "mapped m0 p (Suc (unat n))" using heap.block_mapped[OF mal(3) conjunct1[OF p]] by simp
    define m1 where "m1 = m0(p + unat n \<mapsto> 0)"
    have none: "m a = None" if "p \<le> a" "a \<le> p + unat n" for a
    proof -
      have "a - p < Suc (unat n)" using that by linarith
      with p have "m (p + (a - p)) = None" by blast
      with that show ?thesis by simp
    qed
    have new: "NewData e n m w = Returns (p, m1) w1"
      using operator_new_malloc[OF n1(1) mal(1)] n(1) False mappedD[OF mp, of "unat n"]
      by (simp add: NewData_def m1_def)
    have keep: "m1 a = m a" if "m a \<noteq> None" for a
      using that mal(2) none[of "p + unat n"] by (auto simp: m1_def)
    have fin: "heap_inv (cx_libc e) live rt (store m1 p bs) w1 \<and>
        holds live (store m1 p bs) w1 \<lparr> str_size = n, str_data = p \<rparr> bs \<and>
        keeps live m w (store m1 p bs) w1"
      if bs: "length bs = unat n" for bs
    proof -
      have e: "store m1 p bs = store m0 p (bs @ [0])" using bs by (simp add: m1_def store_snoc store_upd_after)
      have lb: "length (bs @ [0]) = unat (n + 1)" using bs u by simp
      note f = heap.alloc_fill[OF inv n1(2,3) mal(1) False order_eq_refl[OF lb]]
      have "bs \<noteq> []" using bs n(1) by (auto simp: unat_eq_0)
      moreover have "load (store m0 p (bs @ [0])) q k = load m q k" if "malloc_block live m w q k" for q k
        using f by (intro kept_load conjunct1[OF heap.block_mapped[OF inv that]]) blast
      ultimately show ?thesis using f bs unfolding e u lb by (auto simp: holds_def keeps_def)
    qed
    have "q \<noteq> p" if "malloc_block live m w q k" for q k
      using old_block_ne[OF inv that none[OF order_refl]] by simp
    note fresh = this
    show thesis by (rule block[OF new False _ keep none fin fresh]) (use mp in \<open>auto simp: m1_def\<close>)
  qed
qed

text \<open>A source in old memory does not meet a new array.\<close>

lemma fresh_apart:
  "load m src k = Some bs \<Longrightarrow> (\<And>a. p \<le> a \<Longrightarrow> a \<le> p + n \<Longrightarrow> m a = None) \<Longrightarrow> disjnt src k p (Suc n)"
  using disjnt_mapped[of m src k p "Suc n"] by (auto simp: mapped_iff_load)

lemma kept_source:
  "load m src k = Some bs \<Longrightarrow> (\<And>a. m a \<noteq> None \<Longrightarrow> m' a = m a) \<Longrightarrow> load m' src k = Some bs"
  using kept_load[of m m' src k] by (auto simp: mapped_iff_load)

text \<open>Copying old memory into the array, after the bytes already there.\<close>

lemma copy_new:
  assumes "mapped m1 p (Suc n)" "\<And>a. m a \<noteq> None \<Longrightarrow> m1 a = m a" "\<And>a. p \<le> a \<Longrightarrow> a \<le> p + n \<Longrightarrow> m a = None"
    and src: "load m src (unat k) = Some cs" and len: "length bs + unat k \<le> n" "dst = p + length bs"
  shows "copy dst src k (store m1 p bs) w = Returns (store m1 p (bs @ cs)) w"
proof -
  have d: "disjnt src (unat k) p (Suc n)" by (rule fresh_apart[OF src assms(3)])
  then have "load (store m1 p bs) src (unat k) = Some cs"
    using kept_source[OF src assms(2)] len by (subst load_store_disjnt) (auto simp: disjnt_def)
  moreover have "mapped (store m1 p bs) (p + length bs) (unat k)"
    using mapped_shift[OF assms(1), of "length bs" "unat k"] len by auto
  ultimately show ?thesis
    using d len length_load[OF src] by (subst copy_exact) (auto simp: disjnt_def store_append)
qed

lemma string_of_contract:
  assumes inv: "heap_inv (cx_libc e) live rt m w" and src: "load m src (unat n) = Some bs" and n: "unat n + 32 < 2 ^ 64"
  obtains (no_memory) "stops (string_of e src n this (m, obs) w)" "out_of_memory e (Suc (unat n)) m w"
  | (made) m' s' w' where "string_of e src n this (m, obs) w = Returns (m', obs(this := s')) w'"
      "heap_inv (cx_libc e) live rt m' w'" "holds live m' w' s' bs" "keeps live m w m' w'"
      "\<And>q k. malloc_block live m w q k \<Longrightarrow> q \<noteq> str_data s'"
proof (cases "n = 0")
  case True
  show thesis
    by (rule made[of m no_string w])
      (use True inv src heap.block_mapped[OF inv] in
        \<open>auto simp: string_of_def NewData_def no_string_def keeps_def holds_def\<close>)
next
  case False
  note len = length_load[OF src]
  show thesis
    using inv False n
  proof (cases rule: NewData_contract)
    case no_memory
    then show thesis by (intro that(1)) (simp_all add: string_of_def stops_andthen)
  next
    case (block p m1 w1)
    have "copy p src n m1 w1 = Returns (store m1 p bs) w1"
      using copy_new[OF block(3-5) src, of "[]" p w1] by simp
    then show thesis
      using block(1,6,7) len False
      by (intro made[of "store m1 p bs" "\<lparr> str_size = n, str_data = p \<rparr>" w1]) (auto simp: string_of_def)
  qed
qed

lemma malloc_block_ne_NULL: "malloc_block live m w p k \<Longrightarrow> p \<noteq> NULL"
  using malloc_block_at_bounds by (fastforce simp: malloc_block_def)

text \<open>All blocks but the one at \<open>p\<close> are kept.\<close>

definition keeps_but ::
  "('w \<Rightarrow> (ptr \<times> nat) set) \<Rightarrow> ptr \<Rightarrow> mem \<Rightarrow> 'w \<Rightarrow> mem \<Rightarrow> 'w \<Rightarrow> bool" where
  "keeps_but live p m w m' w' \<longleftrightarrow>
     (\<forall>q k. malloc_block live m w q k \<longrightarrow> q \<noteq> p \<longrightarrow> malloc_block live m' w' q k \<and> load m' q k = load m q k)"

lemma keeps_but_holds:
  "keeps_but live (str_data t) m w m' w' \<Longrightarrow> apart s t \<Longrightarrow> holds live m w s bs \<Longrightarrow> holds live m' w' s bs"
proof (cases "bs = []")
  case False
  assume k: "keeps_but live (str_data t) m w m' w'" and a: "apart s t" and h: "holds live m w s bs"
  have b: "malloc_block live m w (str_data s) (Suc (length bs))" using h False by (simp add: holds_def)
  then have "str_data s \<noteq> str_data t" using a malloc_block_ne_NULL[OF b] by (auto simp: apart_def)
  with k b have "malloc_block live m' w' (str_data s) (Suc (length bs)) \<and>
      load m' (str_data s) (Suc (length bs)) = load m (str_data s) (Suc (length bs))"
    unfolding keeps_but_def by blast
  then show ?thesis using h False by (simp add: holds_def del: load.simps)
qed (simp add: holds_def)

lemma keeps_trans_but:
  "keeps live m w m1 w1 \<Longrightarrow> keeps_but live p m1 w1 m2 w2 \<Longrightarrow> keeps_but live p m w m2 w2"
  by (auto simp: keeps_def keeps_but_def simp del: load.simps)

lemma keeps_keeps_but: "keeps live m w m' w' \<Longrightarrow> keeps_but live p m w m' w'"
  by (auto simp: keeps_def keeps_but_def)

lemma delete_contract:
  assumes inv: "heap_inv (cx_libc e) live rt m w" and s: "holds live m w s bs"
  obtains m' w' where "operator_delete_array e (str_data s) m w = Returns m' w'"
    "heap_inv (cx_libc e) live rt m' w'" "keeps_but live (str_data s) m w m' w'"
proof (cases "bs = []")
  case True
  then show thesis using inv s
    by (intro that[of m w]) (auto simp: operator_delete_array_def operator_delete_def holds_def keeps_but_def)
next
  case False
  then obtain m' w' where "operator_delete_array e (str_data s) m w = Returns m' w'"
    "heap_inv (cx_libc e) live rt m' w'"
    "\<And>q k. malloc_block live m w q k \<Longrightarrow> q \<noteq> str_data s \<Longrightarrow>
      malloc_block live m' w' q k \<and> load m' q k = load m q k"
    using operator_delete_block[OF inv, of "str_data s" "Suc (length bs)"] s by (auto simp: holds_def)
  then show thesis by (intro that[of m' w']) (auto simp: keeps_but_def)
qed

lemma clear_contract:
  assumes inv: "heap_inv (cx_libc e) live rt m w" and th: "holds live m w (obs this) bs"
  obtains m' w' where "string_clear e this (m, obs) w = Returns (m', obs(this := no_string)) w'"
    "heap_inv (cx_libc e) live rt m' w'" "keeps_but live (str_data (obs this)) m w m' w'"
  by (rule delete_contract[of e live rt m w "obs this" bs, OF inv th]) (rule that; simp add: string_clear_def)

text \<open>
  The object \<open>this\<close> now holds \<open>bs\<close>, in a block that was not in use; all other objects are as before.
\<close>

definition updated ::
  "'w cxx_env \<Rightarrow> ('w \<Rightarrow> (ptr \<times> nat) set) \<Rightarrow> (ptr set \<Rightarrow> 'w \<Rightarrow> bool) \<Rightarrow> mem \<Rightarrow> strings \<Rightarrow> 'w \<Rightarrow> nat
    \<Rightarrow> (mem \<times> strings, 'w) outcome \<Rightarrow> u8 list \<Rightarrow> bool" where
  "updated e live rt m obs w this r bs \<longleftrightarrow>
     (\<exists>m' s' w'. r = Returns (m', obs(this := s')) w' \<and> heap_inv (cx_libc e) live rt m' w' \<and>
        holds live m' w' s' bs \<and> keeps_but live (str_data (obs this)) m w m' w' \<and>
        (\<forall>q k. malloc_block live m w q k \<longrightarrow> q \<noteq> str_data s'))"

lemma updatedI:
  assumes "r = Returns (m', obs(this := s')) w'" "heap_inv (cx_libc e) live rt m' w'" "holds live m' w' s' bs"
    "keeps_but live (str_data (obs this)) m w m' w'" "\<And>q k. malloc_block live m w q k \<Longrightarrow> q \<noteq> str_data s'"
  shows "updated e live rt m obs w this r bs"
  using assms unfolding updated_def by blast

lemma resize_contract:
  assumes inv: "heap_inv (cx_libc e) live rt m w" and th: "holds live m w (obs this) xs" and n: "unat n + 32 < 2 ^ 64"
  shows "stops (string_resize e this n c (m, obs) w) \<and> out_of_memory e (Suc (unat n)) m w \<or>
    updated e live rt m obs w this (string_resize e this n c (m, obs) w)
      (take (unat n) xs @ replicate (unat n - length xs) c)"
proof (cases "n = 0")
  case True
  obtain m' w' where cl: "string_clear e this (m, obs) w = Returns (m', obs(this := no_string)) w'"
    "heap_inv (cx_libc e) live rt m' w'" "keeps_but live (str_data (obs this)) m w m' w'"
    by (rule clear_contract[of e live rt m w obs this xs, OF inv th])
  then have "string_resize e this n c (m, obs) w = Returns (m', obs(this := no_string)) w'"
    using True by (simp add: string_resize_def NewData_def no_string_def)
  then show ?thesis using cl True heap.block_mapped[OF inv]
    by (auto simp: updated_def no_string_def[symmetric] intro!: exI[of _ no_string]) (auto simp: no_string_def)
next
  case False
  show ?thesis
    using inv False n
  proof (cases rule: NewData_contract)
    case no_memory
    then show ?thesis by (simp add: string_resize_def stops_andthen)
  next
    case (block p m1 w1)
    define k where "k = min (unat n) (length xs)"
    define mp where "mp = (if n \<le> str_size (obs this) then n else str_size (obs this))"
    have sz: "unat (str_size (obs this)) = length xs" using th by (simp add: holds_def)
    have k: "unat mp = k" "k \<le> unat n" "k \<le> length xs" by (auto simp: mp_def k_def sz word_le_nat_alt)
    have rest: "unat (n - mp) = unat n - k"
      using k(1,2) by (simp add: unat_sub word_le_nat_alt)
    have src: "load m (str_data (obs this)) k = Some (take k xs)"
      using load_prefix[OF holds_load[OF th] k(3)] .
    have "copy p (str_data (obs this)) mp m1 w1 = Returns (store m1 p (take k xs)) w1"
      using copy_new[OF block(3-5), of "str_data (obs this)" mp "take k xs" "[]" p w1] src k by simp
    then have cp: "(if mp \<noteq> 0 then copy p (str_data (obs this)) mp m1 w1 else Returns m1 w1) =
        Returns (store m1 p (take k xs)) w1" using k(1) by (auto simp: unat_eq_0)
    have "mapped (store m1 p (take k xs)) (p + k) (unat n - k)"
      using mapped_shift[OF block(3), of k "unat n - k"] k(2) by auto
    then have "fill (p + k) c (n - mp) (store m1 p (take k xs)) w1 =
        Returns (store m1 p (take k xs @ replicate (unat n - k) c)) w1"
      using k(3) by (simp add: fill_exact rest store_append)
    moreover have "n - mp = 0 \<longleftrightarrow> unat n - k = 0" using rest by (metis unat_eq_0)
    ultimately have fl: "(if n - mp \<noteq> 0 then fill (p + k) c (n - mp) (store m1 p (take k xs)) w1
        else Returns (store m1 p (take k xs)) w1) = Returns (store m1 p (take k xs @ replicate (unat n - k) c)) w1"
      by auto
    define bs where "bs = take k xs @ replicate (unat n - k) c"
    have len: "length bs = unat n" using k by (simp add: bs_def)
    note b = block(6)[OF len]
    obtain m' w' where cl: "string_clear e this (store m1 p bs, obs) w1 = Returns (m', obs(this := no_string)) w'"
      "heap_inv (cx_libc e) live rt m' w'" "keeps_but live (str_data (obs this)) (store m1 p bs) w1 m' w'"
      by (rule clear_contract[of e live rt "store m1 p bs" w1 obs this xs]) (use b keeps_holds[OF _ th] in auto)
    have "string_resize e this n c (m, obs) w = Returns (m', obs(this := \<lparr> str_size = n, str_data = p \<rparr>)) w'"
      by (simp only: string_resize_def Let_def mp_def[symmetric] prod.case block(1) andthen.simps cp k(1) fl
          cl(1)[unfolded bs_def] fun_upd_upd)
    moreover have "apart \<lparr> str_size = n, str_data = p \<rparr> (obs this)"
      using block(2,7) th by (auto simp: apart_def holds_def split: if_splits)
    then have "holds live m' w' \<lparr> str_size = n, str_data = p \<rparr> bs"
      using keeps_but_holds[OF cl(3)] b by blast
    moreover have "take (unat n) xs @ replicate (unat n - length xs) c = bs"
      by (auto simp: bs_def k_def min_def)
    moreover have "keeps_but live (str_data (obs this)) m w m' w'" using keeps_trans_but[OF _ cl(3)] b by blast
    ultimately show ?thesis using cl(2) block(7) by (intro disjI2 updatedI[where s' = "\<lparr> str_size = n, str_data = p \<rparr>"]) auto
  qed
qed

lemma updated_other:
  assumes "updated e live rt m obs w this r bs" "holds live m w (obs other) ys" "apart (obs other) (obs this)"
    "other \<noteq> this"
  obtains m' s' w' where "r = Returns (m', obs(this := s')) w'" "heap_inv (cx_libc e) live rt m' w'"
    "holds live m' w' s' bs" "holds live m' w' (obs other) ys" "keeps_but live (str_data (obs this)) m w m' w'"
    "\<And>q k. malloc_block live m w q k \<Longrightarrow> q \<noteq> str_data s'" "str_data (obs other) \<noteq> str_data s' \<or> ys = []"
proof -
  obtain m' s' w' where r: "r = Returns (m', obs(this := s')) w'" "heap_inv (cx_libc e) live rt m' w'"
    "holds live m' w' s' bs" "keeps_but live (str_data (obs this)) m w m' w'"
    "\<And>q k. malloc_block live m w q k \<Longrightarrow> q \<noteq> str_data s'"
    using assms(1) unfolding updated_def by blast
  have "str_data (obs other) \<noteq> str_data s' \<or> ys = []" using assms(2) r(5)[of "str_data (obs other)" "Suc (length ys)"]
    by (cases "ys = []") (auto simp: holds_def)
  then show thesis using that r keeps_but_holds[OF r(4) assms(3,2)] by blast
qed

text \<open>Overwriting bytes inside the block of an object.\<close>

lemma write_inside:
  assumes inv: "heap_inv (cx_libc e) live rt m w" and s: "holds live m w s (xs @ zs @ ys)"
    and bs: "length bs = length zs" "0 < length zs"
  shows "heap_inv (cx_libc e) live rt (store m (str_data s + length xs) bs) w \<and>
    holds live (store m (str_data s + length xs) bs) w s (xs @ bs @ ys) \<and>
    keeps_but live (str_data s) m w (store m (str_data s + length xs) bs) w"
proof -
  let ?n = "Suc (length (xs @ zs @ ys))"
  have b: "malloc_block live m w (str_data s) ?n" "load m (str_data s) ?n = Some (xs @ zs @ ys @ [0])"
    using s bs(2) by (auto simp: holds_def split: if_splits)
  note wr = heap.write_block[OF inv b(1), of "length xs" bs]
  have "load (store m (str_data s + length xs) bs) (str_data s) ?n = Some (xs @ bs @ ys @ [0])"
    using b(2) bs(1) by (auto simp: load_iff store_def nth_append simp del: load.simps)
  moreover have "load (store m (str_data s + length xs) bs) q k = load m q k"
    if "malloc_block live m w q k" "q \<noteq> str_data s" for q k
    using heap.block_disjnt[OF inv that(1) b(1) that(2)] bs(1)
    by (intro load_store_disjnt) (auto simp: disjnt_def)
  ultimately show ?thesis using wr s bs by (auto simp: holds_def keeps_but_def simp del: load.simps)
qed

lemma append_contract:
  assumes inv: "heap_inv (cx_libc e) live rt m w" and th: "holds live m w (obs this) xs"
    and other: "holds live m w (obs other) ys" "apart (obs other) (obs this)" "other \<noteq> this"
    and len: "length xs + length ys + 32 < 2 ^ 64"
  shows "stops (string_append e this other (m, obs) w) \<and> out_of_memory e (Suc (length xs + length ys)) m w \<or>
    updated e live rt m obs w this (string_append e this other (m, obs) w) (xs @ ys)"
proof -
  define n where "n = str_size (obs this) + str_size (obs other)"
  have sz: "unat (str_size (obs this)) = length xs" "unat (str_size (obs other)) = length ys"
    using th other(1) by (simp_all add: holds_def)
  have n: "unat n = length xs + length ys" using len sz by (simp add: n_def unat_word_ariths)
  define r where "r = string_resize e this n 0 (m, obs) w"
  have "stops r \<and> out_of_memory e (Suc (length xs + length ys)) m w \<or>
      updated e live rt m obs w this r (xs @ replicate (length ys) 0)"
    using resize_contract[of e live rt m w obs this xs n 0, OF inv th] len by (simp add: r_def n)
  then show ?thesis
  proof
    assume "stops r \<and> out_of_memory e (Suc (length xs + length ys)) m w"
    then show ?thesis by (simp add: string_append_def r_def n_def stops_andthen)
  next
    assume "updated e live rt m obs w this r (xs @ replicate (length ys) 0)"
    from updated_other[OF this other] obtain m' s' w' where
      r: "r = Returns (m', obs(this := s')) w'" "heap_inv (cx_libc e) live rt m' w'"
      "holds live m' w' s' (xs @ replicate (length ys) 0)" "holds live m' w' (obs other) ys"
      "keeps_but live (str_data (obs this)) m w m' w'"
      and fresh: "\<And>q k. malloc_block live m w q k \<Longrightarrow> q \<noteq> str_data s'"
      and ne: "str_data (obs other) \<noteq> str_data s' \<or> ys = []" by blast
    have app: "string_append e this other (m, obs) w =
      andthen (copy (str_data s' + length xs) (str_data (obs other)) (str_size (obs other)) m' w')
        (\<lambda>m w. Returns (m, obs(this := s')) w)"
      using r(1) other(3) by (simp add: string_append_def r_def n_def sz)
    show ?thesis
    proof (cases "ys = []")
      case True
      then have "string_append e this other (m, obs) w = r"
        using app r(1) sz(2) by (simp add: copy_def memcpy_def)
      then show ?thesis using \<open>updated e live rt m obs w this r _\<close> True by simp
    next
      case False
      have wi: "heap_inv (cx_libc e) live rt (store m' (str_data s' + length xs) ys) w'"
        "holds live (store m' (str_data s' + length xs) ys) w' s' (xs @ ys)"
        "keeps_but live (str_data s') m' w' (store m' (str_data s' + length xs) ys) w'"
        using write_inside[OF r(2), of s' xs "replicate (length ys) 0" "[]" ys] r(3) False by auto
      have b: "malloc_block live m' w' (str_data s') (Suc (length xs + length ys))"
        "malloc_block live m' w' (str_data (obs other)) (Suc (length ys))"
        using r(3,4) False by (simp_all add: holds_def split: if_splits)
      have "disjnt (str_data s') (Suc (length xs + length ys)) (str_data (obs other)) (Suc (length ys))"
        using heap.block_disjnt[OF r(2) b] ne False by auto
      then have "copy (str_data s' + length xs) (str_data (obs other)) (str_size (obs other)) m' w' =
          Returns (store m' (str_data s' + length xs) ys) w'"
        using holds_load[OF r(4)] mapped_shift[OF conjunct1[OF heap.block_mapped[OF r(2) b(1)]], of "length xs" "length ys"]
        by (intro copy_exact) (auto simp: sz disjnt_def)
      moreover have "keeps_but live (str_data (obs this)) m w (store m' (str_data s' + length xs) ys) w'"
        using r(5) wi(3) fresh by (auto simp: keeps_but_def simp del: load.simps)
      ultimately show ?thesis using app wi fresh by (intro disjI2 updatedI[where s' = s']) auto
    qed
  qed
qed

lemma plus_assign_contract:
  assumes inv: "heap_inv (cx_libc e) live rt m w" and th: "holds live m w (obs this) xs"
    and other: "holds live m w (obs other) ys" "apart (obs other) (obs this)" "other \<noteq> this"
    and len: "length xs + length ys + 32 < 2 ^ 64" and ys: "ys \<noteq> []"
  shows "stops (string_plus_assign e this other (m, obs) w) \<and> out_of_memory e (Suc (length xs + length ys)) m w \<or>
    updated e live rt m obs w this (string_plus_assign e this other (m, obs) w) (xs @ ys)"
proof -
  have "str_size (obs other) \<noteq> 0" using other(1) ys by (auto simp: holds_def)
  then show ?thesis using append_contract[of e live rt m w obs this xs other ys] assms
    by (simp add: string_plus_assign_def)
qed

lemma assign_contract:
  assumes inv: "heap_inv (cx_libc e) live rt m w" and th: "holds live m w (obs this) xs"
    and other: "holds live m w (obs other) ys" "apart (obs other) (obs this)" "other \<noteq> this"
    and len: "length ys + 32 < 2 ^ 64"
  obtains m1 w1 where "stops (string_assign e this other (m, obs) w)"
      "string_clear e this (m, obs) w = Returns (m1, obs(this := no_string)) w1" "out_of_memory e (Suc (length ys)) m1 w1"
  | m' s' w' where "string_assign e this other (m, obs) w = Returns (m', obs(this := s')) w'"
      "heap_inv (cx_libc e) live rt m' w'" "holds live m' w' s' ys" "holds live m' w' (obs other) ys"
      "keeps_but live (str_data (obs this)) m w m' w'"
proof -
  obtain m1 w1 where cl: "string_clear e this (m, obs) w = Returns (m1, obs(this := no_string)) w1"
    "heap_inv (cx_libc e) live rt m1 w1" "keeps_but live (str_data (obs this)) m w m1 w1"
    by (rule clear_contract[of e live rt m w obs this xs, OF inv th])
  have other1: "holds live m1 w1 (obs other) ys" by (rule keeps_but_holds[OF cl(3) other(2,1)])
  have sz: "unat (str_size (obs other)) = length ys" using other(1) by (simp add: holds_def)
  have as: "string_assign e this other (m, obs) w =
      string_of e (str_data (obs other)) (str_size (obs other)) this (m1, obs) w1"
    using cl(1) other(3)
    by (cases "NewData e (str_size (obs other)) m1 w1") (auto simp: string_assign_def string_of_def no_string_def Let_def)
  have src: "load m1 (str_data (obs other)) (unat (str_size (obs other))) = Some ys"
    unfolding sz by (rule holds_load[OF other1])
  have n: "unat (str_size (obs other)) + 32 < 2 ^ 64" using len sz by simp
  show thesis
    using cl(2) src n
  proof (cases rule: string_of_contract[where this = this and obs = obs])
    case no_memory
    then show thesis using that(1)[OF _ cl(1)] as sz by simp
  next
    case (made m' s' w')
    then show thesis
      using that(2)[of m' s' w'] as keeps_holds[OF made(4) other1] cl(3)
      by (auto simp: keeps_def keeps_but_def simp del: load.simps)
  qed
qed

lemma load_sub: "load m p n = Some bs \<Longrightarrow> i + k \<le> n \<Longrightarrow> load m (p + i) k = Some (take k (drop i bs))"
  by (auto simp: load_iff add.assoc)

lemma substr_contract:
  assumes inv: "heap_inv (cx_libc e) live rt m w" and th: "holds live m w (obs this) xs"
    and len: "length xs + 32 < 2 ^ 64"
  shows "stops (string_substr e this pos n res (m, obs) w) \<and>
      (length xs < unat pos \<or> out_of_memory e (Suc (min (unat n) (length xs - unat pos))) m w) \<or>
    unat pos \<le> length xs \<and>
    updated e live rt m obs w res (string_substr e this pos n res (m, obs) w) (take (unat n) (drop (unat pos) xs))"
proof (cases "pos \<le> str_size (obs this)")
  case False
  then have "pos > str_size (obs this)" by simp
  then show ?thesis using heap_sysdeps[OF inv] th
    by (simp add: string_substr_def range_error_def stops_message holds_def word_less_nat_alt)
next
  case True
  have sz: "unat (str_size (obs this)) = length xs" using th by (simp add: holds_def)
  define k where "k = (if n > str_size (obs this) - pos then str_size (obs this) - pos else n)"
  have pos: "unat pos \<le> length xs" "unat (str_size (obs this) - pos) = length xs - unat pos"
    using True sz by (simp_all add: word_le_nat_alt unat_sub)
  have k: "unat k = min (unat n) (length xs - unat pos)"
    by (auto simp: k_def pos(2) word_less_nat_alt min_def)
  have sub: "string_substr e this pos n res (m, obs) w = string_of e (str_data (obs this) + unat pos) k res (m, obs) w"
    using True by (auto simp: string_substr_def k_def)
  have "load m (str_data (obs this) + unat pos) (unat k) = Some (take (unat k) (drop (unat pos) xs))"
    using pos(1) by (intro load_sub[OF holds_load[OF th]]) (simp add: k)
  moreover have "take (unat k) (drop (unat pos) xs) = take (unat n) (drop (unat pos) xs)"
    by (auto simp: k min_def)
  ultimately have src: "load m (str_data (obs this) + unat pos) (unat k) = Some (take (unat n) (drop (unat pos) xs))"
    by simp
  have n: "unat k + 32 < 2 ^ 64" using len k by simp
  show ?thesis
    using inv src n
  proof (cases rule: string_of_contract[where this = res and obs = obs])
    case no_memory
    then show ?thesis unfolding sub by (simp add: k)
  next
    case (made m' s' w')
    then show ?thesis unfolding sub using pos(1) keeps_keeps_but
      by (intro disjI2 conjI updatedI[where s' = s']) auto
  qed
qed

text \<open>\<open>replace\<close> builds the new contents in three copies.\<close>

lemma replace_contract:
  assumes inv: "heap_inv (cx_libc e) live rt m w" and th: "holds live m w (obs this) xs"
    and str: "holds live m w (obs str) ys" and len: "length xs + length ys + 32 < 2 ^ 64"
  shows "stops (string_replace e this pos n str (m, obs) w) \<and>
      (length xs < unat pos \<or>
       out_of_memory e (Suc (length xs + length ys - min (unat n) (length xs - unat pos))) m w) \<or>
    unat pos \<le> length xs \<and>
    updated e live rt m obs w this (string_replace e this pos n str (m, obs) w)
      (take (unat pos) xs @ ys @ drop (unat pos + unat n) xs)"
proof (cases "pos \<le> str_size (obs this)")
  case False
  then have "pos > str_size (obs this)" by simp
  then show ?thesis using heap_sysdeps[OF inv] th
    by (simp add: string_replace_def range_error_def stops_message holds_def word_less_nat_alt)
next
  case True
  have sz: "unat (str_size (obs this)) = length xs" "unat (str_size (obs str)) = length ys"
    using th str by (simp_all add: holds_def)
  define k where "k = (if n > str_size (obs this) - pos then str_size (obs this) - pos else n)"
  define new where "new = str_size (obs this) + str_size (obs str) - k"
  define rest where "rest = str_size (obs this) - pos - k"
  have pos: "unat pos \<le> length xs" "unat (str_size (obs this) - pos) = length xs - unat pos"
    using True sz by (simp_all add: word_le_nat_alt unat_sub)
  have k: "unat k = min (unat n) (length xs - unat pos)"
    by (auto simp: k_def pos(2) word_less_nat_alt min_def)
  have sum: "unat (str_size (obs this) + str_size (obs str)) = length xs + length ys"
    using len sz by (simp add: unat_word_ariths)
  have new: "unat new = length xs + length ys - unat k"
    unfolding new_def using k by (subst unat_sub) (simp_all add: word_le_nat_alt sum)
  have rest: "unat rest = length xs - unat pos - unat k"
    unfolding rest_def using k pos(2) by (subst unat_sub) (simp_all add: word_le_nat_alt)
  define bs where "bs = take (unat pos) xs @ ys @ drop (unat pos + unat k) xs"
  have bs: "bs = take (unat pos) xs @ ys @ drop (unat pos + unat n) xs" "length bs = unat new"
    using pos(1) by (auto simp: bs_def k new min_def)
  have rep: "string_replace e this pos n str (m, obs) w =
     (if new = 0 then string_clear e this (m, obs) w
      else andthen (NewData e new m w) (\<lambda>(new_data, m) w.
           andthen (copy new_data (str_data (obs this)) pos m w) (\<lambda>m w.
             andthen (copy (new_data + unat pos) (str_data (obs str)) (str_size (obs str)) m w) (\<lambda>m w.
               andthen (copy (new_data + unat pos + length ys) (str_data (obs this) + unat pos + unat k) rest m w) (\<lambda>m w.
                 andthen (operator_delete_array e (str_data (obs this)) m w) (\<lambda>m w.
                   Returns (m, obs(this := \<lparr> str_size = new, str_data = new_data \<rparr>)) w))))))"
    using True by (simp add: string_replace_def k_def[symmetric] Let_def new_def rest_def sz not_less[symmetric])
  show ?thesis
  proof (cases "new = 0")
    case True
    obtain m' w' where cl: "string_clear e this (m, obs) w = Returns (m', obs(this := no_string)) w'"
      "heap_inv (cx_libc e) live rt m' w'" "keeps_but live (str_data (obs this)) m w m' w'"
      by (rule clear_contract[of e live rt m w obs this xs, OF inv th])
    have "bs = []" using bs(2) True by simp
    then show ?thesis unfolding rep bs(1)[symmetric] using True cl pos(1) heap.block_mapped[OF inv]
      by (intro disjI2 conjI updatedI[where s' = no_string]) (auto simp: no_string_def[of] holds_def)
  next
    case False
    have len: "unat new + 32 < 2 ^ 64" using assms(4) new by simp
    show ?thesis
      using inv False len
    proof (cases rule: NewData_contract)
      case no_memory
      then show ?thesis unfolding rep using False by (simp add: stops_andthen new k)
    next
      case (block p m1 w1)
      have cp: "copy dst src kw (store m1 p as) w1 = Returns (store m1 p (as @ cs)) w1"
        if "load m src (unat kw) = Some cs" "length as + unat kw \<le> unat new" "dst = p + length as" for dst src kw as cs
        by (rule copy_new[of m1 p "unat new" m]) (use block(3-5) that in auto)
      have kle: "unat k \<le> length xs - unat pos" by (simp add: k)
      have bound: "unat pos + length ys + unat rest \<le> unat new" using pos(1) new rest kle by linarith
      have pre: "length (take (unat pos) xs) = unat pos" using pos(1) by simp
      have c1: "copy p (str_data (obs this)) pos m1 w1 = Returns (store m1 p (take (unat pos) xs)) w1"
        using cp[of "str_data (obs this)" pos "take (unat pos) xs" "[]" p]
          load_prefix[OF holds_load[OF th] pos(1)] bound by simp
      have c2: "copy (p + unat pos) (str_data (obs str)) (str_size (obs str)) (store m1 p (take (unat pos) xs)) w1 =
          Returns (store m1 p (take (unat pos) xs @ ys)) w1"
        by (rule cp) (use holds_load[OF str] bound pre sz in simp_all)
      have "load m (str_data (obs this) + (unat pos + unat k)) (unat rest) =
          Some (take (unat rest) (drop (unat pos + unat k) xs))"
        using pos(1) rest kle by (intro load_sub[OF holds_load[OF th]]) auto
      then have "load m (str_data (obs this) + unat pos + unat k) (unat rest) = Some (drop (unat pos + unat k) xs)"
        using rest by (simp add: add.assoc)
      from cp[OF this, of "take (unat pos) xs @ ys" "p + unat pos + length ys"]
      have c3: "copy (p + unat pos + length ys) (str_data (obs this) + unat pos + unat k) rest
          (store m1 p (take (unat pos) xs @ ys)) w1 = Returns (store m1 p bs) w1"
        using bound pre by (simp add: bs_def del: length_take)
      note b = block(6)[OF bs(2)]
      obtain m' w' where del: "operator_delete_array e (str_data (obs this)) (store m1 p bs) w1 = Returns m' w'"
        "heap_inv (cx_libc e) live rt m' w'" "keeps_but live (str_data (obs this)) (store m1 p bs) w1 m' w'"
        by (rule delete_contract[of e live rt "store m1 p bs" w1 "obs this" xs]) (use b keeps_holds[OF _ th] in auto)
      have "apart \<lparr> str_size = new, str_data = p \<rparr> (obs this)"
        using block(2,7) th by (auto simp: apart_def holds_def split: if_splits)
      then have "holds live m' w' \<lparr> str_size = new, str_data = p \<rparr> bs" using keeps_but_holds[OF del(3)] b by blast
      moreover have "keeps_but live (str_data (obs this)) m w m' w'" using keeps_trans_but[OF _ del(3)] b by blast
      moreover have "string_replace e this pos n str (m, obs) w =
          Returns (m', obs(this := \<lparr> str_size = new, str_data = p \<rparr>)) w'"
        unfolding rep using False
        by (simp only: if_False block(1) andthen.simps prod.case c1 c2 c3 del(1))
      ultimately show ?thesis unfolding bs(1)[symmetric] using pos(1) del(2) block(7)
        by (intro disjI2 conjI updatedI[where s' = "\<lparr> str_size = new, str_data = p \<rparr>"]) auto
    qed
  qed
qed

lemma fill_contract:
  assumes inv: "heap_inv (cx_libc e) live rt m w" and n: "unat n + 32 < 2 ^ 64"
  shows "stops (string_fill e n c this (m, obs) w) \<and> out_of_memory e (Suc (unat n)) m w \<or>
    updated e live rt m obs w this (string_fill e n c this (m, obs) w) (replicate (unat n) c)"
proof (cases "n = 0")
  case True
  then show ?thesis using inv heap.block_mapped[OF inv]
    by (intro disjI2 updatedI[where s' = no_string])
      (auto simp: string_fill_def NewData_def no_string_def keeps_but_def holds_def)
next
  case False
  show ?thesis
    using inv False n
  proof (cases rule: NewData_contract)
    case no_memory
    then show ?thesis by (simp add: string_fill_def stops_andthen)
  next
    case (block p m1 w1)
    have "fill p c n m1 w1 = Returns (store m1 p (replicate (unat n) c)) w1"
      using mapped_mono[OF block(3), of "unat n"] by (simp add: fill_exact)
    then show ?thesis using block(1,7) block(6)[of "replicate (unat n) c"] False
      by (intro disjI2 updatedI[where s' = "\<lparr> str_size = n, str_data = p \<rparr>"])
        (auto simp: string_fill_def intro: keeps_keeps_but)
  qed
qed

text \<open>A formatter that prints an unsigned argument in decimal for \<open>%u\<close>, which takes an \<open>unsigned int\<close>: only the
  lower half of a 64-bit argument is seen.\<close>

definition prints_unsigned :: "formatter \<Rightarrow> bool" where
  "prints_unsigned tfp \<longleftrightarrow> (\<forall>m i. tfp m (lit ''%u'') [va_int i] = dec (nat (i mod 2 ^ 32)))"

lemma length_dec: "n < 10 ^ k \<Longrightarrow> 0 < k \<Longrightarrow> length (dec n) \<le> k"
proof (induction k arbitrary: n)
  case (Suc k)
  show ?case
  proof (cases "n < 10")
    case False
    with Suc.prems have "n div 10 < 10 ^ k" "0 < k" by (auto intro: Nat.gr0I)
    from Suc.IH[OF this] show ?thesis using False by (simp add: dec.simps[of n])
  qed (simp add: dec.simps[of n])
qed simp

lemma to_string_contract:
  fixes val :: u64 and m :: mem and buf :: ptr
  assumes inv: "heap_inv (cx_libc e) live rt m w" and buf: "mapped m buf 32" and fmt: "prints_unsigned (cx_tfp e)"
  defines "t \<equiv> dec (nat (uint val mod 2 ^ 32))"
  defines "m1 \<equiv> store m buf (t @ [0])"
  shows "stops (to_string e buf val res (m, obs) w) \<and> out_of_memory e (Suc (length t)) m1 w \<or>
    (\<exists>m' s' w'. to_string e buf val res (m, obs) w = Returns (m', obs(res := s')) w' \<and>
       heap_inv (cx_libc e) live rt m' w' \<and> holds live m' w' s' t \<and> keeps live m1 w m' w')"
proof -
  have "nat (uint val mod 2 ^ 32) < 10 ^ 10" by (simp add: nat_less_iff)
  then have t: "length t \<le> 10" "0 \<notin> set t"
    using length_dec[of _ 10] dec_chars[of 0] by (auto simp: t_def)
  have mp: "mapped m buf (Suc (length t))" using mapped_mono[OF buf] t(1) by simp
  have "sprintf (cx_tfp e) m buf (lit ''%u'') [va_int (uint val)] = Some (to_int (int (length t)), m1)"
    using vsprintf_exact[OF mp, of "cx_tfp e" "lit ''%u''" "[va_int (uint val)]"] fmt
    by (simp add: sprintf_def prints_unsigned_def t_def m1_def)
  moreover have "strlen m1 buf = Some (length t)"
    unfolding m1_def by (rule strlen_exact[OF cstr_store_same[OF t(2)]])
  ultimately have ts: "to_string e buf val res (m, obs) w = string_of e buf (word_of_nat (length t)) res (m1, obs) w"
    by (simp add: to_string_def string_of_cstr_def)
  have d: "dom m1 = dom m" unfolding m1_def using mp by (intro dom_store) simp
  then have "mapped m1 = mapped m" unfolding mapped_def fun_eq_iff by (auto simp: dom_def set_eq_iff)
  then have inv1: "heap_inv (cx_libc e) live rt m1 w" using inv d by (simp add: heap_inv_def)
  have n: "unat (word_of_nat (length t) :: u64) = length t" using t(1) by (simp add: unat_of_nat)
  have src: "load m1 buf (unat (word_of_nat (length t) :: u64)) = Some t"
    unfolding n m1_def using load_prefix[OF load_store_same[of m buf "t @ [0]"], of "length t"] by simp
  have "unat (word_of_nat (length t) :: u64) + 32 < 2 ^ 64" using n t(1) by simp
  note n32 = this
  show ?thesis
    using inv1 src n32
  proof (cases rule: string_of_contract[where this = res and obs = obs])
    case no_memory
    then show ?thesis by (simp add: ts n)
  next
    case (made m' s' w')
    then show ?thesis unfolding ts by blast
  qed
qed

section \<open>Comparison\<close>

definition has_bytes :: "mem \<Rightarrow> cxx_string \<Rightarrow> u8 list \<Rightarrow> bool" where
  "has_bytes m s bs \<longleftrightarrow> unat (str_size s) = length bs \<and> load m (str_data s) (length bs) = Some bs"

definition bytes_key :: "mem \<Rightarrow> cxx_string \<Rightarrow> int list \<Rightarrow> bool" where
  "bytes_key m s ks \<longleftrightarrow> (\<exists>bs. has_bytes m s bs \<and> ks = map sint bs)"

lemma lexordp_prefix:
  "ord_class.lexordp xs ys \<longleftrightarrow>
    (let k = min (length xs) (length ys) in
     ord_class.lexordp (take k xs) (take k ys) \<or> take k xs = take k ys \<and> length xs < length ys)"
  for xs ys :: "int list"
proof (induction xs arbitrary: ys)
  case Nil
  then show ?case by (cases ys) auto
next
  case (Cons x xs)
  then show ?case by (cases ys) (auto simp: Let_def)
qed

lemma take_min_eq: "xs = ys \<longleftrightarrow>
  (let k = min (length xs) (length ys) in take k xs = take k ys \<and> length xs = length ys)"
  by (auto simp: Let_def min_def)

lemma compare_string_bytes:
  assumes a: "has_bytes m a xs" and b: "has_bytes m b ys"
  shows "\<exists>r. compare_string m a b = Some r \<and>
    (r < 0 \<longleftrightarrow> ord_class.lexordp (map sint xs) (map sint ys)) \<and> (r = 0 \<longleftrightarrow> xs = ys)"
proof -
  define k where "k = min (length xs) (length ys)"
  define mn where "mn = (if str_size a \<le> str_size b then str_size a else str_size b)"
  have sz: "unat (str_size a) = length xs" "unat (str_size b) = length ys"
    using a b by (simp_all add: has_bytes_def)
  have mn: "unat mn = k" by (auto simp: mn_def k_def word_le_nat_alt sz)
  have "load m (str_data a) k = Some (take k xs)" "load m (str_data b) k = Some (take k ys)"
    using a b by (auto simp: has_bytes_def k_def intro: load_prefix)
  then have cmp: "memcmp m (str_data a) (str_data b) k = Some (diff (map sint (take k xs)) (map sint (take k ys)))"
    by (rule memcmp_diff)
  define d where "d = diff (map sint (take k xs)) (map sint (take k ys))"
  have d: "d < 0 \<longleftrightarrow> ord_class.lexordp (map sint (take k xs)) (map sint (take k ys))"
    "d = 0 \<longleftrightarrow> take k xs = take k ys"
    using diff_sign_blocks[of "map sint (take k xs)" "map sint (take k ys)"]
    by (auto simp: d_def k_def inj_map_eq_map inj_on_def)
  have "(if mn \<noteq> 0 then memcmp m (str_data a) (str_data b) (unat mn) else Some 0) = Some d"
    using cmp mn by (auto simp: d_def unat_eq_0)
  then have r: "compare_string m a b = Some (if d \<noteq> 0 then d else if str_size a < str_size b then - 1
      else if str_size a > str_size b then 1 else 0)"
    by (simp add: compare_string_def compare_data_def mn_def[symmetric] Let_def)
  have "ord_class.lexordp (map sint xs) (map sint ys) \<longleftrightarrow>
      d < 0 \<or> d = 0 \<and> length xs < length ys"
    using lexordp_prefix[of "map sint xs" "map sint ys"] d by (auto simp: Let_def k_def take_map)
  moreover have "xs = ys \<longleftrightarrow> d = 0 \<and> length xs = length ys"
    using take_min_eq[of xs ys] d(2) by (simp add: Let_def k_def)
  ultimately show ?thesis unfolding r by (auto simp: word_less_nat_alt sz)
qed

interpretation compare_string: c_comparator compare_string bytes_key
proof
  fix m p s q t assume "bytes_key m p s" "bytes_key m q t"
  then obtain xs ys where "has_bytes m p xs" "has_bytes m q ys" "s = map sint xs" "t = map sint ys"
    by (auto simp: bytes_key_def)
  moreover have "map sint xs = map sint ys \<longleftrightarrow> xs = ys" for xs ys :: "u8 list"
    by (simp add: inj_map_eq_map inj_on_def)
  ultimately show "\<exists>r. compare_string m p q = Some r \<and> (r < 0 \<longleftrightarrow> ord_class.lexordp s t) \<and> (r = 0 \<longleftrightarrow> s = t)"
    using compare_string_bytes[of m p xs q ys] by simp
qed

text \<open>Indexing a string: its bytes, and the terminator unless it is empty.\<close>

lemma string_at_index_holds:
  assumes "holds live m w s xs"
  shows "unat i < length xs \<Longrightarrow> string_at_index m s i = Some (xs ! unat i)"
    "unat i = length xs \<Longrightarrow> xs \<noteq> [] \<Longrightarrow> string_at_index m s i = Some 0"
    "xs = [] \<Longrightarrow> string_at_index m s i = m (NULL + unat i)"
  using assms by (auto simp: holds_def string_at_index_def load_iff nth_append split: if_splits simp del: load.simps)

text \<open>The temporary string of a comparison leaves no trace: all blocks are as before, and the
  result is that of the comparison with the C string's bytes.\<close>

lemma holds_has_bytes: "holds live m w s xs \<Longrightarrow> has_bytes m s xs"
proof -
  assume h: "holds live m w s xs"
  then have "unat (str_size s) = length xs" by (simp add: holds_def)
  with holds_load[OF h] show ?thesis by (simp add: has_bytes_def)
qed

lemma compare_cstr_contract:
  assumes inv: "heap_inv (cx_libc e) live rt m w" and s: "holds live m w (obs s) xs" and c: "cstr m data cs"
    and len: "length cs + 32 < 2 ^ 64" and ne: "tmp \<noteq> s"
  shows "stops (compare_cstr e test s data tmp (m, obs) w) \<and> out_of_memory e (Suc (length cs)) m w \<or>
    (\<exists>r m' w'. compare_cstr e test s data tmp (m, obs) w = Returns (test r, m', obs(tmp := no_string)) w' \<and>
       (r < 0 \<longleftrightarrow> ord_class.lexordp (map sint xs) (map sint cs)) \<and> (r = 0 \<longleftrightarrow> xs = cs) \<and>
       heap_inv (cx_libc e) live rt m' w' \<and> keeps live m w m' w')"
proof -
  have n: "unat (word_of_nat (length cs) :: u64) = length cs" using len by (simp add: unat_of_nat take_bit_nat_eq_self)
  have so: "string_of_cstr e data tmp (m, obs) w = string_of e data (word_of_nat (length cs)) tmp (m, obs) w"
    by (simp add: string_of_cstr_def strlen_exact[OF c])
  have src: "load m data (unat (word_of_nat (length cs) :: u64)) = Some cs" using c by (simp add: n cstr_iff)
  have "unat (word_of_nat (length cs) :: u64) + 32 < 2 ^ 64" using len n by simp
  note n32 = this
  show ?thesis
    using inv src n32
  proof (cases rule: string_of_contract[where this = tmp and obs = obs])
    case no_memory
    then show ?thesis by (simp add: compare_cstr_def so stops_andthen n)
  next
    case (made m1 s1 w1)
    obtain r where r: "compare_string m1 (obs s) s1 = Some r" "r < 0 \<longleftrightarrow> ord_class.lexordp (map sint xs) (map sint cs)"
      "r = 0 \<longleftrightarrow> xs = cs"
      using compare_string_bytes[OF holds_has_bytes[OF keeps_holds[OF made(4) s]] holds_has_bytes[OF made(3)]] by blast
    obtain m2 w2 where cl: "string_clear e tmp (m1, obs(tmp := s1)) w1 = Returns (m2, obs(tmp := no_string)) w2"
      "heap_inv (cx_libc e) live rt m2 w2" "keeps_but live (str_data s1) m1 w1 m2 w2"
      by (rule clear_contract[of e live rt m1 w1 "obs(tmp := s1)" tmp cs]) (use made in auto)
    have "keeps live m w m2 w2"
      using made(4,5) cl(3) by (auto simp: keeps_def keeps_but_def simp del: load.simps)
    then show ?thesis using made(1) r cl(1,2) ne by (simp add: compare_cstr_def so) blast
  qed
qed

section \<open>Aliasing\<close>

lemma memcpy_loop_unmapped: "i < n \<Longrightarrow> m (dst + i) = None \<Longrightarrow> memcpy_loop m dst src n = None"
proof (induction n arbitrary: m dst src i)
  case (Suc n)
  show ?case
  proof (cases "i = 0 \<or> m src = None \<or> m dst = None")
    case False
    then obtain b j where "m src = Some b" "i = Suc j" by (cases i) auto
    moreover have "memcpy_loop (m(dst \<mapsto> b)) (Suc dst) (Suc src) n = None"
      using Suc.prems \<open>i = Suc j\<close> by (intro Suc.IH[of j]) auto
    ultimately show ?thesis using False by auto
  qed (use Suc.prems in \<open>auto split: option.splits\<close>)
qed simp

section \<open>Properties\<close>

text \<open>
  C34. \<open>std::string\<close> on the library's heap: assignment gives an object the bytes of the other one,
  \<open>append\<close> adds them at the end, \<open>replace\<close> puts them in place of a range cut off at the end, and
  \<open>substr\<close> makes an object of a range. Each makes a new terminated block and keeps the heap in order and all
other objects as they are, or ends the program, which it does only when \<open>malloc\<close> has no block of
  the new size or the position is beyond the end.
\<close>

theorem string_operations:
  assumes "heap_inv (cx_libc e) live rt m w" "holds live m w (obs this) xs" "holds live m w (obs other) ys"
    "apart (obs other) (obs this)" "other \<noteq> this" "length xs + length ys + 32 < 2 ^ 64"
  shows "(stops (string_assign e this other (m, obs) w) \<and>
        (\<exists>m1 w1. string_clear e this (m, obs) w = Returns (m1, obs(this := no_string)) w1 \<and>
          out_of_memory e (Suc (length ys)) m1 w1) \<or>
      (\<exists>m' s' w'. string_assign e this other (m, obs) w = Returns (m', obs(this := s')) w' \<and>
        heap_inv (cx_libc e) live rt m' w' \<and> holds live m' w' s' ys \<and> holds live m' w' (obs other) ys \<and>
        keeps_but live (str_data (obs this)) m w m' w')) \<and>
    (stops (string_append e this other (m, obs) w) \<and> out_of_memory e (Suc (length xs + length ys)) m w \<or>
      updated e live rt m obs w this (string_append e this other (m, obs) w) (xs @ ys)) \<and>
    (stops (string_replace e this pos n other (m, obs) w) \<and>
        (length xs < unat pos \<or>
         out_of_memory e (Suc (length xs + length ys - min (unat n) (length xs - unat pos))) m w) \<or>
      unat pos \<le> length xs \<and>
      updated e live rt m obs w this (string_replace e this pos n other (m, obs) w)
        (take (unat pos) xs @ ys @ drop (unat pos + unat n) xs)) \<and>
    (stops (string_substr e this pos n res (m, obs) w) \<and>
        (length xs < unat pos \<or> out_of_memory e (Suc (min (unat n) (length xs - unat pos))) m w) \<or>
      unat pos \<le> length xs \<and>
      updated e live rt m obs w res (string_substr e this pos n res (m, obs) w) (take (unat n) (drop (unat pos) xs)))"
proof (intro conjI)
  have l: "length ys + 32 < 2 ^ 64" "length xs + 32 < 2 ^ 64" using assms(6) by auto
  show "stops (string_assign e this other (m, obs) w) \<and>
        (\<exists>m1 w1. string_clear e this (m, obs) w = Returns (m1, obs(this := no_string)) w1 \<and>
          out_of_memory e (Suc (length ys)) m1 w1) \<or>
      (\<exists>m' s' w'. string_assign e this other (m, obs) w = Returns (m', obs(this := s')) w' \<and>
        heap_inv (cx_libc e) live rt m' w' \<and> holds live m' w' s' ys \<and> holds live m' w' (obs other) ys \<and>
        keeps_but live (str_data (obs this)) m w m' w')"
    by (rule assign_contract[of e live rt m w obs this xs other ys]) (use assms l in \<open>blast+\<close>)
  show "stops (string_append e this other (m, obs) w) \<and> out_of_memory e (Suc (length xs + length ys)) m w \<or>
      updated e live rt m obs w this (string_append e this other (m, obs) w) (xs @ ys)"
    by (rule append_contract[of e live rt m w obs this xs other ys]) (use assms in auto)
  show "stops (string_replace e this pos n other (m, obs) w) \<and>
        (length xs < unat pos \<or>
         out_of_memory e (Suc (length xs + length ys - min (unat n) (length xs - unat pos))) m w) \<or>
      unat pos \<le> length xs \<and>
      updated e live rt m obs w this (string_replace e this pos n other (m, obs) w)
        (take (unat pos) xs @ ys @ drop (unat pos + unat n) xs)"
    by (rule replace_contract[of e live rt m w obs this xs other ys]) (use assms in auto)
  show "stops (string_substr e this pos n res (m, obs) w) \<and>
        (length xs < unat pos \<or> out_of_memory e (Suc (min (unat n) (length xs - unat pos))) m w) \<or>
      unat pos \<le> length xs \<and>
      updated e live rt m obs w res (string_substr e this pos n res (m, obs) w) (take (unat n) (drop (unat pos) xs))"
    by (rule substr_contract[of e live rt m w obs this xs]) (use assms l in auto)
qed

theorem string_operations_witness:
  "stops (string_append example_cxx 0 1 (\<lambda>_. None, \<lambda>_. no_string) (5, [])) \<or>
   (\<exists>m' obs' w'. string_append example_cxx 0 1 (\<lambda>_. None, \<lambda>_. no_string) (5, []) = Returns (m', obs') w' \<and>
      holds (\<lambda>w. set (snd w)) m' w' (obs' 0) [])"
proof -
  have "heap_inv (cx_libc example_cxx) (\<lambda>w. set (snd w)) bump_rt (\<lambda>_. None) (5, [])"
    unfolding example_cxx_def cxx_env.simps by (rule bump_heap_inv) auto
  from string_operations[OF this, of "\<lambda>_. no_string" 0 "[]" 1 "[]" 0 0 0] show ?thesis
    by (auto simp: apart_def no_string_def[of] updated_def holds_def simp del: split_paired_Ex)
qed

text \<open>
  The comparison operators decide the lexicographic order of the strings as signed bytes, a
  proper prefix being smaller: \<open>compare\<close> is negative, zero or positive as the first is smaller, equal or
  greater, and \<open>==\<close> and \<open><\<close> agree with it, also for strings with NUL bytes inside.
\<close>

theorem string_compare:
  assumes "has_bytes m a xs" "has_bytes m b ys"
  shows "\<exists>r. compare_string m a b = Some r \<and> (r < 0 \<longleftrightarrow> ord_class.lexordp (map sint xs) (map sint ys)) \<and>
    (r > 0 \<longleftrightarrow> ord_class.lexordp (map sint ys) (map sint xs)) \<and>
    string_eq m a b = Some (xs = ys) \<and> string_less m a b = Some (ord_class.lexordp (map sint xs) (map sint ys))"
proof -
  have k: "bytes_key m a (map sint xs)" "bytes_key m b (map sint ys)"
    using assms by (auto simp: bytes_key_def)
  obtain r where r: "compare_string m a b = Some r" "r < 0 \<longleftrightarrow> ord_class.lexordp (map sint xs) (map sint ys)"
    "r = 0 \<longleftrightarrow> xs = ys" using compare_string_bytes[OF assms] by blast
  with compare_string.cmp_pos[OF k r(1)] show ?thesis by (simp add: string_eq_def string_less_def)
qed

theorem string_compare_witness:
  "string_less (bytes_at 8 [97, 0, 98]) \<lparr> str_size = 1, str_data = 8 \<rparr> \<lparr> str_size = 3, str_data = 8 \<rparr> = Some True"
proof -
  let ?m = "bytes_at 8 [97, 0, 98]"
  have l: "ord_class.lexordp (map sint [97 :: u8]) (map sint [97 :: u8, 0, 98])" by code_simp
  have "has_bytes ?m \<lparr> str_size = 1, str_data = 8 \<rparr> [97]" "has_bytes ?m \<lparr> str_size = 3, str_data = 8 \<rparr> [97, 0, 98]"
    by code_simp+
  from string_compare[OF this] show ?thesis using l by auto
qed

text \<open>
  C35. An object given to itself: assigning a string to itself makes it empty; appending a string of
  two bytes or more to itself copies twice its length to its middle, because the size of the
  argument is read after the object has grown, so that the copy leaves the block (and is
  undefined when the bytes after it are not mapped).
\<close>

theorem string_self:
  assumes "heap_inv (cx_libc e) live rt m w" "holds live m w (obs this) xs" "2 * length xs + 32 < 2 ^ 64" "2 \<le> length xs"
  shows "(\<exists>m' w'. string_assign e this this (m, obs) w = Returns (m', obs(this := no_string)) w') \<and>
    (stops (string_append e this this (m, obs) w) \<and> out_of_memory e (Suc (2 * length xs)) m w \<or>
      (\<exists>m' s' w'. malloc_block live m' w' (str_data s') (2 * length xs + 1) \<and>
        string_append e this this (m, obs) w =
          andthen (copy (str_data s' + length xs) (str_data s') (word_of_nat (2 * length xs)) m' w')
            (\<lambda>m w. Returns (m, obs(this := s')) w) \<and>
        (m' (str_data s' + 2 * length xs + 1) = None \<longrightarrow> string_append e this this (m, obs) w = Faults)))"
proof
  define n where "n = str_size (obs this) + str_size (obs this)"
  have sz: "unat (str_size (obs this)) = length xs" using assms(2) by (simp add: holds_def)
  have n: "unat n = 2 * length xs" using assms(3) sz by (simp add: n_def unat_word_ariths)
  obtain m1 w1 where "string_clear e this (m, obs) w = Returns (m1, obs(this := no_string)) w1"
    by (rule clear_contract[of e live rt m w obs this xs, OF assms(1,2)])
  then have "string_assign e this this (m, obs) w = Returns (m1, obs(this := no_string)) w1"
    by (simp add: string_assign_def NewData_def no_string_def Let_def)
  then show "\<exists>m' w'. string_assign e this this (m, obs) w = Returns (m', obs(this := no_string)) w'" by blast
  define r where "r = string_resize e this n 0 (m, obs) w"
  have "stops r \<and> out_of_memory e (Suc (2 * length xs)) m w \<or>
      updated e live rt m obs w this r (xs @ replicate (length xs) 0)"
    using resize_contract[of e live rt m w obs this xs n 0, OF assms(1,2)] assms(3) by (simp add: r_def n)
  then show "stops (string_append e this this (m, obs) w) \<and> out_of_memory e (Suc (2 * length xs)) m w \<or>
      (\<exists>m' s' w'. malloc_block live m' w' (str_data s') (2 * length xs + 1) \<and>
        string_append e this this (m, obs) w =
          andthen (copy (str_data s' + length xs) (str_data s') (word_of_nat (2 * length xs)) m' w')
            (\<lambda>m w. Returns (m, obs(this := s')) w) \<and>
        (m' (str_data s' + 2 * length xs + 1) = None \<longrightarrow> string_append e this this (m, obs) w = Faults))"
  proof
    assume "stops r \<and> out_of_memory e (Suc (2 * length xs)) m w"
    then show ?thesis by (simp add: string_append_def r_def n_def stops_andthen)
  next
    assume "updated e live rt m obs w this r (xs @ replicate (length xs) 0)"
    then obtain m' s' w' where r: "r = Returns (m', obs(this := s')) w'"
      "holds live m' w' s' (xs @ replicate (length xs) 0)" by (auto simp: updated_def)
    have s': "str_size s' = word_of_nat (2 * length xs)"
    proof -
      have "unat (str_size s') = 2 * length xs" using r(2) by (simp add: holds_def)
      moreover have "word_of_nat (unat (str_size s')) = str_size s'" by simp
      ultimately show ?thesis by (simp only:)
    qed
    have b: "malloc_block live m' w' (str_data s') (2 * length xs + 1)"
      using r(2) assms(4) by (auto simp: holds_def mult_2 split: if_splits)
    have app: "string_append e this this (m, obs) w =
        andthen (copy (str_data s' + length xs) (str_data s') (word_of_nat (2 * length xs)) m' w')
          (\<lambda>m w. Returns (m, obs(this := s')) w)"
      using r(1) by (simp add: string_append_def r_def n_def sz s')
    have "copy (str_data s' + length xs) (str_data s') (word_of_nat (2 * length xs)) m' w' = Faults"
      if "m' (str_data s' + 2 * length xs + 1) = None"
    proof -
      have "unat (word_of_nat (2 * length xs) :: u64) = 2 * length xs"
        using n r(2) s' by (simp add: holds_def)
      moreover have "memcpy_loop m' (str_data s' + length xs) (str_data s') (2 * length xs) = None"
        by (rule memcpy_loop_unmapped[of "length xs + 1"]) (use that assms(4) in \<open>simp_all add: mult_2 add.assoc\<close>)
      ultimately show ?thesis by (simp add: copy_def memcpy_def)
    qed
    with app b show ?thesis by auto
  qed
qed


theorem string_self_witness:
  "\<exists>m w obs. holds (\<lambda>w. set (snd w)) m w (obs 0) [97, 98, 99] \<and>
    (\<exists>m' w'. string_assign example_cxx 0 0 (m, obs) w = Returns (m', obs(0 := no_string)) w')"
proof -
  let ?live = "\<lambda>w :: bump. set (snd w)"
  obtain p m w where b: "p \<noteq> NULL" "heap_inv bump_libc ?live bump_rt m w" "malloc_block ?live m w p 4"
    using bump_malloc_example by blast
  define m' where "m' = store m p [97, 98, 99, 0]"
  define obs where "obs = (\<lambda>_ :: nat. \<lparr> str_size = 3, str_data = p \<rparr>)"
  have m': "heap_inv (cx_libc example_cxx) ?live bump_rt m' w" "malloc_block ?live m' w p 4"
    using heap.write_block[OF b(2,3), of 0 "[97, 98, 99, 0]"] b(3) by (auto simp: m'_def example_cxx_def)
  have "load m' p (length [97 :: u8, 98, 99, 0]) = Some [97, 98, 99, 0]" unfolding m'_def by (rule load_store_same)
  moreover have "malloc_block ?live m' w p (Suc (length [97 :: u8, 98, 99]))" using m'(2) by (simp add: eval_nat_numeral)
  ultimately have h: "holds ?live m' w (obs 0) [97, 98, 99]"
    by (simp add: holds_def obs_def del: load.simps)
  have "\<exists>m'' w'. string_assign example_cxx 0 0 (m', obs) w = Returns (m'', obs(0 := no_string)) w'"
    by (rule conjunct1[OF string_self[of example_cxx ?live bump_rt m' w obs 0, OF m'(1) h]]) simp_all
  with h show ?thesis by blast
qed

end
