(* ===== verification/Cxx_Memory.thy ===== *)
theory Cxx_Memory
  imports Cxx_Runtime
begin

text \<open>
  \<open>cxx/include/memory\<close>: \<open>unique_ptr\<close> and \<open>make_unique\<close> over \<open>operator new\<close> and \<open>operator delete\<close>. The
  objects live in a store from names to the pointers they hold; a name that is not in it has no
  object. The type pointed to is given by its size, its constructor and its destructor.
\<close>

section \<open>The code\<close>

type_synonym unique_ptrs = "nat \<rightharpoonup> ptr"

type_synonym 'w xtor = "ptr \<Rightarrow> mem \<Rightarrow> 'w \<Rightarrow> (mem, 'w) outcome"

text \<open>The expressions \<open>delete ptr\<close> and \<open>new T\<close>.\<close>

definition default_delete :: "'w cxx_env \<Rightarrow> 'w xtor \<Rightarrow> ptr \<Rightarrow> mem \<Rightarrow> 'w \<Rightarrow> (mem, 'w) outcome" where
  "default_delete e dtor p m w =
     (if p \<noteq> NULL then andthen (dtor p m w) (\<lambda>m w. operator_delete e p m w) else Returns m w)"

definition new_object :: "'w cxx_env \<Rightarrow> u64 \<Rightarrow> 'w xtor \<Rightarrow> mem \<Rightarrow> 'w \<Rightarrow> (ptr \<times> mem, 'w) outcome" where
  "new_object e sz ctor m w =
     andthen (operator_new e sz m w) (\<lambda>(p, m) w. andthen (ctor p m w) (\<lambda>m w. Returns (p, m) w))"

definition unique_ptr :: "ptr \<Rightarrow> nat \<Rightarrow> unique_ptrs \<Rightarrow> unique_ptrs" where
  "unique_ptr t this obs = obs(this \<mapsto> t)"

definition unique_release :: "nat \<Rightarrow> unique_ptrs \<Rightarrow> (ptr \<times> unique_ptrs) option" where
  "unique_release this obs = do {
     p \<leftarrow> obs this;
     Some (p, obs(this \<mapsto> NULL)) }"

definition unique_move :: "nat \<Rightarrow> nat \<Rightarrow> unique_ptrs \<Rightarrow> unique_ptrs option" where
  "unique_move other this obs = do {
     (p, obs) \<leftarrow> unique_release other obs;
     Some (obs(this \<mapsto> p)) }"

definition unique_assign :: "nat \<Rightarrow> nat \<Rightarrow> unique_ptrs \<Rightarrow> unique_ptrs option" where
  "unique_assign this other obs = do {
     (p, obs) \<leftarrow> unique_release other obs;
     _ \<leftarrow> obs this;
     Some (obs(this \<mapsto> p)) }"

definition unique_reset ::
  "'w cxx_env \<Rightarrow> 'w xtor \<Rightarrow> nat \<Rightarrow> ptr \<Rightarrow> mem \<times> unique_ptrs \<Rightarrow> 'w \<Rightarrow> (mem \<times> unique_ptrs, 'w) outcome" where
  "unique_reset e dtor this p = (\<lambda>(m, obs) w.
     case obs this of None \<Rightarrow> Faults
     | Some old \<Rightarrow>
         andthen (if old \<noteq> NULL then default_delete e dtor old m w else Returns m w) (\<lambda>m w.
           Returns (m, obs(this \<mapsto> p)) w))"

definition unique_destroy ::
  "'w cxx_env \<Rightarrow> 'w xtor \<Rightarrow> nat \<Rightarrow> mem \<times> unique_ptrs \<Rightarrow> 'w \<Rightarrow> (mem \<times> unique_ptrs, 'w) outcome" where
  "unique_destroy e dtor this s w =
     andthen (unique_reset e dtor this NULL s w) (\<lambda>(m, obs) w. Returns (m, obs(this := None)) w)"

definition make_unique ::
  "'w cxx_env \<Rightarrow> u64 \<Rightarrow> 'w xtor \<Rightarrow> nat \<Rightarrow> mem \<times> unique_ptrs \<Rightarrow> 'w \<Rightarrow> (mem \<times> unique_ptrs, 'w) outcome" where
  "make_unique e sz ctor this = (\<lambda>(m, obs) w.
     andthen (new_object e sz ctor m w) (\<lambda>(p, m) w. Returns (m, unique_ptr p this obs) w))"

section \<open>A program that uses them\<close>

text \<open>
  The state of a program: memory, objects, the pointers it holds itself (from \<open>new\<close> or \<open>release\<close>),
  the blocks it can no longer reach through either, and the world. The program gives an
  object only pointers that it holds itself, and deletes only those. An assignment to an object that
  holds a pointer loses that pointer.
\<close>

type_synonym 'w up_state = "mem \<times> unique_ptrs \<times> ptr set \<times> ptr set \<times> 'w"

definition held :: "ptr \<Rightarrow> ptr set" where "held p = (if p = NULL then {} else {p})"

inductive up_step :: "'w cxx_env \<Rightarrow> u64 \<Rightarrow> 'w xtor \<Rightarrow> 'w xtor \<Rightarrow> 'w up_state \<Rightarrow> 'w up_state \<Rightarrow> bool"
  for e sz ctor dtor where
  New: "new_object e sz ctor m w = Returns (p, m') w' \<Longrightarrow>
    up_step e sz ctor dtor (m, obs, raw, lost, w) (m', obs, insert p raw, lost, w')"
| Delete: "p \<in> raw \<Longrightarrow> default_delete e dtor p m w = Returns m' w' \<Longrightarrow>
    up_step e sz ctor dtor (m, obs, raw, lost, w) (m', obs, raw - {p}, lost, w')"
| Make: "obs this = None \<Longrightarrow> make_unique e sz ctor this (m, obs) w = Returns (m', obs') w' \<Longrightarrow>
    up_step e sz ctor dtor (m, obs, raw, lost, w) (m', obs', raw, lost, w')"
| Construct: "obs this = None \<Longrightarrow> p = NULL \<or> p \<in> raw \<Longrightarrow>
    up_step e sz ctor dtor (m, obs, raw, lost, w) (m, unique_ptr p this obs, raw - {p}, lost, w)"
| Move: "obs this = None \<Longrightarrow> unique_move other this obs = Some obs' \<Longrightarrow>
    up_step e sz ctor dtor (m, obs, raw, lost, w) (m, obs', raw, lost, w)"
| Assign: "obs this = Some old \<Longrightarrow> unique_assign this other obs = Some obs' \<Longrightarrow>
    up_step e sz ctor dtor (m, obs, raw, lost, w)
      (m, obs', raw, lost \<union> (if this = other then {} else held old), w)"
| Release: "unique_release this obs = Some (p, obs') \<Longrightarrow>
    up_step e sz ctor dtor (m, obs, raw, lost, w) (m, obs', raw \<union> held p, lost, w)"
| Reset: "p = NULL \<or> p \<in> raw \<Longrightarrow> unique_reset e dtor this p (m, obs) w = Returns (m', obs') w' \<Longrightarrow>
    up_step e sz ctor dtor (m, obs, raw, lost, w) (m', obs', raw - {p}, lost, w')"
| Destroy: "unique_destroy e dtor this (m, obs) w = Returns (m', obs') w' \<Longrightarrow>
    up_step e sz ctor dtor (m, obs, raw, lost, w) (m', obs', raw, lost, w')"

inductive_cases up_stepE: "up_step e sz ctor dtor s t"

definition owned :: "unique_ptrs \<Rightarrow> ptr set" where
  "owned obs = {p. p \<noteq> NULL \<and> (\<exists>i. obs i = Some p)}"

definition one_owner :: "unique_ptrs \<Rightarrow> bool" where
  "one_owner obs \<longleftrightarrow> (\<forall>i j p. obs i = Some p \<and> obs j = Some p \<and> p \<noteq> NULL \<longrightarrow> i = j)"

text \<open>Every block has one owner: an object, the program, or nobody.\<close>

definition up_inv ::
  "'w cxx_env \<Rightarrow> ('w \<Rightarrow> (ptr \<times> nat) set) \<Rightarrow> (ptr set \<Rightarrow> 'w \<Rightarrow> bool) \<Rightarrow> 'w up_state \<Rightarrow> bool" where
  "up_inv e live rt = (\<lambda>(m, obs, raw, lost, w). heap_inv (cx_libc e) live rt m w \<and> one_owner obs \<and>
     addresses (malloc_block live m w) = owned obs \<union> raw \<union> lost \<and>
     owned obs \<inter> raw = {} \<and> (owned obs \<union> raw) \<inter> lost = {})"

text \<open>Constructors and destructors that return, and do not allocate or release.\<close>

definition quiet :: "'w cxx_env \<Rightarrow> ('w \<Rightarrow> (ptr \<times> nat) set) \<Rightarrow> (ptr set \<Rightarrow> 'w \<Rightarrow> bool) \<Rightarrow> 'w xtor \<Rightarrow> bool" where
  "quiet e live rt f \<longleftrightarrow> (\<forall>p m w k. heap_inv (cx_libc e) live rt m w \<longrightarrow> malloc_block live m w p k \<longrightarrow>
     (\<exists>m' w'. f p m w = Returns m' w' \<and> heap_inv (cx_libc e) live rt m' w' \<and>
        malloc_block live m' w' = malloc_block live m w))"

section \<open>Blocks\<close>

lemma addressesI: "malloc_block live m w p k \<Longrightarrow> p \<in> addresses (malloc_block live m w)"
  by (auto simp: addresses_def)

lemma new_object_blocks:
  assumes inv: "heap_inv (cx_libc e) live rt m w" and q: "quiet e live rt ctor" and sz: "unat sz + 31 < 2 ^ 64"
    and new: "new_object e sz ctor m w = Returns (p, m') w'"
  shows "heap_inv (cx_libc e) live rt m' w' \<and> p \<noteq> NULL \<and> p \<notin> addresses (malloc_block live m w) \<and>
    addresses (malloc_block live m' w') = insert p (addresses (malloc_block live m w))"
proof -
  define n where "n = (if sz = 0 then 1 else sz)"
  have n: "0 < unat n" "unat n + 31 < 2 ^ 64" using sz by (auto simp: n_def unat_gt_0)
  obtain m1 w1 where mal: "malloc (cx_libc e) n m w = Some (p, m1, w1)" "p \<noteq> NULL" "ctor p m1 w1 = Returns m' w'"
    using new by (auto simp: new_object_def operator_new_def n_def[symmetric] andthen_Returns_iff cxx_assert_Returns_iff
        split: option.splits)
  note b = exact.alloc_blocks[OF inv n mal(1)]
  obtain k where "malloc_block live m1 w1 p k" using b mal(2) by blast
  then have "heap_inv (cx_libc e) live rt m' w'" "malloc_block live m' w' = malloc_block live m1 w1"
    using q b mal(3) unfolding quiet_def by fastforce+
  then show ?thesis using b mal(2) by simp
qed

lemma delete_blocks:
  assumes inv: "heap_inv (cx_libc e) live rt m w" and q: "quiet e live rt dtor"
    and p: "p \<in> addresses (malloc_block live m w)"
  shows "\<exists>m' w'. default_delete e dtor p m w = Returns m' w' \<and> heap_inv (cx_libc e) live rt m' w' \<and>
    addresses (malloc_block live m' w') = addresses (malloc_block live m w) - {p}"
proof -
  obtain k where k: "malloc_block live m w p k" using p by (auto simp: addresses_def)
  then obtain m1 w1 where d: "dtor p m w = Returns m1 w1" "heap_inv (cx_libc e) live rt m1 w1"
    "malloc_block live m1 w1 = malloc_block live m w" using q inv unfolding quiet_def by blast
  moreover have "malloc_block live m1 w1 p k" using k d(3) by simp
  ultimately show ?thesis
    using exact.release_blocks[of "cx_libc e" live rt m1 w1 p k] heap.block_mapped[OF inv k]
    by (auto simp: default_delete_def operator_delete_def)
qed

section \<open>Owners\<close>

definition has :: "ptr option \<Rightarrow> ptr set" where
  "has x = (case x of None \<Rightarrow> {} | Some p \<Rightarrow> held p)"

lemma has_simps [simp]: "has None = {}" "has (Some p) = held p" "held NULL = {}"
  by (simp_all add: has_def held_def)

lemma mem_has: "p \<in> has x \<longleftrightarrow> p \<noteq> NULL \<and> x = Some p"
  by (auto simp: has_def held_def split: option.splits)

lemma mem_owned: "p \<in> owned obs \<longleftrightarrow> p \<noteq> NULL \<and> (\<exists>i. obs i = Some p)"
  by (simp add: owned_def)

lemma owned_upd: "one_owner obs \<Longrightarrow> owned (obs(i := x)) = owned obs - has (obs i) \<union> has x"
  unfolding set_eq_iff Un_iff Diff_iff mem_has mem_owned one_owner_def fun_upd_apply by metis

lemma one_owner_upd:
  assumes "one_owner obs" "has x \<inter> (owned obs - has (obs i)) = {}"
  shows "one_owner (obs(i := x))"
proof -
  have "x \<noteq> Some p" if "j \<noteq> i" "obs j = Some p" "p \<noteq> NULL" for j p
  proof
    assume "x = Some p"
    then have "p \<in> has x" "p \<in> owned obs" "p \<notin> has (obs i)"
      using that assms(1) unfolding mem_has mem_owned one_owner_def by blast+
    with assms(2) show False by blast
  qed
  with assms(1) show ?thesis unfolding one_owner_def fun_upd_apply by metis
qed

lemma has_owned: "has (obs i) \<subseteq> owned obs"
  by (auto simp: mem_has mem_owned)

lemma up_inv_NULL: "up_inv e live rt (m, obs, raw, lost, w) \<Longrightarrow> NULL \<notin> raw"
proof -
  assume i: "up_inv e live rt (m, obs, raw, lost, w)"
  then have "\<not> malloc_block live m w NULL k" for k
    using heap.block_mapped[of "cx_libc e" live rt m w NULL k] by (auto simp: up_inv_def)
  then have "NULL \<notin> addresses (malloc_block live m w)" by (simp add: addresses_def)
  with i show ?thesis by (auto simp: up_inv_def)
qed

lemma held_owned: "obs i = Some p \<Longrightarrow> held p \<subseteq> owned obs"
  using has_owned[of obs i] by simp

text \<open>Moving a pointer from one object to another.\<close>

lemma moved:
  assumes one: "one_owner obs" and mv: "unique_release other obs = Some (p, obs1)"
  shows "one_owner (obs1(this \<mapsto> p))"
    "owned (obs1(this \<mapsto> p)) = owned obs - (if this = other then {} else has (obs this))"
proof -
  have o: "obs other = Some p" "obs1 = obs(other \<mapsto> NULL)"
    using mv by (auto simp: unique_release_def bind_eq_Some_conv)
  have one1: "one_owner obs1" and own1: "owned obs1 = owned obs - held p"
    using o one by (auto intro!: one_owner_upd simp: owned_upd)
  show "one_owner (obs1(this \<mapsto> p))" by (rule one_owner_upd[OF one1]) (auto simp: own1)
  have "has (obs this) \<inter> held p = {}" if "this \<noteq> other"
    using one o(1) that by (auto simp: one_owner_def has_def held_def split: option.splits if_splits)
  moreover have "has (obs1 this) = (if this = other then {} else has (obs this))" by (simp add: o(2))
  ultimately show "owned (obs1(this \<mapsto> p)) = owned obs - (if this = other then {} else has (obs this))"
    using held_owned[of obs other p] o(1) owned_upd[OF one1, of this "Some p"] by (auto simp: own1)
qed

text \<open>A move assignment to an object that holds a pointer: no object holds that pointer any more.\<close>

lemma unique_assign_leaks:
  assumes "one_owner obs" "unique_assign this other obs = Some obs'" "obs this = Some old" "old \<noteq> NULL" "this \<noteq> other"
  shows "old \<notin> owned obs'"
proof -
  obtain p obs1 where "unique_release other obs = Some (p, obs1)" "obs' = obs1(this \<mapsto> p)"
    using assms(2) by (auto simp: unique_assign_def bind_eq_Some_conv)
  then show ?thesis using moved(2)[OF assms(1), of other p obs1 this] assms(3-5) by (simp add: held_def)
qed

lemma reset_contract:
  assumes inv: "up_inv e live rt (m, obs, raw, lost, w)" and q: "quiet e live rt dtor"
    and p: "p = NULL \<or> p \<in> raw" and al: "obs this \<noteq> None"
  shows "\<exists>m' w'. unique_reset e dtor this p (m, obs) w = Returns (m', obs(this \<mapsto> p)) w' \<and>
    up_inv e live rt (m', obs(this \<mapsto> p), raw - {p}, lost, w') \<and>
    addresses (malloc_block live m' w') = addresses (malloc_block live m w) - has (obs this)"
proof -
  have i: "heap_inv (cx_libc e) live rt m w" "one_owner obs"
    "addresses (malloc_block live m w) = owned obs \<union> raw \<union> lost"
    "owned obs \<inter> raw = {}" "(owned obs \<union> raw) \<inter> lost = {}"
    using inv by (auto simp: up_inv_def)
  obtain old where old: "obs this = Some old" using al by blast
  have "\<exists>m' w'. (if old \<noteq> NULL then default_delete e dtor old m w else Returns m w) = Returns m' w' \<and>
      heap_inv (cx_libc e) live rt m' w' \<and>
      addresses (malloc_block live m' w') = addresses (malloc_block live m w) - held old"
  proof (cases "old = NULL")
    case False
    then show ?thesis using delete_blocks[OF i(1) q, of old] held_owned[of obs this old] old i(3)
      by (auto simp: held_def)
  qed (use i in simp)
  then obtain m' w' where d: "unique_reset e dtor this p (m, obs) w = Returns (m', obs(this \<mapsto> p)) w'"
    "heap_inv (cx_libc e) live rt m' w'"
    "addresses (malloc_block live m' w') = addresses (malloc_block live m w) - held old"
    using old by (auto simp: unique_reset_def)
  have h: "held p \<subseteq> raw" "held old \<subseteq> owned obs"
    using p held_owned[of obs this old] old by (auto simp: held_def)
  note z = up_inv_NULL[OF inv]
  have "one_owner (obs(this \<mapsto> p))" using i h old by (intro one_owner_upd) auto
  moreover have "owned (obs(this \<mapsto> p)) = owned obs - held old \<union> held p"
    using owned_upd[OF i(2), of this "Some p"] old by simp
  ultimately show ?thesis using d i h z old by (intro exI[of _ m'] exI[of _ w']) (auto simp: up_inv_def held_def split: if_splits)
qed

lemma destroy_contract:
  assumes inv: "up_inv e live rt (m, obs, raw, lost, w)" and q: "quiet e live rt dtor" and al: "obs this \<noteq> None"
  shows "\<exists>m' w'. unique_destroy e dtor this (m, obs) w = Returns (m', obs(this := None)) w' \<and>
    up_inv e live rt (m', obs(this := None), raw, lost, w') \<and>
    addresses (malloc_block live m' w') = addresses (malloc_block live m w) - has (obs this)"
proof -
  obtain m' w' where r: "unique_reset e dtor this NULL (m, obs) w = Returns (m', obs(this \<mapsto> NULL)) w'"
    "up_inv e live rt (m', obs(this \<mapsto> NULL), raw - {NULL}, lost, w')"
    "addresses (malloc_block live m' w') = addresses (malloc_block live m w) - has (obs this)"
    using reset_contract[OF inv q _ al, of NULL] by blast
  note up_inv_NULL[OF inv]
  moreover have "one_owner (obs(this \<mapsto> NULL))" using r(2) by (simp add: up_inv_def)
  then have "one_owner (obs(this := None))" "owned (obs(this := None)) = owned (obs(this \<mapsto> NULL))"
    using one_owner_upd[of "obs(this \<mapsto> NULL)" None this] owned_upd[of "obs(this \<mapsto> NULL)" this None] by simp_all
  ultimately show ?thesis using r by (auto simp: unique_destroy_def up_inv_def)
qed

lemma up_step_inv:
  assumes "up_step e sz ctor dtor s t" "up_inv e live rt s" "quiet e live rt ctor" "quiet e live rt dtor" "unat sz + 31 < 2 ^ 64"
  shows "up_inv e live rt t"
  using assms(1)
proof (cases rule: up_step.cases)
  case (New m w p m' w' obs raw lost)
  then show ?thesis using new_object_blocks[of e live rt m w ctor sz p m' w'] assms by (auto simp: up_inv_def)
next
  case (Delete p raw m w m' w' obs lost)
  then show ?thesis using delete_blocks[of e live rt m w dtor p] assms by (auto simp: up_inv_def)
next
  case (Make obs this m w m' obs' w' raw lost)
  then obtain p where p: "new_object e sz ctor m w = Returns (p, m') w'" "obs' = obs(this \<mapsto> p)"
    by (auto simp: make_unique_def unique_ptr_def andthen_Returns_iff)
  have i: "heap_inv (cx_libc e) live rt m w" "one_owner obs"
    "addresses (malloc_block live m w) = owned obs \<union> raw \<union> lost"
    "owned obs \<inter> raw = {}" "(owned obs \<union> raw) \<inter> lost = {}"
    using assms(2) Make(1) by (auto simp: up_inv_def)
  note n = new_object_blocks[OF i(1) assms(3,5) p(1)]
  have "one_owner obs'" "owned obs' = insert p (owned obs)"
    using n Make(3) i(2,3) one_owner_upd[OF i(2), of "Some p" this] owned_upd[OF i(2), of this "Some p"]
    by (auto simp: p(2) held_def)
  then show ?thesis using n i Make(2) by (auto simp: up_inv_def)
next
  case (Construct obs this p raw m lost w)
  then show ?thesis using assms(2) one_owner_upd[of obs "Some p" this] owned_upd[of obs this "Some p"]
      up_inv_NULL[of e live rt m obs raw lost w]
    by (auto simp: up_inv_def unique_ptr_def held_def split: if_splits)
next
  case (Move obs this other obs' m raw lost w)
  then obtain p obs1 where "unique_release other obs = Some (p, obs1)" "obs' = obs1(this \<mapsto> p)"
    by (auto simp: unique_move_def bind_eq_Some_conv)
  then show ?thesis using moved[of obs other p obs1 this] Move assms(2) by (auto simp: up_inv_def split: if_splits)
next
  case (Assign obs this old other obs' m raw lost w)
  then obtain p obs1 where "unique_release other obs = Some (p, obs1)" "obs' = obs1(this \<mapsto> p)"
    by (auto simp: unique_assign_def bind_eq_Some_conv)
  then show ?thesis using moved[of obs other p obs1 this] Assign assms(2) held_owned[of obs this old]
    by (auto simp: up_inv_def split: if_splits)
next
  case (Release this obs p obs' m raw lost w)
  then have o: "obs this = Some p" "obs' = obs(this \<mapsto> NULL)"
    by (auto simp: unique_release_def bind_eq_Some_conv)
  then show ?thesis using Release(1,2) assms(2) held_owned[of obs this p] one_owner_upd[of obs "Some NULL" this]
      owned_upd[of obs this "Some NULL"]
    by (auto simp: up_inv_def)
next
  case (Reset p raw this m obs w m' obs' w' lost)
  then have "obs this \<noteq> None" by (auto simp: unique_reset_def split: option.splits)
  then show ?thesis using reset_contract[of e live rt m obs raw lost w dtor p this] Reset assms(2,4) by auto
next
  case (Destroy this m obs w m' obs' w' raw lost)
  then have "obs this \<noteq> None" by (auto simp: unique_destroy_def unique_reset_def split: option.splits)
  then show ?thesis using destroy_contract[of e live rt m obs raw lost w dtor this] Destroy assms(2,4) by auto
qed

lemma up_steps_inv:
  assumes "(up_step e sz ctor dtor)\<^sup>*\<^sup>* s t" "up_inv e live rt s" "quiet e live rt ctor" "quiet e live rt dtor"
    "unat sz + 31 < 2 ^ 64"
  shows "up_inv e live rt t"
  using assms(1)
proof induction
  case base
  show ?case by (fact assms(2))
next
  case (step t u)
  show ?case by (rule up_step_inv[OF step(2,3) assms(3-5)])
qed

section \<open>Properties\<close>

text \<open>
  C21. \<open>unique_ptr\<close>: in every state that a program reaches by creating, moving, assigning, resetting,
  releasing and destroying objects in any order, each live block has exactly one owner, which is one
  object, the program itself, or nobody, and the last only after a move assignment to an object
  that held the block. So \<open>reset\<close> and the destructor never fail: no block is deleted twice or after
  its release, they release exactly the block the object held, and \<open>make_unique\<close> gives a new block.
  This is for element types whose constructor and destructor return and neither allocate nor release
  memory (\<open>quiet\<close>), so not for a \<open>unique_ptr\<close> to a string, say, whose destructor also releases the string's own
  block; and the size of the type leaves room for the header and padding of \<open>malloc\<close> in 64 bits.
\<close>

theorem unique_ptr_ownership:
  assumes "up_inv e live rt s" "quiet e live rt ctor" "quiet e live rt dtor" "unat sz + 31 < 2 ^ 64"
    "(up_step e sz ctor dtor)\<^sup>*\<^sup>* s (m, obs, raw, lost, w)"
  shows "addresses (malloc_block live m w) = owned obs \<union> raw \<union> lost \<and> owned obs \<inter> raw = {} \<and>
    (owned obs \<union> raw) \<inter> lost = {} \<and> one_owner obs \<and>
    (\<forall>this p. obs this \<noteq> None \<and> (p = NULL \<or> p \<in> raw) \<longrightarrow>
      (\<exists>m' w'. unique_reset e dtor this p (m, obs) w = Returns (m', obs(this \<mapsto> p)) w' \<and>
        addresses (malloc_block live m' w') = addresses (malloc_block live m w) - has (obs this))) \<and>
    (\<forall>this. obs this \<noteq> None \<longrightarrow>
      (\<exists>m' w'. unique_destroy e dtor this (m, obs) w = Returns (m', obs(this := None)) w' \<and>
        addresses (malloc_block live m' w') = addresses (malloc_block live m w) - has (obs this))) \<and>
    (\<forall>this m' obs' w'. make_unique e sz ctor this (m, obs) w = Returns (m', obs') w' \<longrightarrow>
      (\<exists>p. obs' = obs(this \<mapsto> p) \<and> p \<notin> addresses (malloc_block live m w) \<and>
        addresses (malloc_block live m' w') = insert p (addresses (malloc_block live m w))))"
proof -
  have i: "up_inv e live rt (m, obs, raw, lost, w)" by (rule up_steps_inv[OF assms(5,1-4)])
  then have "heap_inv (cx_libc e) live rt m w" by (simp add: up_inv_def)
  note mk = new_object_blocks[OF this assms(2,4)]
  show ?thesis
  proof (intro conjI allI impI; (elim conjE)?)
    show "\<exists>m' w'. unique_reset e dtor this p (m, obs) w = Returns (m', obs(this \<mapsto> p)) w' \<and>
        addresses (malloc_block live m' w') = addresses (malloc_block live m w) - has (obs this)"
      if "obs this \<noteq> None" "p = NULL \<or> p \<in> raw" for this p
      using reset_contract[OF i assms(3) that(2,1)] by blast
    show "\<exists>m' w'. unique_destroy e dtor this (m, obs) w = Returns (m', obs(this := None)) w' \<and>
        addresses (malloc_block live m' w') = addresses (malloc_block live m w) - has (obs this)"
      if "obs this \<noteq> None" for this
      using destroy_contract[OF i assms(3) that] by blast
    show "\<exists>p. obs' = obs(this \<mapsto> p) \<and> p \<notin> addresses (malloc_block live m w) \<and>
        addresses (malloc_block live m' w') = insert p (addresses (malloc_block live m w))"
      if "make_unique e sz ctor this (m, obs) w = Returns (m', obs') w'" for this m' obs' w'
      using that mk by (auto simp: make_unique_def unique_ptr_def andthen_Returns_iff)
  qed (use i in \<open>auto simp: up_inv_def\<close>)
qed

theorem unique_ptr_ownership_witness:
  "\<exists>m obs w m' w'. obs 0 \<noteq> None \<and> owned obs \<noteq> {} \<and>
    unique_destroy example_cxx (\<lambda>_. Returns) 0 (m, obs) w = Returns (m', obs(0 := None)) w' \<and>
    addresses (malloc_block (\<lambda>w. set (snd w)) m' w') = {}"
proof -
  let ?live = "\<lambda>w :: bump. set (snd w)" and ?m0 = "\<lambda>_. None" and ?f = "\<lambda>_. Returns"
  have q: "quiet example_cxx ?live bump_rt ?f" by (simp add: quiet_def)
  have h: "heap_inv (cx_libc example_cxx) ?live bump_rt ?m0 (5, [])"
    unfolding example_cxx_def cxx_env.simps by (rule bump_heap_inv) auto
  then have i: "up_inv example_cxx ?live bump_rt (?m0, Map.empty, {}, {}, (5, []))"
    by (simp add: up_inv_def one_owner_def owned_def addresses_def malloc_block_def)
  obtain p m w where "malloc bump_libc 4 ?m0 (5, []) = Some (p, m, w)" and p: "p \<noteq> NULL"
    using bump_malloc_example by blast
  then have "new_object example_cxx 4 ?f ?m0 (5, []) = Returns (p, m) w"
    by (simp add: new_object_def operator_new_def example_cxx_def)
  from up_step.New[OF this] have
    "up_step example_cxx 4 ?f ?f (?m0, Map.empty, {}, {}, (5, [])) (m, Map.empty, {p}, {}, w)" .
  moreover have "up_step example_cxx 4 ?f ?f (m, Map.empty, {p}, {}, w) (m, [0 \<mapsto> p], {}, {}, w)"
    using up_step.Construct[of Map.empty 0 p "{p}" example_cxx 4 ?f ?f m "{}" w] by (simp add: unique_ptr_def)
  ultimately have "(up_step example_cxx 4 ?f ?f)\<^sup>*\<^sup>* (?m0, Map.empty, {}, {}, (5, [])) (m, [0 \<mapsto> p], {}, {}, w)"
    by (meson converse_rtranclp_into_rtranclp rtranclp.rtrancl_refl)
  note u = unique_ptr_ownership[OF i q q _ this]
  have o: "owned [0 \<mapsto> p] = {p}" using p by (auto simp: owned_def)
  have "addresses (malloc_block ?live m w) = owned [0 \<mapsto> p] \<union> {} \<union> {}" using u by (rule conjunct1) simp
  then have a: "addresses (malloc_block ?live m w) = {p}" using o by simp
  have "\<forall>this. [0 \<mapsto> p] this \<noteq> None \<longrightarrow>
      (\<exists>m' w'. unique_destroy example_cxx ?f this (m, [0 \<mapsto> p]) w = Returns (m', [0 \<mapsto> p](this := None)) w' \<and>
        addresses (malloc_block ?live m' w') = addresses (malloc_block ?live m w) - has ([0 \<mapsto> p] this))"
    by (rule conjunct1[OF conjunct2[OF conjunct2[OF conjunct2[OF conjunct2[OF conjunct2[OF u]]]]]]) simp
  from this[THEN spec, of 0] obtain m' w' where
    d: "unique_destroy example_cxx ?f 0 (m, [0 \<mapsto> p]) w = Returns (m', [0 \<mapsto> p](0 := None)) w'"
    "addresses (malloc_block ?live m' w') = {p} - has (Some p)"
    unfolding a by auto
  have "[0 \<mapsto> p] 0 \<noteq> None \<and> owned [0 \<mapsto> p] \<noteq> {} \<and>
      unique_destroy example_cxx ?f 0 (m, [0 \<mapsto> p]) w = Returns (m', [0 \<mapsto> p](0 := None)) w' \<and>
      addresses (malloc_block ?live m' w') = {}"
    using d o p by (simp add: held_def)
  then show ?thesis by blast
qed

end
