(* ===== verification/Cxx_Utility.thy ===== *)
theory Cxx_Utility
  imports Cxx_String Cxx_Memory
begin

text \<open>
  \<open>cxx/include/optional\<close> and \<open>cxx/include/utility\<close>. \<open>optional\<close> stores a value also when it has none, and
  does not check. \<open>pair\<close> moves its members one by one; how a member moves is given by a function from the
  value of the source to the value that the target gets and the one that the source is left with.
\<close>

section \<open>The code\<close>

record 'a optional =
  opt_value :: 'a
  opt_has_value :: bool

text \<open>\<open>dflt\<close> is what the default constructor of the type leaves in a variable.\<close>

definition optional_of :: "'a \<Rightarrow> 'a optional" where
  "optional_of v = \<lparr> opt_value = v, opt_has_value = True \<rparr>"

definition optional_nullopt :: "'a \<Rightarrow> 'a optional" where
  "optional_nullopt dflt = \<lparr> opt_value = dflt, opt_has_value = False \<rparr>"

definition has_value :: "'a optional \<Rightarrow> bool" where "has_value opt = opt_has_value opt"

definition opt_value_of :: "'a optional \<Rightarrow> 'a" where "opt_value_of opt = opt_value opt"

type_synonym 'a mover = "'a \<Rightarrow> 'a \<times> 'a"

record ('a, 'b) cxx_pair =
  first :: 'a
  second :: 'b

definition pair_of :: "'a \<Rightarrow> 'b \<Rightarrow> ('a, 'b) cxx_pair" where
  "pair_of f s = \<lparr> first = f, second = s \<rparr>"

text \<open>\<open>pair()\<close> moves default objects in, \<open>pair(f, move(s))\<close> copies and moves, and so on; the last component
  of a result is what is left of the sources.\<close>

definition pair_default :: "'a mover \<Rightarrow> 'b mover \<Rightarrow> 'a \<Rightarrow> 'b \<Rightarrow> ('a, 'b) cxx_pair" where
  "pair_default mv1 mv2 d1 d2 = \<lparr> first = fst (mv1 d1), second = fst (mv2 d2) \<rparr>"

definition pair_copy_move :: "'b mover \<Rightarrow> 'a \<Rightarrow> 'b \<Rightarrow> ('a, 'b) cxx_pair \<times> 'b" where
  "pair_copy_move mv2 f s = (let (s, s') = mv2 s in (\<lparr> first = f, second = s \<rparr>, s'))"

definition pair_move_copy :: "'a mover \<Rightarrow> 'a \<Rightarrow> 'b \<Rightarrow> ('a, 'b) cxx_pair \<times> 'a" where
  "pair_move_copy mv1 f s = (let (f, f') = mv1 f in (\<lparr> first = f, second = s \<rparr>, f'))"

definition pair_move_move :: "'a mover \<Rightarrow> 'b mover \<Rightarrow> 'a \<Rightarrow> 'b \<Rightarrow> ('a, 'b) cxx_pair \<times> 'a \<times> 'b" where
  "pair_move_move mv1 mv2 f s =
     (let (f, f') = mv1 f; (s, s') = mv2 s in (\<lparr> first = f, second = s \<rparr>, f', s'))"

definition pair_move :: "'a mover \<Rightarrow> 'b mover \<Rightarrow> ('a, 'b) cxx_pair mover" where
  "pair_move mv1 mv2 p =
     (let (f, f') = mv1 (first p); (s, s') = mv2 (second p)
      in (\<lparr> first = f, second = s \<rparr>, p\<lparr> first := f', second := s' \<rparr>))"

definition pair_assign_move ::
  "'a mover \<Rightarrow> 'b mover \<Rightarrow> ('a, 'b) cxx_pair \<Rightarrow> ('a, 'b) cxx_pair \<Rightarrow> ('a, 'b) cxx_pair \<times> ('a, 'b) cxx_pair" where
  "pair_assign_move mv1 mv2 this other =
     (let (f, f') = mv1 (first other);
          this = this\<lparr> first := f \<rparr>; other = other\<lparr> first := f' \<rparr>;
          (s, s') = mv2 (second other)
      in (this\<lparr> second := s \<rparr>, other\<lparr> second := s' \<rparr>))"

section \<open>What moving promises\<close>

text \<open>The target gets the value and the source is left in a state \<open>gone\<close>. Pairs of such types are
  such types again.\<close>

locale movable =
  fixes mv :: "'a mover" and gone :: "'a \<Rightarrow> bool"
  assumes target: "fst (mv x) = x" and source: "gone (snd (mv x))"

locale movable_pair = a: movable mv1 gone1 + b: movable mv2 gone2
  for mv1 :: "'a mover" and gone1 and mv2 :: "'b mover" and gone2
begin

lemma assign_is_move: "pair_assign_move mv1 mv2 this other = pair_move mv1 mv2 other"
  by (simp add: pair_assign_move_def pair_move_def Let_def case_prod_beta)

lemma constructed:
  "pair_default mv1 mv2 x y = pair_of x y" "fst (pair_copy_move mv2 x y) = pair_of x y"
  "fst (pair_move_copy mv1 x y) = pair_of x y" "fst (pair_move_move mv1 mv2 x y) = pair_of x y"
  "gone2 (snd (pair_copy_move mv2 x y))" "gone1 (snd (pair_move_copy mv1 x y))"
  using a.target[of x] b.target[of y] a.source[of x] b.source[of y]
  by (simp_all add: pair_default_def pair_copy_move_def pair_move_copy_def pair_move_move_def pair_of_def
      Let_def case_prod_beta)

end

sublocale movable_pair \<subseteq> pair: movable "pair_move mv1 mv2" "\<lambda>p. gone1 (first p) \<and> gone2 (second p)"
proof
  fix p
  show "fst (pair_move mv1 mv2 p) = p" "gone1 (first (snd (pair_move mv1 mv2 p))) \<and> gone2 (second (snd (pair_move mv1 mv2 p)))"
    using a.target[of "first p"] b.target[of "second p"] a.source[of "first p"] b.source[of "second p"]
    by (simp_all add: pair_move_def Let_def case_prod_beta)
qed

text \<open>The two classes of the library that move: \<open>unique_ptr\<close> and \<open>string\<close>.\<close>

definition unique_mover :: "ptr mover" where "unique_mover p = (p, NULL)"

definition string_mover :: "cxx_string mover" where "string_mover s = (s, no_string)"

lemma unique_move_mover:
  "obs other = Some p \<Longrightarrow> this \<noteq> other \<Longrightarrow>
   unique_move other this obs = Some (obs(other \<mapsto> snd (unique_mover p), this \<mapsto> fst (unique_mover p)))"
  by (simp add: unique_move_def unique_release_def unique_mover_def)

lemma string_move_mover:
  "this \<noteq> other \<Longrightarrow> string_move other this (m, obs) w =
   Returns (m, obs(this := fst (string_mover (obs other)), other := snd (string_mover (obs other)))) w"
  by (simp add: string_move_def string_mover_def)

interpretation unique_and_string: movable_pair unique_mover "\<lambda>p. p = NULL" string_mover "\<lambda>s. s = no_string"
  by unfold_locales (simp_all add: unique_mover_def string_mover_def)

text \<open>An \<open>optional\<close> is an option.\<close>

definition optional_abs :: "'a optional \<Rightarrow> 'a option" where
  "optional_abs opt = (if has_value opt then Some (opt_value_of opt) else None)"

lemma optional_refines_option:
  "optional_abs (optional_of v) = Some v" "optional_abs (optional_nullopt d) = None"
  "has_value opt \<longleftrightarrow> optional_abs opt \<noteq> None" "has_value opt \<Longrightarrow> opt_value_of opt = the (optional_abs opt)"
  "opt_value_of (optional_nullopt d) = d"
  by (simp_all add: optional_abs_def optional_of_def optional_nullopt_def has_value_def opt_value_of_def)

end
