(* ===== verification/Cxx_Vector_Store.thy ===== *)
theory Cxx_Vector_Store
  imports Cxx_Vector
begin

text \<open>
  \<open>cxx/include/vector\<close> once more, with its arrays in a store, so that references into a vector, who
  owns an array and when it is released are visible. An array that has been released is not in the
  store; a reference is an array and an index. The vectors of \<open>Cxx_Vector\<close> are the values of these.
\<close>

section \<open>The code\<close>

record 'a store =
  cells :: "nat \<rightharpoonup> 'a list"
  next_id :: nat

record vec =
  vec_data :: "nat option"
  vec_max :: nat
  vec_n :: nat

definition no_vec :: vec where "no_vec = \<lparr> vec_data = None, vec_max = 0, vec_n = 0 \<rparr>"

definition read_ref :: "'a store \<Rightarrow> nat \<times> nat \<Rightarrow> failed + 'a" where
  "read_ref s r =
     (case cells s (fst r) of None \<Rightarrow> Inl Dangling
      | Some xs \<Rightarrow> if snd r < length xs then Inr (xs ! snd r) else Inl Dangling)"

definition write_cell :: "'a store \<Rightarrow> nat option \<Rightarrow> nat \<Rightarrow> 'a \<Rightarrow> failed + 'a store" where
  "write_cell s d i x =
     (case Option.bind d (cells s) of None \<Rightarrow> Inl Dangling
      | Some xs \<Rightarrow> if i < length xs then Inr (s\<lparr> cells := (cells s)(the d \<mapsto> xs[i := x]) \<rparr>) else Inl Dangling)"

text \<open>The elements that a loop from 0 to below \<open>c\<close> reads.\<close>

definition read_first :: "'a store \<Rightarrow> nat option \<Rightarrow> nat \<Rightarrow> failed + 'a list" where
  "read_first s d c =
     (if c = 0 then Inr []
      else case Option.bind d (cells s) of None \<Rightarrow> Inl Dangling
        | Some xs \<Rightarrow> if c \<le> length xs then Inr (take c xs) else Inl Dangling)"

definition delete_array :: "'a store \<Rightarrow> nat option \<Rightarrow> 'a store" where
  "delete_array s d = (case d of None \<Rightarrow> s | Some a \<Rightarrow> s\<lparr> cells := (cells s)(a := None) \<rparr>)"

definition vec_reserve ::
  "(nat \<Rightarrow> (nat \<Rightarrow> 'a) option) \<Rightarrow> nat \<Rightarrow> 'a store \<Rightarrow> vec \<Rightarrow> nat \<Rightarrow> nat \<Rightarrow> failed + 'a store \<times> vec" where
  "vec_reserve alloc sz s v n copy_only =
     (if n \<le> vec_max v then Inr (s, v)
      else case grow_loop sz n 64 of
        None \<Rightarrow> Inl Diverges
      | Some new_max_nitems \<Rightarrow>
          ebind (new_array alloc new_max_nitems) (\<lambda>new_data.
          ebind (read_first s (vec_data v) copy_only) (\<lambda>moved.
            let new_id = next_id s;
                s = s\<lparr> cells := (cells s)(new_id \<mapsto> moved @ map new_data [copy_only..<new_max_nitems]), next_id := Suc new_id \<rparr>
            in Inr (delete_array s (vec_data v), v\<lparr> vec_data := Some new_id, vec_max := new_max_nitems \<rparr>))))"

text \<open>\<open>push_back\<close>, whose argument is a reference that is read after \<open>reserve\<close>.\<close>

definition vec_push_back ::
  "(nat \<Rightarrow> (nat \<Rightarrow> 'a) option) \<Rightarrow> nat \<Rightarrow> nat \<times> nat \<Rightarrow> 'a store \<Rightarrow> vec \<Rightarrow> failed + 'a store \<times> vec" where
  "vec_push_back alloc sz r s v =
     ebind (vec_reserve alloc sz s v (vec_n v + 1) (vec_n v)) (\<lambda>(s, v).
     ebind (read_ref s r) (\<lambda>x.
     ebind (write_cell s (vec_data v) (vec_n v) x) (\<lambda>s.
       Inr (s, v\<lparr> vec_n := vec_n v + 1 \<rparr>))))"

text \<open>The destructor and the move assignment; the results are the store and what the vectors are then.\<close>

definition vec_destroy :: "'a store \<Rightarrow> vec \<Rightarrow> 'a store \<times> vec" where
  "vec_destroy s v = (delete_array s (vec_data v), \<lparr> vec_data = None, vec_max = 0, vec_n = 0 \<rparr>)"

definition vec_assign_move :: "vec \<Rightarrow> vec \<Rightarrow> vec \<times> vec" where
  "vec_assign_move this v =
     (this\<lparr> vec_data := vec_data v, vec_max := vec_max v, vec_n := vec_n v \<rparr>,
      v\<lparr> vec_data := None, vec_max := 0, vec_n := 0 \<rparr>)"

section \<open>Values\<close>

definition value_of :: "'a store \<Rightarrow> vec \<Rightarrow> 'a vector" where
  "value_of s v = \<lparr> items = (case Option.bind (vec_data v) (cells s) of None \<Rightarrow> [] | Some xs \<Rightarrow> xs), nitems = vec_n v \<rparr>"

definition wf_vec :: "'a store \<Rightarrow> vec \<Rightarrow> bool" where
  "wf_vec s v \<longleftrightarrow> vec_n v \<le> vec_max v \<and> (\<forall>a \<in> dom (cells s). a < next_id s) \<and>
     (case vec_data v of None \<Rightarrow> vec_max v = 0
      | Some a \<Rightarrow> (\<exists>xs. cells s a = Some xs \<and> length xs = vec_max v))"

lemma wf_value: "wf_vec s v \<Longrightarrow> wf_vector (value_of s v) \<and> length (items (value_of s v)) = vec_max v"
  by (auto simp: wf_vec_def value_of_def wf_vector_def split: option.splits)

text \<open>\<open>_reserve\<close> does to the value what \<open>vector_reserve\<close> does. When it needs a larger array, the old one
  is released and nothing else.\<close>

lemma vec_reserve_refines:
  assumes wf: "wf_vec s v" and c: "c \<le> vec_n v" "c \<le> n"
    and r: "vector_reserve alloc sz (value_of s v) n c = Inr u"
  obtains s' v' where "vec_reserve alloc sz s v n c = Inr (s', v')" "wf_vec s' v'" "value_of s' v' = u" "n \<le> vec_max v'"
    "vec_n v' = vec_n v" "n \<le> vec_max v \<Longrightarrow> s' = s \<and> v' = v"
    "\<not> n \<le> vec_max v \<Longrightarrow> vec_data v' = Some (next_id s) \<and> dom (cells s') = insert (next_id s) (dom (cells s)) - set_option (vec_data v)"
    "\<And>a. a < next_id s \<Longrightarrow> vec_data v \<noteq> Some a \<Longrightarrow> cells s' a = cells s a"
proof (cases "n \<le> vec_max v")
  case True
  then show thesis using wf wf_value[OF wf] r by (intro that[of s v]) (auto simp: vec_reserve_def vector_reserve_def)
next
  case False
  then obtain k where k: "grow_loop sz n 64 = Some k"
    using r wf_value[OF wf] by (auto simp: vector_reserve_def split: option.splits)
  then obtain d where d: "new_array alloc k = Inr d"
    using r False wf_value[OF wf] by (cases "new_array alloc k") (auto simp: vector_reserve_def)
  have u: "u = (value_of s v)\<lparr> items := map (\<lambda>i. if i < c then items (value_of s v) ! i else d i) [0..<k] \<rparr>"
    using r False wf_value[OF wf] k d by (simp add: vector_reserve_def)
  have "n \<le> k" using grow_loop_bound[OF k] .
  with c have ck: "c \<le> k" by simp
  have l: "c \<le> length (items (value_of s v))" using wf wf_value[OF wf] c(1) by (simp add: wf_vec_def)
  have rd: "read_first s (vec_data v) c = Inr (take c (items (value_of s v)))"
    using wf l by (auto simp: read_first_def value_of_def wf_vec_def split: option.splits)
  have it: "map (\<lambda>i. if i < c then items (value_of s v) ! i else d i) [0..<k] =
      take c (items (value_of s v)) @ map d [c..<k]"
    using ck l by (intro nth_equalityI) (auto simp: nth_append)
  define s1 where "s1 = s\<lparr> cells := (cells s)(next_id s \<mapsto> take c (items (value_of s v)) @ map d [c..<k]), next_id := Suc (next_id s) \<rparr>"
  define v' where "v' = v\<lparr> vec_data := Some (next_id s), vec_max := k \<rparr>"
  have old: "a < next_id s" if "vec_data v = Some a" for a using wf that by (auto simp: wf_vec_def)
  then have new: "vec_data v \<noteq> Some (next_id s)" by blast
  have cs: "cells (delete_array s1 (vec_data v)) (next_id s) = Some (take c (items (value_of s v)) @ map d [c..<k])"
    "dom (cells (delete_array s1 (vec_data v))) = insert (next_id s) (dom (cells s)) - set_option (vec_data v)"
    "next_id (delete_array s1 (vec_data v)) = Suc (next_id s)"
    "\<And>a. a < next_id s \<Longrightarrow> vec_data v \<noteq> Some a \<Longrightarrow> cells (delete_array s1 (vec_data v)) a = cells s a"
    using new by (auto simp: delete_array_def s1_def split: option.splits)
  have "\<forall>a \<in> dom (cells s). a < next_id s" using wf by (simp add: wf_vec_def)
  then have dm: "\<forall>a \<in> dom (cells (delete_array s1 (vec_data v))). a < Suc (next_id s)"
    unfolding cs(2) by (blast intro: less_SucI)
  show thesis
  proof (rule that[of "delete_array s1 (vec_data v)" v'])
    show "vec_reserve alloc sz s v n c = Inr (delete_array s1 (vec_data v), v')"
      using False k d rd by (simp add: vec_reserve_def Let_def s1_def v'_def)
    show "wf_vec (delete_array s1 (vec_data v)) v'"
      using wf cs(1,3) dm ck l False \<open>n \<le> k\<close> by (auto simp: wf_vec_def v'_def)
    show "value_of (delete_array s1 (vec_data v)) v' = u"
      using cs(1) by (simp add: u it value_of_def v'_def)
  qed (use cs False \<open>n \<le> k\<close> in \<open>auto simp: v'_def\<close>)
qed

lemma write_cell_value:
  assumes "wf_vec s v" "i < vec_max v"
  obtains s' where "write_cell s (vec_data v) i x = Inr s'" "wf_vec s' v"
    "items (value_of s' v) = (items (value_of s v))[i := x]"
    "\<And>a. vec_data v \<noteq> Some a \<Longrightarrow> cells s' a = cells s a" "dom (cells s') = dom (cells s)" "next_id s' = next_id s"
proof -
  obtain a xs where a: "vec_data v = Some a" "cells s a = Some xs" "length xs = vec_max v"
    using assms by (auto simp: wf_vec_def split: option.splits)
  show thesis using assms a
    by (intro that[of "s\<lparr> cells := (cells s)(a \<mapsto> xs[i := x]) \<rparr>"])
      (auto simp: write_cell_def wf_vec_def value_of_def insert_absorb)
qed

lemma wf_vec_extend: "wf_vec s v \<Longrightarrow> vec_n v < vec_max v \<Longrightarrow> wf_vec s (v\<lparr> vec_n := Suc (vec_n v) \<rparr>)"
  by (auto simp: wf_vec_def split: option.splits)

section \<open>Properties\<close>

text \<open>
  C32. \<open>push_back\<close> of an element that a reference gives: the element is appended and all other arrays
  keep their contents, except when the reference goes into the vector itself and the vector is
  full. Then the array it refers to is released before it is read.
\<close>

theorem vector_push_back_reference:
  assumes wf: "wf_vec s v" and room: "roomy alloc sz (Suc (vec_n v))" and r: "read_ref s r = Inr x"
  shows "if vec_n v = vec_max v \<and> vec_data v = Some (fst r) then vec_push_back alloc sz r s v = Inl Dangling
    else \<exists>s' v'. vec_push_back alloc sz r s v = Inr (s', v') \<and> wf_vec s' v' \<and>
      contents (value_of s' v') = contents (value_of s v) @ [x] \<and>
      (\<forall>a. a < next_id s \<longrightarrow> vec_data v \<noteq> Some a \<longrightarrow> cells s' a = cells s a)"
proof -
  note wv = wf_value[OF wf]
  have n: "nitems (value_of s v) = vec_n v" "vec_n v \<le> vec_max v" using wf by (simp_all add: value_of_def wf_vec_def)
  obtain u where u: "vector_reserve alloc sz (value_of s v) (Suc (vec_n v)) (vec_n v) = Inr u" "nitems u = vec_n v"
    "take (vec_n v) (items u) = take (vec_n v) (items (value_of s v))"
    by (rule vector_reserve_room[OF room, of "vec_n v" "value_of s v"]) (use wv n in auto)
  obtain s1 v1 where s1: "vec_reserve alloc sz s v (Suc (vec_n v)) (vec_n v) = Inr (s1, v1)" "wf_vec s1 v1" "value_of s1 v1 = u"
    "Suc (vec_n v) \<le> vec_max v1" "vec_n v1 = vec_n v" "Suc (vec_n v) \<le> vec_max v \<Longrightarrow> s1 = s \<and> v1 = v"
    "\<not> Suc (vec_n v) \<le> vec_max v \<Longrightarrow> vec_data v1 = Some (next_id s) \<and> dom (cells s1) = insert (next_id s) (dom (cells s)) - set_option (vec_data v)"
    "\<And>a. a < next_id s \<Longrightarrow> vec_data v \<noteq> Some a \<Longrightarrow> cells s1 a = cells s a"
    by (rule vec_reserve_refines[OF wf, of "vec_n v" "Suc (vec_n v)" alloc sz u]) (use u(1) in auto)
  have "fst r \<in> dom (cells s)" using r by (auto simp: read_ref_def split: option.splits)
  then have rid: "fst r < next_id s" using wf by (auto simp: wf_vec_def)
  show ?thesis
  proof (cases "vec_n v = vec_max v \<and> vec_data v = Some (fst r)")
    case True
    then have "fst r \<notin> dom (cells s1)" using s1(7) rid by simp
    then have "read_ref s1 r = Inl Dangling" by (auto simp: read_ref_def split: option.splits)
    then show ?thesis using True s1(1) by (simp add: vec_push_back_def)
  next
    case False
    then have "read_ref s1 r = Inr x"
      using r s1(6,8) rid n(2) by (cases "vec_n v = vec_max v") (auto simp: read_ref_def)
    moreover obtain s2 where s2: "write_cell s1 (vec_data v1) (vec_n v1) x = Inr s2" "wf_vec s2 v1"
      "items (value_of s2 v1) = (items (value_of s1 v1))[vec_n v1 := x]"
      "\<And>a. vec_data v1 \<noteq> Some a \<Longrightarrow> cells s2 a = cells s1 a"
      using write_cell_value[OF s1(2), of "vec_n v1" x] s1(4,5) by (metis Suc_le_eq)
    ultimately have "vec_push_back alloc sz r s v = Inr (s2, v1\<lparr> vec_n := Suc (vec_n v1) \<rparr>)"
      using s1(1) by (simp add: vec_push_back_def)
    moreover have "wf_vec s2 (v1\<lparr> vec_n := Suc (vec_n v1) \<rparr>)" using wf_vec_extend[OF s2(2)] s1(4,5) by simp
    moreover have "contents (value_of s2 (v1\<lparr> vec_n := Suc (vec_n v1) \<rparr>)) = contents (value_of s v) @ [x]"
    proof -
      have "items (value_of s2 (v1\<lparr> vec_n := Suc (vec_n v1) \<rparr>)) = (items u)[vec_n v := x]"
        using s2(3) unfolding s1(3,5) by (simp add: value_of_def)
      moreover have "vec_n v < length (items u)" using wf_value[OF s1(2)] s1(3,4) by simp
      ultimately show ?thesis using u(3) n(1) s1(5)
        by (simp add: contents_def value_of_def take_Suc_conv_app_nth)
    qed
    moreover have "cells s2 a = cells s a" if "a < next_id s" "vec_data v \<noteq> Some a" for a
      using s2(4)[of a] s1(6-8) that n(2) by (cases "Suc (vec_n v) \<le> vec_max v") auto
    ultimately show ?thesis using False by auto
  qed
qed

theorem vector_push_back_reference_witness:
  "vec_push_back (\<lambda>_. Some (\<lambda>_. 0)) 8 (0, 0) \<lparr> cells = [0 \<mapsto> [7 :: nat]], next_id = 1 \<rparr> \<lparr> vec_data = Some 0, vec_max = 1, vec_n = 1 \<rparr> =
    Inl Dangling"
proof -
  let ?s = "\<lparr> cells = [0 \<mapsto> [7 :: nat]], next_id = 1 \<rparr>" and ?v = "\<lparr> vec_data = Some 0, vec_max = 1, vec_n = 1 \<rparr>"
  have "wf_vec ?s ?v" "roomy (\<lambda>_. Some (\<lambda>_. 0 :: nat)) 8 (Suc (vec_n ?v))" "read_ref ?s (0, 0) = Inr 7"
    by (simp_all add: wf_vec_def roomy_def read_ref_def)
  from vector_push_back_reference[OF this] show ?thesis by simp
qed

text \<open>The move assignment keeps the store: the array that the vector owned is still there and neither
  destructor releases it. The destructor releases exactly the vector's array.\<close>

lemma vec_assign_move_leaks:
  assumes "wf_vec s this" "wf_vec s other" "vec_data this = Some a" "vec_data other \<noteq> Some a" "vec_assign_move this other = (this', other')"
  shows "cells (fst (vec_destroy (fst (vec_destroy s this')) other')) a = cells s a \<and> cells s a \<noteq> None \<and>
    value_of s this' = value_of s other"
  using assms by (auto simp: vec_assign_move_def vec_destroy_def delete_array_def value_of_def wf_vec_def split: option.splits)

lemma vec_destroy_releases:
  "dom (cells (fst (vec_destroy s v))) = dom (cells s) - set_option (vec_data v) \<and> snd (vec_destroy s v) = no_vec"
  by (auto simp: vec_destroy_def delete_array_def no_vec_def split: option.splits)

end
