(* ===== verification/Limits.thy ===== *)
theory Limits
  imports Prelude
begin

unbundle bit_operations_syntax

text \<open>
  The constants of \<open>c/include/limits.h\<close> and \<open>c/include/stdint.h\<close>, the integer types of
  \<open>c/include/sys/types.h\<close> and the formats of \<open>c/include/inttypes.h\<close>. A macro stands for an expression,
  whose type the C rules for literals, promotions and conversions determine; so the constants are
  values with a type, and signed overflow is undefined (\<open>None\<close>).
\<close>

section \<open>C integers\<close>

record c_type =
  is_signed :: bool
  bits :: nat

record c_val =
  ctype :: c_type
  num :: int

abbreviation signed_type :: "nat \<Rightarrow> c_type" where "signed_type n \<equiv> \<lparr> is_signed = True, bits = n \<rparr>"
abbreviation unsigned_type :: "nat \<Rightarrow> c_type" where "unsigned_type n \<equiv> \<lparr> is_signed = False, bits = n \<rparr>"

definition c_min :: "c_type \<Rightarrow> int" where
  "c_min t = (if is_signed t then - (2 ^ (bits t - 1)) else 0)"

definition c_max :: "c_type \<Rightarrow> int" where
  "c_max t = (if is_signed t then 2 ^ (bits t - 1) - 1 else 2 ^ bits t - 1)"

definition fits :: "c_type \<Rightarrow> int \<Rightarrow> bool" where
  "fits t v \<longleftrightarrow> c_min t \<le> v \<and> v \<le> c_max t"

definition c_int :: c_type where "c_int = signed_type 32"
definition c_unsigned :: c_type where "c_unsigned = unsigned_type 32"
definition c_long :: c_type where "c_long = signed_type 64"
definition c_ulong :: c_type where "c_ulong = unsigned_type 64"

text \<open>A value brought into a type that need not hold it: conversions, and unsigned arithmetic.\<close>

definition wrap :: "c_type \<Rightarrow> int \<Rightarrow> int" where
  "wrap t v = (if is_signed t then signed_take_bit (bits t - 1) v else take_bit (bits t) v)"

definition c_cast :: "c_type \<Rightarrow> c_val \<Rightarrow> c_val" where
  "c_cast t x = \<lparr> ctype = t, num = wrap t (num x) \<rparr>"

text \<open>The type of a literal is the first of a list that holds it.\<close>

fun literal_of :: "c_type list \<Rightarrow> int \<Rightarrow> c_val option" where
  "literal_of [] v = None"
| "literal_of (t # ts) v = (if fits t v then Some \<lparr> ctype = t, num = v \<rparr> else literal_of ts v)"

definition decimal :: "int \<Rightarrow> c_val option" where "decimal = literal_of [c_int, c_long]"
definition hexadecimal :: "int \<Rightarrow> c_val option" where "hexadecimal = literal_of [c_int, c_unsigned, c_long, c_ulong]"
definition suffix_L :: "int \<Rightarrow> c_val option" where "suffix_L = literal_of [c_long]"
definition suffix_UL :: "int \<Rightarrow> c_val option" where "suffix_UL = literal_of [c_ulong]"

text \<open>Promotion, the common type of two operands, and the operators.\<close>

definition promoted :: "c_type \<Rightarrow> c_type" where
  "promoted t = (if bits t < 32 then c_int else t)"

definition common_type :: "c_type \<Rightarrow> c_type \<Rightarrow> c_type" where
  "common_type t u =
     (let t = promoted t; u = promoted u in
      if bits t = bits u then (if is_signed t then u else t)
      else if bits t < bits u then u else t)"

definition arith :: "c_type \<Rightarrow> int \<Rightarrow> c_val option" where
  "arith t v =
     (if is_signed t then (if fits t v then Some \<lparr> ctype = t, num = v \<rparr> else None)
      else Some \<lparr> ctype = t, num = wrap t v \<rparr>)"

definition c_neg :: "c_val \<Rightarrow> c_val option" where
  "c_neg x = arith (promoted (ctype x)) (- num x)"

definition c_minus :: "c_val \<Rightarrow> c_val \<Rightarrow> c_val option" where
  "c_minus x y =
     (let t = common_type (ctype x) (ctype y) in arith t (wrap t (num x) - wrap t (num y)))"

definition c_compl :: "c_val \<Rightarrow> c_val" where
  "c_compl x = (let t = promoted (ctype x) in \<lparr> ctype = t, num = wrap t (NOT (num x)) \<rparr>)"

definition c_less :: "c_val \<Rightarrow> c_val \<Rightarrow> bool" where
  "c_less x y = (let t = common_type (ctype x) (ctype y) in wrap t (num x) < wrap t (num y))"

section \<open>The types\<close>

definition int8_t :: c_type where "int8_t = signed_type 8"
definition int16_t :: c_type where "int16_t = signed_type 16"
definition int32_t :: c_type where "int32_t = signed_type 32"
definition int64_t :: c_type where "int64_t = signed_type 64"

definition u_int8_t :: c_type where "u_int8_t = unsigned_type 8"
definition u_int16_t :: c_type where "u_int16_t = unsigned_type 16"
definition u_int32_t :: c_type where "u_int32_t = unsigned_type 32"
definition u_int64_t :: c_type where "u_int64_t = unsigned_type 64"

definition uint8_t :: c_type where "uint8_t = u_int8_t"
definition uint16_t :: c_type where "uint16_t = u_int16_t"
definition uint32_t :: c_type where "uint32_t = u_int32_t"
definition uint64_t :: c_type where "uint64_t = u_int64_t"

definition size_t :: c_type where "size_t = c_ulong"
definition ssize_t :: c_type where "ssize_t = c_long"
definition off_t :: c_type where "off_t = c_long"
definition uintptr_t :: c_type where "uintptr_t = c_ulong"
definition intptr_t :: c_type where "intptr_t = c_long"
definition ptrdiff_t :: c_type where "ptrdiff_t = c_long"
definition time_t :: c_type where "time_t = c_long"
definition suseconds_t :: c_type where "suseconds_t = c_long"
definition clockid_t :: c_type where "clockid_t = c_unsigned"

section \<open>The constants\<close>

text \<open>\<open>limits.h\<close>; \<open>long long\<close> has the range of \<open>long\<close>.\<close>

definition LONG_MAX' :: "c_val option" where "LONG_MAX' = suffix_L 9223372036854775807"
definition LONG_MIN' :: "c_val option" where "LONG_MIN' = do { x \<leftarrow> LONG_MAX'; y \<leftarrow> c_neg x; z \<leftarrow> suffix_L 1; c_minus y z }"
definition ULONG_MAX' :: "c_val option" where "ULONG_MAX' = suffix_UL 18446744073709551615"
definition LLONG_MAX :: "c_val option" where "LLONG_MAX = suffix_L 9223372036854775807"
definition LLONG_MIN :: "c_val option" where "LLONG_MIN = do { x \<leftarrow> LLONG_MAX; y \<leftarrow> c_neg x; z \<leftarrow> suffix_L 1; c_minus y z }"
definition ULLONG_MAX :: "c_val option" where "ULLONG_MAX = suffix_UL 18446744073709551615"
definition INT_MAX :: "c_val option" where "INT_MAX = hexadecimal 0x7fffffff"
definition INT_MIN :: "c_val option" where "INT_MIN = hexadecimal 0x80000000"
definition UINT_MAX :: "c_val option" where "UINT_MAX = hexadecimal 0xffffffff"
definition CHAR_BIT :: "c_val option" where "CHAR_BIT = decimal 8"

text \<open>\<open>stdint.h\<close>: the macros that give a literal a type, and the limits.\<close>

definition INT8_C :: "int \<Rightarrow> c_val option" where "INT8_C v = map_option (c_cast int8_t) (decimal v)"
definition INT16_C :: "int \<Rightarrow> c_val option" where "INT16_C v = map_option (c_cast int16_t) (decimal v)"
definition INT32_C :: "int \<Rightarrow> c_val option" where "INT32_C v = suffix_L v"
definition INT64_C :: "int \<Rightarrow> c_val option" where "INT64_C v = suffix_L v"
definition UINT8_C :: "int \<Rightarrow> c_val option" where "UINT8_C v = map_option (c_cast uint8_t) (decimal v)"
definition UINT16_C :: "int \<Rightarrow> c_val option" where "UINT16_C v = map_option (c_cast uint16_t) (decimal v)"
definition UINT32_C :: "int \<Rightarrow> c_val option" where "UINT32_C v = suffix_UL v"
definition UINT64_C :: "int \<Rightarrow> c_val option" where "UINT64_C v = suffix_UL v"
definition SIZET_C :: "int \<Rightarrow> c_val option" where "SIZET_C v = map_option (c_cast size_t) (decimal v)"

definition INT8_MAX :: "c_val option" where "INT8_MAX = INT8_C 127"
definition INT16_MAX :: "c_val option" where "INT16_MAX = INT16_C 32767"
definition INT32_MAX :: "c_val option" where "INT32_MAX = INT32_C 2147483647"
definition INT64_MAX :: "c_val option" where "INT64_MAX = INT64_C 9223372036854775807"
definition SIZE_MAX' :: "c_val option" where "SIZE_MAX' = map_option c_compl (SIZET_C 0)"

text \<open>\<open>(-x - 1)\<close>\<close>

definition below_neg :: "c_val option \<Rightarrow> c_val option" where
  "below_neg m = do { x \<leftarrow> m; y \<leftarrow> c_neg x; one \<leftarrow> decimal 1; c_minus y one }"

definition INT8_MIN :: "c_val option" where "INT8_MIN = below_neg INT8_MAX"
definition INT16_MIN :: "c_val option" where "INT16_MIN = below_neg INT16_MAX"
definition INT32_MIN :: "c_val option" where "INT32_MIN = below_neg INT32_MAX"
definition INT64_MIN :: "c_val option" where "INT64_MIN = below_neg INT64_MAX"
definition UINT8_MAX :: "c_val option" where "UINT8_MAX = UINT8_C 255"
definition UINT16_MAX :: "c_val option" where "UINT16_MAX = UINT16_C 65535"
definition UINT32_MAX :: "c_val option" where "UINT32_MAX = UINT32_C 4294967295"
definition UINT64_MAX :: "c_val option" where "UINT64_MAX = UINT64_C 18446744073709551615"

section \<open>Formats\<close>

definition PRId8 :: string where "PRId8 = ''d''"
definition PRId16 :: string where "PRId16 = ''d''"
definition PRId32 :: string where "PRId32 = ''d''"
definition PRId64 :: string where "PRId64 = ''ld''"
definition PRIi8 :: string where "PRIi8 = ''i''"
definition PRIi16 :: string where "PRIi16 = ''i''"
definition PRIi32 :: string where "PRIi32 = ''i''"
definition PRIi64 :: string where "PRIi64 = ''li''"
definition PRIu8 :: string where "PRIu8 = ''u''"
definition PRIu16 :: string where "PRIu16 = ''u''"
definition PRIu32 :: string where "PRIu32 = ''u''"
definition PRIu64 :: string where "PRIu64 = ''lu''"
definition PRIo8 :: string where "PRIo8 = ''o''"
definition PRIo16 :: string where "PRIo16 = ''o''"
definition PRIo32 :: string where "PRIo32 = ''o''"
definition PRIo64 :: string where "PRIo64 = ''lo''"
definition PRIx8 :: string where "PRIx8 = ''x''"
definition PRIx16 :: string where "PRIx16 = ''x''"
definition PRIx32 :: string where "PRIx32 = ''x''"
definition PRIx64 :: string where "PRIx64 = ''lx''"
definition PRIX8 :: string where "PRIX8 = ''X''"
definition PRIX16 :: string where "PRIX16 = ''X''"
definition PRIX32 :: string where "PRIX32 = ''X''"
definition PRIX64 :: string where "PRIX64 = ''lX''"

text \<open>The type of the argument that a conversion specification takes.\<close>

definition conversion_type :: "string \<Rightarrow> c_type option" where
  "conversion_type f =
     (let l = (take 1 f = ''l''); c = (if l then drop 1 f else f) in
      if c = ''d'' \<or> c = ''i'' then Some (if l then c_long else c_int)
      else if c = ''u'' \<or> c = ''o'' \<or> c = ''x'' \<or> c = ''X'' then Some (if l then c_ulong else c_unsigned)
      else None)"

section \<open>Lemmas\<close>

definition c_types :: "c_type set" where
  "c_types = {signed_type n | n. 0 < n} \<union> range unsigned_type"

lemma wrap_fits: "t \<in> c_types \<Longrightarrow> fits t (wrap t v)"
proof -
  assume "t \<in> c_types"
  then consider n where "t = signed_type (Suc n)" | n where "t = unsigned_type n"
    by (auto simp: c_types_def gr0_conv_Suc)
  then show ?thesis
  proof cases
    case 1
    have "signed_take_bit n v \<le> 2 ^ n - 1" using signed_take_bit_int_less_exp[of n v] by linarith
    with 1 show ?thesis
      using signed_take_bit_int_greater_eq_minus_exp[of n v] by (simp add: wrap_def fits_def c_min_def c_max_def)
  next
    case 2
    have "take_bit n v \<le> 2 ^ n - 1" using take_bit_int_less_exp[of n v] by linarith
    with 2 show ?thesis by (simp add: wrap_def fits_def c_min_def c_max_def)
  qed
qed

lemma wrap_id: "t \<in> c_types \<Longrightarrow> fits t v \<Longrightarrow> wrap t v = v"
  by (auto simp: c_types_def fits_def c_min_def c_max_def wrap_def gr0_conv_Suc
      intro!: signed_take_bit_int_eq_self take_bit_int_eq_self)

lemma arith_fits: "t \<in> c_types \<Longrightarrow> arith t v = Some x \<Longrightarrow> ctype x = t \<and> fits t (num x)"
  using wrap_fits[of t v] by (auto simp: arith_def split: if_splits)

text \<open>Operands of one type that is not promoted compare as numbers.\<close>

lemma c_less_same:
  "t \<in> c_types \<Longrightarrow> 32 \<le> bits t \<Longrightarrow> fits t v \<Longrightarrow> fits t u \<Longrightarrow>
   c_less \<lparr> ctype = t, num = v \<rparr> \<lparr> ctype = t, num = u \<rparr> \<longleftrightarrow> v < u"
  by (auto simp: c_less_def common_type_def promoted_def wrap_id)

section \<open>Properties\<close>

text \<open>
  The limits are the ends of the ranges of their types, computed without signed overflow, and have the
  type that \<open>limits.h\<close> is about, with one exception: \<open>INT_MIN\<close>. Every format macro takes an argument of
  the width and the signedness of its type.
\<close>

theorem limits_ranges:
  "map (map_option num) [INT8_MAX, INT16_MAX, INT32_MAX, INT64_MAX, UINT8_MAX, UINT16_MAX, UINT32_MAX, UINT64_MAX] =
     map (\<lambda>t. Some (c_max t)) [int8_t, int16_t, int32_t, int64_t, uint8_t, uint16_t, uint32_t, uint64_t] \<and>
   map (map_option num) [INT8_MIN, INT16_MIN, INT32_MIN, INT64_MIN] =
     map (\<lambda>t. Some (c_min t)) [int8_t, int16_t, int32_t, int64_t] \<and>
   [LONG_MAX', LONG_MIN', LLONG_MAX, LLONG_MIN] =
     map (\<lambda>v. Some \<lparr> ctype = c_long, num = v \<rparr>) [c_max c_long, c_min c_long, c_max c_long, c_min c_long] \<and>
   [ULONG_MAX', ULLONG_MAX, SIZE_MAX'] = replicate 3 (Some \<lparr> ctype = c_ulong, num = c_max size_t \<rparr>) \<and>
   INT_MAX = Some \<lparr> ctype = c_int, num = c_max c_int \<rparr> \<and> UINT_MAX = Some \<lparr> ctype = c_unsigned, num = c_max c_unsigned \<rparr> \<and>
   map conversion_type [PRId8, PRId16, PRId32, PRId64, PRIi8, PRIi16, PRIi32, PRIi64] =
     map (Some \<circ> promoted) [int8_t, int16_t, int32_t, int64_t, int8_t, int16_t, int32_t, int64_t] \<and>
   map conversion_type [PRIu8, PRIo8, PRIx8, PRIX8, PRIu16, PRIo16, PRIx16, PRIX16, PRIu32, PRIo32, PRIx32, PRIX32] =
     replicate 12 (Some uint32_t) \<and>
   map conversion_type [PRIu64, PRIo64, PRIx64, PRIX64] = replicate 4 (Some uint64_t)"
  by code_simp

text \<open>
  \<open>INT_MIN\<close> is not the least \<open>int\<close>: \<open>0x80000000\<close> is the number 2 to the power of 31, of type \<open>unsigned int\<close>.
  Every \<open>int\<close> that is not negative compares as less than it, \<open>INT_MAX\<close> among them, and no negative one
  does.
\<close>

theorem INT_MIN_unsigned:
  assumes "fits c_int v"
  shows "\<exists>x. INT_MIN = Some x \<and> ctype x = c_unsigned \<and> num x = 2 ^ 31 \<and>
    (c_less \<lparr> ctype = c_int, num = v \<rparr> x \<longleftrightarrow> 0 \<le> v)"
proof -
  have i: "INT_MIN = Some \<lparr> ctype = c_unsigned, num = 2 ^ 31 \<rparr>" by code_simp
  have v: "- (2 ^ 31) \<le> v" "v < 2 ^ 31" using assms by (auto simp: fits_def c_min_def c_max_def c_int_def)
  have "take_bit 32 v = (if 0 \<le> v then v else v + 2 ^ 32)"
  proof (cases "0 \<le> v")
    case False
    have "take_bit 32 v = take_bit 32 (v + 2 ^ 32)" by (simp add: take_bit_eq_mod)
    also have "\<dots> = v + 2 ^ 32" using False v by (intro take_bit_int_eq_self) auto
    finally show ?thesis using False by simp
  qed (use v in \<open>simp add: take_bit_int_eq_self\<close>)
  then have "wrap c_unsigned v < 2 ^ 31 \<longleftrightarrow> 0 \<le> v" using v by (auto simp: wrap_def c_unsigned_def)
  moreover have "common_type c_int c_unsigned = c_unsigned" by code_simp
  moreover have "wrap c_unsigned (2 ^ 31) = 2 ^ 31" by code_simp
  ultimately show ?thesis unfolding i by (simp add: c_less_def)
qed

theorem INT_MIN_unsigned_witness: "\<exists>x y. INT_MIN = Some x \<and> INT_MAX = Some y \<and> c_less y x"
proof -
  have "fits c_int (c_max c_int)" "INT_MAX = Some \<lparr> ctype = c_int, num = c_max c_int \<rparr>" "0 \<le> c_max c_int" by code_simp+
  with INT_MIN_unsigned[of "c_max c_int"] show ?thesis by blast
qed

end
