(* ===== verification/Efi_Jump.thy ===== *)
theory Efi_Jump
  imports Efi_Start
begin

text \<open>
  The mechanism below \<open>EFI_NANOLIBC_TRY\<close>, \<open>EFI_NANOLIBC_CATCH\<close> and \<open>EFI_NANOLIBC_THROW\<close>
  (\<open>efi/gnu_efi_crt.h\<close>): one global \<open>jmp_buf\<close>, which every TRY overwrites and nobody restores. \<open>Efi_Start\<close>
  models \<open>exit\<close> as an outcome that the innermost TRY in progress receives. Here the frames and the buffer
  are explicit, in a machine with one step per call, return and jump, and the two views are compared.
\<close>

section \<open>Programs\<close>

text \<open>
  What a program does as far as jumps are concerned: it works on the world and goes on as the world
  says, calls functions in \<open>EFI_NANOLIBC_CALL(retval_failure, fct)\<close> and goes on with their status, returns
  or exits. Functions called without the macro are part of the text of their caller.
\<close>

datatype 'w efi_prog =
    Return int
  | Exit int
  | Work "'w \<Rightarrow> 'w" "'w \<Rightarrow> 'w efi_prog"
  | Call EFI_STATUS "'w efi_prog" "EFI_STATUS \<Rightarrow> 'w efi_prog"

section \<open>Frames and the buffer\<close>

text \<open>
  A TRY is in \<open>call_main\<close> or in a use of the macro \<open>EFI_NANOLIBC_CALL\<close>; the macro is a statement
  expression, so that \<open>setjmp\<close> runs in the frame of the function that uses it. A \<open>jmp_buf\<close> holds that
  frame and the TRY. The rest of the function is a value: it has the locals as they were at \<open>setjmp\<close>
  (in C those that changed since are indeterminate after the jump).
\<close>

datatype 'w try_site = In_call_main | In_macro EFI_STATUS "EFI_STATUS \<Rightarrow> 'w efi_prog"

type_synonym 'w jmp_buf = "nat \<times> 'w try_site"

text \<open>The function in progress and its frame, its callers with the TRY each of them is in, the buffer,
  the first number that no frame has had yet, and the world.\<close>

record 'w efi_machine =
  running :: "'w efi_prog"
  frame :: nat
  callers :: "(nat \<times> 'w try_site) list"
  exc_jmp_buf :: "'w jmp_buf option"
  next_frame :: nat
  world :: 'w

datatype 'w jump_result = Goes_on "'w efi_machine" | Done int 'w | Caught 'w | Stale

text \<open>\<open>if (0 == setjmp(&exc_jmp_buf)) { fct(...)\<close> as far as the entry of the function.\<close>

definition EFI_NANOLIBC_TRY :: "'w try_site \<Rightarrow> 'w efi_prog \<Rightarrow> 'w efi_machine \<Rightarrow> 'w efi_machine" where
  "EFI_NANOLIBC_TRY site fct m =
     m\<lparr> running := fct, frame := next_frame m, callers := (frame m, site) # callers m,
        exc_jmp_buf := Some (frame m, site), next_frame := Suc (next_frame m) \<rparr>"

text \<open>The callers that are left when control is back in the frame \<open>g\<close>; \<open>None\<close> when \<open>g\<close> has returned.\<close>

definition unwind :: "'w efi_machine \<Rightarrow> nat \<Rightarrow> (nat \<times> 'w try_site) list option" where
  "unwind m g =
     (if frame m = g then Some (callers m)
      else (case dropWhile (\<lambda>(h, _). h \<noteq> g) (callers m) of [] \<Rightarrow> None | _ # cs \<Rightarrow> Some cs))"

text \<open>The jump, into the CATCH block of the TRY: that of the macro gives the status \<open>retval_failure\<close>. A
  jump into a frame that has returned is undefined (\<open>Stale\<close>).\<close>

definition EFI_NANOLIBC_THROW :: "'w efi_machine \<Rightarrow> 'w jump_result" where
  "EFI_NANOLIBC_THROW m =
     (case exc_jmp_buf m of None \<Rightarrow> Stale
      | Some (g, site) \<Rightarrow>
          (case unwind m g of None \<Rightarrow> Stale
           | Some cs \<Rightarrow>
               (case site of
                  In_call_main \<Rightarrow> Caught (world m)
                | In_macro retval_failure c \<Rightarrow> Goes_on (m\<lparr> running := c retval_failure, frame := g, callers := cs \<rparr>))))"

definition jump_step :: "'f efi_world efi_machine \<Rightarrow> 'f efi_world jump_result" where
  "jump_step m =
     (case running m of
        Return n \<Rightarrow>
          (case callers m of
             (g, In_macro retval_failure c) # cs \<Rightarrow>
               Goes_on (m\<lparr> running := c (if 0 = n then EFI_SUCCESS else retval_failure), frame := g, callers := cs \<rparr>)
           | _ \<Rightarrow> Done n (world m))
      | Exit n \<Rightarrow> EFI_NANOLIBC_THROW (m\<lparr> world := snd (efi_exit n (world m)) \<rparr>)
      | Work f p \<Rightarrow> (let w = f (world m) in Goes_on (m\<lparr> running := p w, world := w \<rparr>))
      | Call retval_failure fct c \<Rightarrow> Goes_on (EFI_NANOLIBC_TRY (In_macro retval_failure c) fct m))"

text \<open>The machine may run for ever: then the value is \<open>None\<close>.\<close>

partial_function (option) run_jumps :: "'f efi_world efi_machine \<Rightarrow> 'f efi_world jump_result option" where
  "run_jumps m = (case jump_step m of Goes_on m' \<Rightarrow> run_jumps m' | r \<Rightarrow> Some r)"

text \<open>\<open>call_main\<close> is in the frame 0.\<close>

definition call_main_jumps ::
  "formatter \<Rightarrow> 'f efi_world nnlc_internal_data \<Rightarrow> 'f efi_world efi_prog \<Rightarrow> mem \<Rightarrow> 'f efi_world
    \<Rightarrow> (int, 'f efi_world) outcome option" where
  "call_main_jumps tfp d main m w =
     (let w = w\<lparr> main_retval := EXIT_FAILURE \<rparr>;
          start = \<lparr> running = main, frame = 0, callers = [], exc_jmp_buf = None, next_frame = 1, world = w \<rparr>
      in do {
        j \<leftarrow> run_jumps (EFI_NANOLIBC_TRY In_call_main main start);
        let r = (case j of
                   Done rc w \<Rightarrow> Returns () (w\<lparr> main_retval := rc \<rparr>)
                 | Caught w \<Rightarrow>
                     andthen (fprintf tfp m (Some (libc_stderr d)) exit_called_format [va_int (main_retval w)] w)
                       (\<lambda>_ w. Returns () w)
                 | _ \<Rightarrow> Faults);
        Some (andthen r (\<lambda>_ w. Returns (main_retval w) w)) })"

section \<open>The structured view\<close>

text \<open>What the macros are meant to do: \<open>exit\<close> ends the innermost call in progress.\<close>

primrec meaning :: "'f efi_world efi_prog \<Rightarrow> 'f efi_world \<Rightarrow> (int, 'f efi_world) outcome" where
  "meaning (Return n) w = Returns n w"
| "meaning (Exit n) w = Exits n (snd (efi_exit n w))"
| "meaning (Work f p) w = meaning (p (f w)) (f w)"
| "meaning (Call retval_failure fct c) w =
     andthen (efi_nanolibc_call retval_failure (\<lambda>_. meaning fct) () w) (\<lambda>s w. meaning (c s) w)"

text \<open>Programs whose every exit comes before any use of the macro in its own frame; \<open>armed\<close> says that there
  has been none yet.\<close>

primrec exits_armed :: "'w efi_prog \<Rightarrow> bool \<Rightarrow> bool" where
  "exits_armed (Return n) armed \<longleftrightarrow> True"
| "exits_armed (Exit n) armed \<longleftrightarrow> armed"
| "exits_armed (Work f p) armed \<longleftrightarrow> (\<forall>w. exits_armed (p w) armed)"
| "exits_armed (Call r p c) armed \<longleftrightarrow> exits_armed p True \<and> (\<forall>s. exits_armed (c s) False)"

text \<open>The function itself uses the macro when it runs in the world \<open>w\<close>.\<close>

primrec uses_macro :: "'w efi_prog \<Rightarrow> 'w \<Rightarrow> bool" where
  "uses_macro (Return n) w \<longleftrightarrow> False"
| "uses_macro (Exit n) w \<longleftrightarrow> False"
| "uses_macro (Work f p) w \<longleftrightarrow> uses_macro (p (f w)) (f w)"
| "uses_macro (Call r p c) w \<longleftrightarrow> True"

section \<open>Runs\<close>

lemma run_steps:
  "running m = Return n \<Longrightarrow> callers m = (g, In_macro r c) # cs \<Longrightarrow>
     run_jumps m = run_jumps (m\<lparr> running := c (if 0 = n then EFI_SUCCESS else r), frame := g, callers := cs \<rparr>)"
  "running m = Return n \<Longrightarrow> callers m = [(g, In_call_main)] \<Longrightarrow> run_jumps m = Some (Done n (world m))"
  "running m = Work f q \<Longrightarrow> run_jumps m = run_jumps (m\<lparr> running := q (f (world m)), world := f (world m) \<rparr>)"
  "running m = Call r p c \<Longrightarrow> run_jumps m = run_jumps (EFI_NANOLIBC_TRY (In_macro r c) p m)"
  by (simp_all add: run_jumps.simps[of m] jump_step_def Let_def)

text \<open>Where an exit ends up that is received by the TRY in progress.\<close>

definition at_catch :: "'f efi_world efi_machine \<Rightarrow> 'f efi_world \<Rightarrow> 'f efi_world jump_result option" where
  "at_catch m w =
     (case callers m of
        (g, In_macro r c) # cs \<Rightarrow> run_jumps (m\<lparr> world := w, running := c r, frame := g, callers := cs \<rparr>)
      | _ \<Rightarrow> Some (Caught w))"

lemma run_exit_armed:
  assumes "running m = Exit n" "callers m = (g, site) # cs" "exc_jmp_buf m = Some (g, site)" "g \<noteq> frame m"
  shows "run_jumps m = at_catch m (snd (efi_exit n (world m)))"
proof -
  have "unwind (m\<lparr> world := w \<rparr>) g = Some cs" for w using assms(2,4) by (simp add: unwind_def)
  then show ?thesis
    using assms
    by (simp add: run_jumps.simps[of m] jump_step_def EFI_NANOLIBC_THROW_def at_catch_def split: try_site.splits)
qed

text \<open>
  What a run of \<open>p\<close> from the machine \<open>m\<close> comes to: it is back where \<open>p\<close> returns, with the buffer as it was or
  pointing to the frame of \<open>p\<close> or a later one, or where its exit is caught.
\<close>

definition runs_as :: "'f efi_world efi_machine \<Rightarrow> bool \<Rightarrow> bool \<Rightarrow> (int, 'f efi_world) outcome \<Rightarrow> bool" where
  "runs_as m armed used r \<longleftrightarrow>
     (case r of
        Returns k w \<Rightarrow> \<exists>b n. next_frame m \<le> n \<and>
          (if used then \<exists>g site. b = Some (g, site) \<and> frame m \<le> g else b = exc_jmp_buf m) \<and>
          run_jumps m = run_jumps (m\<lparr> running := Return k, exc_jmp_buf := b, next_frame := n, world := w \<rparr>)
      | Exits k w \<Rightarrow> armed \<and> \<not> used \<and> run_jumps m = at_catch m w
      | _ \<Rightarrow> False)"

lemma at_catch_step: "at_catch (m\<lparr> running := p, world := w \<rparr>) v = at_catch m v"
  by (cases m) (simp add: at_catch_def split: list.split try_site.split)

lemma runs_as_step:
  assumes "runs_as (m\<lparr> running := p, world := w \<rparr>) armed used r"
    "run_jumps m = run_jumps (m\<lparr> running := p, world := w \<rparr>)"
  shows "runs_as m armed used r"
proof (cases r)
  case (Returns k v)
  have "m\<lparr> running := p, world := w, running := Return k, exc_jmp_buf := b, next_frame := n, world := v \<rparr> =
      m\<lparr> running := Return k, exc_jmp_buf := b, next_frame := n, world := v \<rparr>" for b n
    by (cases m) simp
  then show ?thesis using assms Returns by (cases used) (auto simp: runs_as_def)
qed (use assms in \<open>simp_all add: runs_as_def at_catch_step\<close>)

lemma runs_as_meaning:
  "exits_armed p armed \<Longrightarrow> running m = p \<Longrightarrow> frame m < next_frame m \<Longrightarrow>
   (armed \<Longrightarrow> exc_jmp_buf m = Some (g, site) \<and> callers m = (g, site) # cs \<and> g \<noteq> frame m) \<Longrightarrow>
   runs_as m armed (uses_macro p (world m)) (meaning p (world m))"
proof (induction p arbitrary: m armed g site cs)
  case (Return n)
  then have m: "m\<lparr> running := Return n, exc_jmp_buf := exc_jmp_buf m, next_frame := next_frame m, world := world m \<rparr> = m"
    by (cases m) simp
  show ?case
    unfolding runs_as_def meaning.simps uses_macro.simps outcome.case if_False
    by (rule exI[of _ "exc_jmp_buf m"], rule exI[of _ "next_frame m"]) (simp only: m order_refl simp_thms)
next
  case (Exit n)
  then show ?case using run_exit_armed[of m n g site cs] by (simp add: runs_as_def)
next
  case (Work f p)
  let ?w = "f (world m)"
  let ?m = "m\<lparr> running := p ?w, world := ?w \<rparr>"
  have "runs_as ?m armed (uses_macro (p ?w) (world ?m)) (meaning (p ?w) (world ?m))"
    using Work.prems by (intro Work.IH[of "p ?w" armed ?m g site cs]) auto
  then show ?case
    using run_steps(3)[OF Work.prems(2)] by (intro runs_as_step[where m = m and p = "p ?w" and w = ?w]) simp_all
next
  case (Call r p c)
  let ?m1 = "EFI_NANOLIBC_TRY (In_macro r c) p m"
  have sub: "runs_as ?m1 True (uses_macro p (world m)) (meaning p (world m))"
    using Call.IH(1)[of True ?m1 "frame m" "In_macro r c" "callers m"] Call.prems
    by (simp add: EFI_NANOLIBC_TRY_def)
  have start: "run_jumps m = run_jumps ?m1" using run_steps(4)[OF Call.prems(2)] .
  text \<open>What is left of the function after the macro.\<close>
  have rest: "runs_as m armed True (meaning (c s) v)"
    if after: "after = m\<lparr> running := c s, exc_jmp_buf := Some (g', site'), next_frame := n, world := v \<rparr>" "frame m \<le> g'"
      "next_frame m \<le> n" "run_jumps m = run_jumps after" for after s g' site' n v
  proof -
    have "runs_as after False (uses_macro (c s) v) (meaning (c s) v)"
      using Call.IH(2)[of "c s" False after g site cs] Call.prems that by simp
    then show ?thesis
      using that by (auto simp: runs_as_def split: outcome.splits if_splits intro: order_trans)
  qed
  show ?case
  proof (cases "meaning p (world m)")
    case (Returns i v)
    let ?s = "if 0 = i then EFI_SUCCESS else r"
    obtain b n where b: "next_frame ?m1 \<le> n"
      "if uses_macro p (world m) then \<exists>g site. b = Some (g, site) \<and> frame ?m1 \<le> g else b = exc_jmp_buf ?m1"
      "run_jumps ?m1 = run_jumps (?m1\<lparr> running := Return i, exc_jmp_buf := b, next_frame := n, world := v \<rparr>)"
      using sub by (auto simp: runs_as_def Returns)
    then obtain g' site' where g': "b = Some (g', site')" "frame m \<le> g'"
      using Call.prems(3) by (auto simp: EFI_NANOLIBC_TRY_def split: if_splits)
    let ?m2 = "m\<lparr> running := c ?s, exc_jmp_buf := b, next_frame := n, world := v \<rparr>"
    have "run_jumps m = run_jumps ?m2"
      unfolding start b(3) by (cases m) (simp add: EFI_NANOLIBC_TRY_def run_steps(1))
    then have "runs_as m armed True (meaning (c ?s) v)"
      using b(1) g' by (intro rest[where after = ?m2 and s = ?s and g' = g' and site' = site' and n = n and v = v]) (simp_all add: EFI_NANOLIBC_TRY_def)
    then show ?thesis by (simp add: efi_nanolibc_call_def Returns)
  next
    case (Exits i v)
    let ?m2 = "m\<lparr> running := c r, exc_jmp_buf := Some (frame m, In_macro r c), next_frame := Suc (next_frame m), world := v \<rparr>"
    have "run_jumps m = at_catch ?m1 v" using sub by (simp add: start runs_as_def Exits)
    also have "\<dots> = run_jumps ?m2" by (cases m) (simp add: at_catch_def EFI_NANOLIBC_TRY_def)
    finally have "run_jumps m = run_jumps ?m2" .
    then have "runs_as m armed True (meaning (c r) v)"
      by (intro rest[where after = ?m2 and s = r and g' = "frame m" and site' = "In_macro r c" and n = "Suc (next_frame m)" and v = v]) simp_all
    then show ?thesis by (simp add: efi_nanolibc_call_def Exits)
  qed (use sub in \<open>simp_all add: runs_as_def\<close>)
qed

text \<open>An exit whose own CATCH block leads to it again never ends.\<close>

lemma exit_again_hangs:
  assumes "running m = Exit n" "exc_jmp_buf m = Some (frame m, In_macro r (\<lambda>_. Exit n))"
  shows "run_jumps m = None"
proof -
  let ?loops = "\<lambda>m. running m = Exit n \<and> exc_jmp_buf m = Some (frame m, In_macro r (\<lambda>_. Exit n))"
  have "\<not> ?loops m" if "run_jumps m = Some y" for m :: "'a efi_world efi_machine" and y
  proof (rule run_jumps.raw_induct[where P = "\<lambda>m y. \<not> ?loops m", OF _ that])
    fix f and m :: "'a efi_world efi_machine" and y
    assume IH: "\<And>m y. f m = Some y \<Longrightarrow> \<not> ?loops m"
      and step: "(case jump_step m of Goes_on m' \<Rightarrow> f m' | Done n w \<Rightarrow> Some (Done n w) | Caught w \<Rightarrow> Some (Caught w) | Stale \<Rightarrow> Some Stale) = Some y"
    show "\<not> ?loops m"
    proof
      assume a: "?loops m"
      let ?m = "m\<lparr> world := snd (efi_exit n (world m)), running := Exit n \<rparr>"
      have "jump_step m = Goes_on ?m"
        using a by (cases m) (simp add: jump_step_def EFI_NANOLIBC_THROW_def unwind_def)
      then show False using IH[of ?m y] step a by simp
    qed
  qed
  then show ?thesis using assms by (cases "run_jumps m") blast+
qed

lemma exit_after_macro:
  assumes "exits_armed p True"
    and m: "running m = Call r p (\<lambda>_. Exit n)" "frame m = 1" "next_frame m = 2" "callers m = [(0, In_call_main)]"
  shows "run_jumps m = (if uses_macro p (world m) then Some Stale else None)"
proof -
  let ?m1 = "EFI_NANOLIBC_TRY (In_macro r (\<lambda>_. Exit n)) p m"
  have sub: "runs_as ?m1 True (uses_macro p (world m)) (meaning p (world m))"
    using runs_as_meaning[OF assms(1), of ?m1 1 "In_macro r (\<lambda>_. Exit n)" "[(0, In_call_main)]"] m
    by (simp add: EFI_NANOLIBC_TRY_def)
  have stale: "run_jumps m2 = Some Stale"
    if "running m2 = Exit n" "frame m2 = 1" "callers m2 = [(0, In_call_main)]" "exc_jmp_buf m2 = Some (g, site)" "2 \<le> g"
    for m2 :: "'a efi_world efi_machine" and g site
    using that by (simp add: run_jumps.simps[of m2] jump_step_def EFI_NANOLIBC_THROW_def unwind_def)
  show ?thesis
  proof (cases "meaning p (world m)")
    case (Returns i v)
    obtain b k where b:
      "if uses_macro p (world m) then \<exists>g site. b = Some (g, site) \<and> frame ?m1 \<le> g else b = exc_jmp_buf ?m1"
      "run_jumps ?m1 = run_jumps (?m1\<lparr> running := Return i, exc_jmp_buf := b, next_frame := k, world := v \<rparr>)"
      using sub by (auto simp: runs_as_def Returns)
    let ?m2 = "m\<lparr> running := Exit n, exc_jmp_buf := b, next_frame := k, world := v \<rparr>"
    have run: "run_jumps m = run_jumps ?m2"
      unfolding run_steps(4)[OF m(1)] b(2) by (cases m) (simp add: EFI_NANOLIBC_TRY_def run_steps(1))
    show ?thesis
    proof (cases "uses_macro p (world m)")
      case True
      with b(1) m(3) obtain g site where "b = Some (g, site)" "2 \<le> g" by (auto simp: EFI_NANOLIBC_TRY_def)
      then have "run_jumps ?m2 = Some Stale" using m by (intro stale[of _ g site]) simp_all
      with True run show ?thesis by simp
    next
      case False
      then have "run_jumps ?m2 = None"
        using b(1) by (intro exit_again_hangs[where n = n and r = r]) (simp_all add: EFI_NANOLIBC_TRY_def)
      with False run show ?thesis by simp
    qed
  next
    case (Exits i v)
    let ?m2 = "?m1\<lparr> world := v, running := Exit n, frame := 1, callers := [(0, In_call_main)] \<rparr>"
    have "run_jumps m = run_jumps ?m2 \<and> \<not> uses_macro p (world m)"
      using sub m run_steps(4)[OF m(1)]
      by (simp add: runs_as_def Exits at_catch_def) (simp add: EFI_NANOLIBC_TRY_def)
    moreover have "run_jumps ?m2 = None"
      using m(2) by (intro exit_again_hangs[where n = n and r = r]) (simp_all add: EFI_NANOLIBC_TRY_def)
    ultimately show ?thesis by simp
  qed (use sub in \<open>simp_all add: runs_as_def\<close>)
qed

section \<open>Properties\<close>

text \<open>
  C22. The comment in the header says that TRY can not be nested; but \<open>call_main\<close> is a TRY, so that every use of
  \<open>EFI_NANOLIBC_CALL\<close> is nested in it. For every program whose exits come before any use of the macro in
  the same function, however deep the calls are nested, the single jump buffer does what TRY and CATCH are meant
  to do: \<open>call_main\<close> returns, as if \<open>exit\<close> ended the innermost call in progress. An \<open>exit\<close> of \<open>main\<close>
  directly after its first such call, of any of these programs, does not reach \<open>call_main\<close>: when the function called has not used the macro itself, \<open>exit\<close> jumps back
  into the CATCH block of the call that is over, comes to the same \<open>exit\<close> again and never ends; otherwise it
  jumps into a frame that no longer exists.
\<close>

theorem jumps_are_structured:
  assumes "exits_armed main True"
  shows "call_main_jumps tfp d main m w = Some (call_main tfp d (\<lambda>_ _ _. meaning main) m argc argv w) \<and>
    call_main_jumps tfp d (Call r main (\<lambda>_. Exit n)) m w =
      (if uses_macro main (w\<lparr> main_retval := EXIT_FAILURE \<rparr>) then Some Faults else None)"
proof
  let ?w = "w\<lparr> main_retval := EXIT_FAILURE \<rparr>"
  let ?start = "\<lambda>p. \<lparr> running = p, frame = 0, callers = [], exc_jmp_buf = None, next_frame = 1, world = ?w \<rparr>"
  let ?m = "EFI_NANOLIBC_TRY In_call_main main (?start main)"
  have "runs_as ?m True (uses_macro main ?w) (meaning main ?w)"
    using runs_as_meaning[OF assms, of ?m 0 In_call_main "[]"] by (simp add: EFI_NANOLIBC_TRY_def)
  then consider i v where "meaning main ?w = Returns i v" "run_jumps ?m = Some (Done i v)"
    | i v where "meaning main ?w = Exits i v" "run_jumps ?m = Some (Caught v)"
    by (cases "meaning main ?w") (auto simp: runs_as_def at_catch_def EFI_NANOLIBC_TRY_def run_steps(2))
  then show "call_main_jumps tfp d main m w = Some (call_main tfp d (\<lambda>_ _ _. meaning main) m argc argv w)"
    by cases (simp_all add: call_main_jumps_def call_main_def Let_def)
  let ?m = "EFI_NANOLIBC_TRY In_call_main (Call r main (\<lambda>_. Exit n)) (?start (Call r main (\<lambda>_. Exit n)))"
  have "run_jumps ?m = (if uses_macro main ?w then Some Stale else None)"
    by (subst exit_after_macro[OF assms, of ?m r n]) (simp_all add: EFI_NANOLIBC_TRY_def)
  then show "call_main_jumps tfp d (Call r main (\<lambda>_. Exit n)) m w =
      (if uses_macro main ?w then Some Faults else None)"
    by (simp add: call_main_jumps_def Let_def)
qed

theorem jumps_are_structured_witness:
  "\<exists>w. call_main_jumps (\<lambda>m f a. f) (efi_libc example_services False)
      (Call EFI_UNSUPPORTED (Exit 3) (\<lambda>s. Return (if s = EFI_SUCCESS then 0 else 1))) (\<lambda>_. None) example_world =
      Some (Returns 1 w) \<and>
    call_main_jumps (\<lambda>m f a. f) (efi_libc example_services False)
      (Call EFI_UNSUPPORTED (Exit 3) (\<lambda>_. Exit 0)) (\<lambda>_. None) example_world = None \<and>
    call_main_jumps (\<lambda>m f a. f) (efi_libc example_services False)
      (Call EFI_UNSUPPORTED (Call EFI_UNSUPPORTED (Exit 3) (\<lambda>s. Return (if s = EFI_SUCCESS then 0 else 1))) (\<lambda>_. Exit 0))
      (\<lambda>_. None) example_world = Some Faults"
proof -
  let ?p = "Call EFI_UNSUPPORTED (Exit 3) (\<lambda>s. Return (if s = EFI_SUCCESS then 0 else 1))" and ?m = "\<lambda>_. None"
  have "exits_armed ?p True" "exits_armed (Exit 3) True" by simp_all
  with jumps_are_structured[of ?p "\<lambda>m f a. f" "efi_libc example_services False" ?m example_world]
    jumps_are_structured[of "Exit 3" "\<lambda>m f a. f" "efi_libc example_services False" ?m example_world]
  show ?thesis by (simp add: call_main_def efi_nanolibc_call_def Let_def)
qed

end
