(* ===== verification/Efi_Cxx.thy ===== *)
theory Efi_Cxx
  imports Cxx_String Efi_Pool
begin

text \<open>
  C++ strings on the EFI runtime: the strings' blocks come from the firmware's pool through
  \<open>operator new\<close>, \<open>malloc\<close> and \<open>AllocatePool\<close>, their text goes to the console through \<open>puts\<close>, the stream
  and \<open>OutputString\<close>.
\<close>

section \<open>What allocation does not touch\<close>

text \<open>A heap whose operations keep a part \<open>view\<close> of the world; so do the operations of strings on it.\<close>

locale silent_heap =
  fixes e :: "'w cxx_env" and view :: "'w \<Rightarrow> 'v"
  assumes malloc_view: "malloc (cx_libc e) n m w = Some (p, m', w') \<Longrightarrow> view w' = view w"
    and free_view: "free (cx_libc e) p m w = Some (m', w') \<Longrightarrow> view w' = view w"
begin

lemma attempt_view: "attempt x w = Returns a w' \<Longrightarrow> view w' = view w"
  by (cases x) auto

lemma copy_view: "copy dst src n m w = Returns m' w' \<Longrightarrow> view w' = view w"
  unfolding copy_def by (rule attempt_view)

lemma fill_view: "fill dst c n m w = Returns m' w' \<Longrightarrow> view w' = view w"
  unfolding fill_def by (rule attempt_view)

lemma new_view: "operator_new_array e n m w = Returns r w' \<Longrightarrow> view w' = view w"
  by (auto simp: operator_new_array_def operator_new_def andthen_Returns_iff cxx_assert_Returns_iff
      split: option.splits dest: malloc_view)

lemma delete_view: "operator_delete_array e p m w = Returns m' w' \<Longrightarrow> view w' = view w"
  by (auto simp: operator_delete_array_def operator_delete_def split: option.splits if_splits dest: free_view)

lemma NewData_view: "NewData e n m w = Returns r w' \<Longrightarrow> view w' = view w"
  by (auto simp: NewData_def andthen_Returns_iff split: if_splits dest!: new_view attempt_view)

lemma clear_view: "string_clear e this st w = Returns r w' \<Longrightarrow> view w' = view w"
  by (cases st) (auto simp: string_clear_def andthen_Returns_iff dest!: delete_view)

lemma resize_view: "string_resize e this n c st w = Returns r w' \<Longrightarrow> view w' = view w"
  by (cases st) (auto simp: string_resize_def Let_def andthen_Returns_iff split: if_splits
      dest!: NewData_view clear_view copy_view fill_view)

lemma append_view: "string_append e this other st w = Returns r w' \<Longrightarrow> view w' = view w"
  by (cases st) (auto simp: string_append_def Let_def andthen_Returns_iff dest!: resize_view copy_view)

end

text \<open>What C++ code works with on EFI.\<close>

definition efi_cxx ::
  "formatter \<Rightarrow> (nat \<Rightarrow> ptr \<times> ptr \<times> int \<times> ptr) \<Rightarrow> 'f efi_services \<Rightarrow> bool \<Rightarrow> 'f efi_world cxx_env" where
  "efi_cxx tfp here bs se = \<lparr> cx_tfp = tfp, cx_libc = efi_libc bs se, cx_here = here \<rparr>"

interpretation efi_heap: silent_heap "efi_cxx tfp here bs se" conout for tfp here bs se
proof
  show "malloc (cx_libc (efi_cxx tfp here bs se)) n m w = Some (p, m', w') \<Longrightarrow> conout w' = conout w" for n m w p m' w'
    by (auto simp: efi_cxx_def malloc_def efi_libc_simps efi_sysdeps_def Let_def bind_eq_Some_conv
        split: option.splits if_splits prod.splits)
  show "free (cx_libc (efi_cxx tfp here bs se)) p m w = Some (m', w') \<Longrightarrow> conout w' = conout w" for p m w m' w'
    by (cases "FreePool bs (unat (the (load_u64 m (get_malloc_block p)))) m (firmware w)")
      (auto simp: efi_cxx_def free_def efi_libc_simps efi_sysdeps_def Let_def bind_eq_Some_conv split: if_splits)
qed

section \<open>A string in the firmware's pool\<close>

lemma bump_pool_block:
  "\<exists>p m w. p \<noteq> NULL \<and> heap_inv (efi_libc bump_services False) (\<lambda>w. set (snd (firmware w))) (\<lambda>D w. bump_rt D (firmware w)) m w \<and>
    malloc_block (\<lambda>w. set (snd (firmware w))) m w p 4 \<and> fst (firmware w) \<le> 73"
proof -
  let ?d = "efi_libc bump_services False" and ?live = "\<lambda>w. set (snd (firmware w))" and ?rt = "\<lambda>D w. bump_rt D (firmware w)"
  have inv: "heap_inv ?d ?live ?rt (\<lambda>_. None) bump_world"
    using efi_runtime_heap[of "\<lambda>w. set (snd w)" bump_rt bump_services False] bump_malloc_ok bump_free_ok
    by (auto simp: heap_inv_def bump_services_def bump_world_def bump_rt_def)
  obtain p m w where mal: "malloc ?d 4 (\<lambda>_. None) bump_world = Some (p, m, w)" "heap_inv ?d ?live ?rt m w"
    "p \<noteq> NULL \<longrightarrow> malloc_block ?live m w p 4"
    using malloc_contract[OF inv, of 4] by (auto split: if_splits simp del: split_paired_Ex)
  have "p \<noteq> NULL \<and> fst (firmware w) \<le> 73"
    using bump_pool_grows[OF mal(1)] by (simp add: bump_world_def)
  with mal show ?thesis by blast
qed

section \<open>Properties\<close>

text \<open>
  C26. Strings reach the console. On EFI, appending one string to another, not both empty, and printing
  the result's \<open>data()\<close> with \<open>puts\<close> shows the bytes of both as far as the first NUL among them, if there is one,
  and a new line, after what the console has shown before; or the program ends in \<open>append\<close> because the firmware's
  pool has no block for the result. The two strings are different objects with data of their own, in a heap in order, and together
  shorter than \<open>2 ^ 63 - 32\<close> bytes.
\<close>

theorem string_on_efi:
  assumes "heap_inv (efi_libc bs se) live rt m w"
    "holds live m w (obs this) xs" "holds live m w (obs other) ys" "apart (obs other) (obs this)" "other \<noteq> this"
    "length xs + length ys + 32 < 2 ^ 63" "xs @ ys \<noteq> []"
  shows "stops (string_append (efi_cxx tfp here bs se) this other (m, obs) w) \<and> out_of_memory (efi_cxx tfp here bs se) (Suc (length xs + length ys)) m w \<or>
    (\<exists>m' obs' w' w''. string_append (efi_cxx tfp here bs se) this other (m, obs) w = Returns (m', obs') w' \<and>
       puts (efi_libc bs se) m' (string_data lit0 (obs' this)) w' = Returns 1 w'' \<and>
       shown (conout w'') = shown (conout w) @ efi_emit (takeWhile (\<lambda>b. b \<noteq> 0) (xs @ ys) @ [10]))"
proof -
  let ?e = "efi_cxx tfp here bs se"
  have inv: "heap_inv (cx_libc ?e) live rt m w" using assms(1) by (simp add: efi_cxx_def)
  have len: "length xs + length ys + 32 < 2 ^ 64" using assms(6) by simp
  have ap: "stops (string_append (efi_cxx tfp here bs se) this other (m, obs) w) \<and> out_of_memory (efi_cxx tfp here bs se) (Suc (length xs + length ys)) m w \<or>
      updated ?e live rt m obs w this (string_append (efi_cxx tfp here bs se) this other (m, obs) w) (xs @ ys)"
    by (rule append_contract[of ?e live rt m w obs this xs other ys, OF inv assms(2-5) len])
  then show ?thesis
  proof
    assume "updated ?e live rt m obs w this (string_append (efi_cxx tfp here bs se) this other (m, obs) w) (xs @ ys)"
    then obtain m' s' w' where r: "string_append (efi_cxx tfp here bs se) this other (m, obs) w = Returns (m', obs(this := s')) w'"
      "holds live m' w' s' (xs @ ys)" by (auto simp: updated_def)
    have l: "load m' (str_data s') (Suc (length (xs @ ys))) = Some ((xs @ ys) @ [0])" and nz: "str_data s' \<noteq> NULL"
      using r(2) assms(7) malloc_block_ne_NULL by (auto simp: holds_def)
    define zs where "zs = takeWhile (\<lambda>b. b \<noteq> 0) (xs @ ys)"
    have zs: "length zs \<le> length (xs @ ys)" "zs = take (length zs) ((xs @ ys) @ [0])"
      unfolding zs_def by (rule length_takeWhile_le) (metis append.assoc takeWhile_dropWhile_id append_eq_conv_conj)
    have "((xs @ ys) @ [0]) ! length zs = 0"
      using zs(1) nth_length_takeWhile[of "\<lambda>b. b \<noteq> 0" "xs @ ys", folded zs_def] by (auto simp: nth_append)
    then have "m' (str_data s' + length zs) = Some 0" using l zs(1) unfolding load_iff by auto
    moreover have "load m' (str_data s') (length zs) = Some zs"
      using load_prefix[OF l, of "length zs"] zs by simp
    ultimately have c: "cstr m' (string_data lit0 s') zs"
      using nz by (auto simp: string_data_def cstr_iff zs_def dest: set_takeWhileD)
    have nz0: "\<forall>b \<in> set zs. b \<noteq> 0" by (auto simp: zs_def dest: set_takeWhileD)
    have len63: "length zs < 2 ^ 63" using zs(1) assms(6) by simp
    obtain w'' where "puts (efi_libc bs se) m' (string_data lit0 s') w' = Returns 1 w''"
      "shown (conout w'') = shown (conout w') @ efi_emit (zs @ [10])"
      using efi_stdout.puts_emits[where d = "efi_libc bs se", OF efi_libc_simps(5) c nz0 _ len63, of w'] by auto
    moreover have "conout w' = conout w" by (rule efi_heap.append_view[OF r(1)])
    ultimately show ?thesis using r(1) by (auto simp: zs_def)
  qed blast
qed

theorem string_on_efi_witness:
  "\<exists>m w obs m' obs' w' w''. string_append (efi_cxx (\<lambda>m f a. f) (\<lambda>_. (1, 2, 3, 4)) bump_services False) 0 1 (m, obs) w = Returns (m', obs') w' \<and>
     puts (efi_libc bump_services False) m' (string_data 7 (obs' 0)) w' = Returns 1 w'' \<and>
     shown (conout w'') = shown (conout w) @ efi_emit [97, 98, 99, 10]"
proof -
  let ?live = "\<lambda>w :: bump efi_world. set (snd (firmware w))"
  obtain p m w where b: "p \<noteq> NULL" "heap_inv (efi_libc bump_services False) ?live (\<lambda>D w. bump_rt D (firmware w)) m w"
    "malloc_block ?live m w p 4" "fst (firmware w) \<le> 73" using bump_pool_block by blast
  define m' where "m' = store m p [97, 98, 99, 0]"
  define obs where "obs = (\<lambda>i :: nat. if i = 0 then \<lparr> str_size = 3, str_data = p \<rparr> else no_string)"
  have m': "heap_inv (efi_libc bump_services False) ?live (\<lambda>D w. bump_rt D (firmware w)) m' w" "malloc_block ?live m' w p 4"
    using heap.write_block[OF b(2,3), of 0 "[97, 98, 99, 0]"] b(3) by (auto simp: m'_def)
  have "load m' p (length [97 :: u8, 98, 99, 0]) = Some [97, 98, 99, 0]" unfolding m'_def by (rule load_store_same)
  moreover have "malloc_block ?live m' w p (Suc (length [97 :: u8, 98, 99]))" using m'(2) by (simp add: eval_nat_numeral)
  ultimately have h: "holds ?live m' w (obs 0) [97, 98, 99]" "holds ?live m' w (obs 1) []"
    by (simp_all add: holds_def obs_def no_string_def del: load.simps)
  have a: "apart (obs 1) (obs 0)" by (simp add: apart_def obs_def no_string_def)
  have nz: "\<not> out_of_memory (efi_cxx (\<lambda>m f a. f) (\<lambda>_. (1, 2, 3, 4)) bump_services False) (Suc (length [97 :: u8, 98, 99] + length ([] :: u8 list))) m' w"
  proof
    assume "out_of_memory (efi_cxx (\<lambda>m f a. f) (\<lambda>_. (1, 2, 3, 4)) bump_services False) (Suc (length [97 :: u8, 98, 99] + length ([] :: u8 list))) m' w"
    then obtain m'' w'' where "malloc (efi_libc bump_services False) 4 m' w = Some (NULL, m'', w'')"
      by (auto simp: out_of_memory_def efi_cxx_def)
    moreover have "0 < fst (firmware w)" using b(2) by (simp add: heap_inv_def bump_rt_def)
    ultimately show False using bump_pool_grows b(4) by fastforce
  qed
  have "\<exists>m'' obs' w' w''. string_append (efi_cxx (\<lambda>m f a. f) (\<lambda>_. (1, 2, 3, 4)) bump_services False) 0 1 (m', obs) w = Returns (m'', obs') w' \<and>
     puts (efi_libc bump_services False) m'' (string_data 7 (obs' 0)) w' = Returns 1 w'' \<and>
     shown (conout w'') = shown (conout w) @ efi_emit [97, 98, 99, 10]"
    using string_on_efi[of bump_services False ?live "\<lambda>D w. bump_rt D (firmware w)" m' w obs 0 "[97, 98, 99]" 1 "[]" "\<lambda>m f a. f" "\<lambda>_. (1, 2, 3, 4)" 7, OF m'(1) h a] nz
    by simp
  then show ?thesis by blast
qed

end
