(* ===== verification/Heap_Client.thy ===== *)
theory Heap_Client
  imports Malloc
begin

text \<open>
  The heap as its clients see it. A client makes calls to \<open>c/malloc.c\<close> and reads and writes its blocks;
  the specification keeps the blocks as a map from addresses to contents and says what each call may
  answer. The library's heap refines it, for any sequence of calls, over any runtime that meets the
  contract of the allocation hooks.
\<close>

section \<open>Calls and what the code answers\<close>

datatype heap_call =
    Malloc u64
  | Calloc u64 u64
  | Realloc ptr u64
  | Free ptr
  | Write ptr nat "u8 list"
  | Read ptr nat nat

datatype heap_answer = Pointer ptr | Bytes "u8 list" | Finished

definition heap_run :: "'w nnlc_internal_data \<Rightarrow> heap_call \<Rightarrow> mem \<times> 'w \<Rightarrow> (heap_answer \<times> mem \<times> 'w) option" where
  "heap_run d c = (\<lambda>(m, w). case c of
      Malloc n \<Rightarrow> do { (p, s) \<leftarrow> malloc d n m w; Some (Pointer p, s) }
    | Calloc num sz \<Rightarrow> do { (p, s) \<leftarrow> calloc d num sz m w; Some (Pointer p, s) }
    | Realloc p n \<Rightarrow> do { (p, s) \<leftarrow> realloc d p n m w; Some (Pointer p, s) }
    | Free p \<Rightarrow> do { s \<leftarrow> free d p m w; Some (Finished, s) }
    | Write p i bs \<Rightarrow> if mapped m (p + i) (length bs) then Some (Finished, store m (p + i) bs, w) else None
    | Read p i n \<Rightarrow> do { bs \<leftarrow> load m (p + i) n; Some (Bytes bs, m, w) })"

text \<open>A run of a client: its calls, each with its answer.\<close>

inductive code_trace :: "('c \<Rightarrow> 's \<Rightarrow> ('r \<times> 's) option) \<Rightarrow> 's \<Rightarrow> ('c \<times> 'r) list \<Rightarrow> 's \<Rightarrow> bool" for step where
  Stop: "code_trace step s [] s"
| Call: "step c s = Some (r, s1) \<Longrightarrow> code_trace step s1 tr s' \<Longrightarrow> code_trace step s ((c, r) # tr) s'"

section \<open>The specification\<close>

type_synonym heap_blocks = "ptr \<rightharpoonup> u8 list"

text \<open>What a client may do: what C allows, with sizes that leave room for the header of \<open>malloc.c\<close>, which
  C does not demand.\<close>

definition small :: "u64 \<Rightarrow> bool" where "small n \<longleftrightarrow> unat n + 31 < 2 ^ 64"

fun permitted :: "heap_call \<Rightarrow> heap_blocks \<Rightarrow> bool" where
  "permitted (Malloc n) H \<longleftrightarrow> small n"
| "permitted (Calloc num sz) H \<longleftrightarrow> unat num * unat sz + 31 < 2 ^ 64 \<or> 2 ^ 64 \<le> unat num * unat sz"
| "permitted (Realloc p n) H \<longleftrightarrow> small n \<and> (p = NULL \<or> p \<in> dom H)"
| "permitted (Free p) H \<longleftrightarrow> p = NULL \<or> p \<in> dom H"
| "permitted (Write p i bs) H \<longleftrightarrow> (case H p of None \<Rightarrow> False | Some xs \<Rightarrow> i + length bs \<le> length xs)"
| "permitted (Read p i n) H \<longleftrightarrow> (case H p of None \<Rightarrow> False | Some xs \<Rightarrow> i + n \<le> length xs)"

text \<open>An address for a new block of \<open>n\<close> bytes: aligned, and apart from every block there is.\<close>

definition room_at :: "heap_blocks \<Rightarrow> ptr \<Rightarrow> nat \<Rightarrow> bool" where
  "room_at H p n \<longleftrightarrow> p \<noteq> NULL \<and> 16 dvd p \<and> p + n \<le> 2 ^ 64 \<and> p \<notin> dom H \<and>
     (\<forall>q xs. H q = Some xs \<longrightarrow> disjnt p n q (length xs))"

text \<open>
  The answers and the blocks after each call. Nothing is said, \<open>None\<close>, after a call that is not permitted,
  and after a \<open>calloc\<close> that found no memory, which clears memory at \<open>NULL\<close>. A \<open>realloc\<close> that finds no
  memory has released the block.
\<close>

inductive heap_spec :: "heap_call \<Rightarrow> heap_blocks option \<Rightarrow> heap_answer \<Rightarrow> heap_blocks option \<Rightarrow> bool" where
  No_memory: "small n \<Longrightarrow> heap_spec (Malloc n) (Some H) (Pointer NULL) (Some H)"
| Malloc: "small n \<Longrightarrow> 0 < n \<Longrightarrow> room_at H p (unat n) \<Longrightarrow> length xs = unat n \<Longrightarrow>
    heap_spec (Malloc n) (Some H) (Pointer p) (Some (H(p \<mapsto> xs)))"
| Calloc_none: "num = 0 \<or> sz = 0 \<or> 2 ^ 64 \<le> unat num * unat sz \<Longrightarrow>
    heap_spec (Calloc num sz) (Some H) (Pointer NULL) (Some H)"
| Calloc: "k = unat num * unat sz \<Longrightarrow> 0 < k \<Longrightarrow> k + 31 < 2 ^ 64 \<Longrightarrow> room_at H p k \<Longrightarrow>
    heap_spec (Calloc num sz) (Some H) (Pointer p) (Some (H(p \<mapsto> replicate k 0)))"
| Calloc_fails: "0 < unat num * unat sz \<Longrightarrow> unat num * unat sz + 31 < 2 ^ 64 \<Longrightarrow>
    heap_spec (Calloc num sz) (Some H) (Pointer NULL) None"
| Realloc_new: "heap_spec (Malloc n) (Some H) r A \<Longrightarrow> heap_spec (Realloc NULL n) (Some H) r A"
| Realloc_free: "p \<in> dom H \<Longrightarrow> heap_spec (Realloc p 0) (Some H) (Pointer NULL) (Some (H(p := None)))"
| Realloc_fits: "H p = Some xs \<Longrightarrow> 0 < n \<Longrightarrow> unat n \<le> length xs \<Longrightarrow> heap_spec (Realloc p n) (Some H) (Pointer p) (Some H)"
| Realloc: "H p = Some xs \<Longrightarrow> small n \<Longrightarrow> length xs + length ys = unat n \<Longrightarrow> 0 < length ys \<Longrightarrow> room_at H q (unat n) \<Longrightarrow>
    heap_spec (Realloc p n) (Some H) (Pointer q) (Some (H(p := None, q \<mapsto> xs @ ys)))"
| Realloc_fails: "H p = Some xs \<Longrightarrow> small n \<Longrightarrow> length xs < unat n \<Longrightarrow>
    heap_spec (Realloc p n) (Some H) (Pointer NULL) (Some (H(p := None)))"
| Free: "p = NULL \<or> p \<in> dom H \<Longrightarrow> heap_spec (Free p) (Some H) Finished (Some (H(p := None)))"
| Write: "H p = Some xs \<Longrightarrow> i + length bs \<le> length xs \<Longrightarrow>
    heap_spec (Write p i bs) (Some H) Finished (Some (H(p \<mapsto> take i xs @ bs @ drop (i + length bs) xs)))"
| Read: "H p = Some xs \<Longrightarrow> i + n \<le> length xs \<Longrightarrow>
    heap_spec (Read p i n) (Some H) (Bytes (take n (drop i xs))) (Some H)"
| Not_permitted: "\<not> permitted c H \<Longrightarrow> heap_spec c (Some H) r None"
| Nothing_said: "heap_spec c None r None"

inductive spec_trace :: "('c \<Rightarrow> 'a \<Rightarrow> 'r \<Rightarrow> 'a \<Rightarrow> bool) \<Rightarrow> 'a \<Rightarrow> ('c \<times> 'r) list \<Rightarrow> 'a \<Rightarrow> bool" for spec where
  Stop: "spec_trace spec A [] A"
| Call: "spec c A r A1 \<Longrightarrow> spec_trace spec A1 tr A' \<Longrightarrow> spec_trace spec A ((c, r) # tr) A'"

section \<open>Refinement of a specification, step by step\<close>

text \<open>
  \<open>rel A s\<close> says that \<open>A\<close> describes the state \<open>s\<close>. When every step of the code answers as the specification
  allows, with the description kept, then so does every run.
\<close>

locale simulation =
  fixes step :: "'c \<Rightarrow> 's \<Rightarrow> ('r \<times> 's) option"
    and spec :: "'c \<Rightarrow> 'a \<Rightarrow> 'r \<Rightarrow> 'a \<Rightarrow> bool"
    and rel :: "'a \<Rightarrow> 's \<Rightarrow> bool"
  assumes simulated: "rel A s \<Longrightarrow> step c s = Some (r, s') \<Longrightarrow> \<exists>A'. spec c A r A' \<and> rel A' s'"
begin

lemma trace_simulated: "code_trace step s tr s' \<Longrightarrow> rel A s \<Longrightarrow> \<exists>A'. spec_trace spec A tr A' \<and> rel A' s'"
proof (induction arbitrary: A rule: code_trace.induct)
  case (Call c s r s1 tr s')
  obtain A1 where "spec c A r A1" "rel A1 s1" using simulated[OF Call.prems Call.hyps(1)] by blast
  with Call.IH show ?case by (meson spec_trace.Call)
qed (blast intro: spec_trace.Stop)

end

section \<open>The library's heap\<close>

definition describes ::
  "'w nnlc_internal_data \<Rightarrow> ('w \<Rightarrow> (ptr \<times> nat) set) \<Rightarrow> (ptr set \<Rightarrow> 'w \<Rightarrow> bool) \<Rightarrow> heap_blocks \<Rightarrow> mem \<Rightarrow> 'w \<Rightarrow> bool" where
  "describes d live rt H m w \<longleftrightarrow> heap_inv d live rt m w \<and>
     (\<forall>p xs. H p = Some xs \<longrightarrow> malloc_block live m w p (length xs) \<and> load m p (length xs) = Some xs)"

definition heap_rel ::
  "'w nnlc_internal_data \<Rightarrow> ('w \<Rightarrow> (ptr \<times> nat) set) \<Rightarrow> (ptr set \<Rightarrow> 'w \<Rightarrow> bool) \<Rightarrow> heap_blocks option \<Rightarrow> mem \<times> 'w \<Rightarrow> bool" where
  "heap_rel d live rt A s \<longleftrightarrow> (case A of None \<Rightarrow> True | Some H \<Rightarrow> describes d live rt H (fst s) (snd s))"

lemma describesD:
  assumes "describes d live rt H m w" "H p = Some xs"
  shows "malloc_block live m w p (length xs)" "load m p (length xs) = Some xs" "mapped m p (length xs)" "p \<noteq> NULL" "0 < length xs"
proof -
  have inv: "heap_inv d live rt m w" using assms(1) by (simp add: describes_def)
  show b: "malloc_block live m w p (length xs)" and "load m p (length xs) = Some xs"
    using assms by (simp_all add: describes_def)
  show "mapped m p (length xs)" "p \<noteq> NULL" using heap.block_mapped[OF inv b] by simp_all
  show "0 < length xs" using b by (auto simp: malloc_block_def malloc_block_at_def)
qed

lemma unmapped_disjnt:
  assumes "mapped m q k" "\<forall>i < n. m (p + i) = None"
  shows "disjnt p n q k"
proof (rule ccontr)
  assume "\<not> disjnt p n q k"
  then have "max p q - p < n" "max p q - q < k" "p \<le> max p q" "q \<le> max p q" by (auto simp: disjnt_def)
  then have "m (max p q) = None" "m (max p q) \<noteq> None"
    using assms(2) mappedD[OF assms(1), of "max p q - q"] by (metis le_add_diff_inverse)+
  then show False by contradiction
qed

text \<open>Room for a block is where memory was not mapped.\<close>

lemma room_atI:
  assumes "describes d live rt H m w" "p \<noteq> NULL" "16 dvd p" "p + n \<le> 2 ^ 64" "0 < n" "\<forall>i < n. m (p + i) = None"
  shows "room_at H p n"
proof -
  have *: "disjnt p n q (length xs) \<and> 0 < length xs" if "H q = Some xs" for q xs
    using unmapped_disjnt[OF describesD(3)[OF assms(1) that] assms(6)] describesD(5)[OF assms(1) that] by simp
  moreover have "p \<notin> dom H" using *[of p] assms(5) by (cases "H p") (auto simp: disjnt_def)
  ultimately show ?thesis using assms(2-4) by (auto simp: room_at_def)
qed

lemma describes_less: "describes d live rt H m w \<Longrightarrow> describes d live rt (H(p := None)) m w"
  by (simp add: describes_def)

text \<open>Blocks that survive, and one more.\<close>

lemma describes_keep:
  assumes "describes d live rt H m w" "heap_inv d live rt m' w'"
    "\<And>q xs. H q = Some xs \<Longrightarrow> q \<noteq> p \<Longrightarrow> malloc_block live m' w' q (length xs) \<and> load m' q (length xs) = load m q (length xs)"
  shows "describes d live rt (H(p := None)) m' w'"
  using assms by (auto simp: describes_def)

lemma describes_add:
  assumes "describes d live rt (H(p := None)) m w" "malloc_block live m w p (length xs)" "load m p (length xs) = Some xs"
  shows "describes d live rt (H(p \<mapsto> xs)) m w"
  using assms by (auto simp: describes_def)

lemma load_extended: "mapped m p n \<Longrightarrow> (\<And>a. m a \<noteq> None \<Longrightarrow> m' a = m a) \<Longrightarrow> load m' p n = load m p n"
  by (intro load_cong) (auto simp: mapped_def)

lemma malloc_simulated:
  assumes H: "describes d live rt H m w" and n: "small n" and mal: "malloc d n m w = Some (p, m', w')"
  shows "\<exists>H'. heap_spec (Malloc n) (Some H) (Pointer p) (Some H') \<and> describes d live rt H' m' w'"
proof (cases "0 < n")
  case True
  then have n': "0 < unat n" "unat n + 31 < 2 ^ 64" using n by (simp_all add: small_def unat_gt_0 word_gt_0)
  have inv: "heap_inv d live rt m w" using H by (simp add: describes_def)
  have a: "heap_inv d live rt m' w'" "\<And>a. m a \<noteq> None \<Longrightarrow> m' a = m a" "\<And>q k. malloc_block live m w q k \<Longrightarrow> malloc_block live m' w' q k"
    "if p = NULL then m' = m
     else malloc_block live m' w' p (unat n) \<and> 16 dvd p \<and> (\<forall>i < unat n. m (p + i) = None)"
    using malloc_contract[OF inv n'] mal by auto
  have keep: "malloc_block live m' w' q (length xs) \<and> load m' q (length xs) = load m q (length xs)" if "H q = Some xs" for q xs
    using a(3) describesD(1)[OF H that] load_extended[OF describesD(3)[OF H that] a(2)] by blast
  show ?thesis
  proof (cases "p = NULL")
    case True
    have "describes d live rt H m' w'" using H a(1) keep by (simp add: describes_def)
    with True n show ?thesis by (blast intro: heap_spec.No_memory)
  next
    case False
    with a(4) have p: "malloc_block live m' w' p (unat n)" "16 dvd p" "\<forall>i < unat n. m (p + i) = None" by simp_all
    obtain xs where xs: "load m' p (unat n) = Some xs" "length xs = unat n"
      using heap.block_mapped[OF a(1) p(1)] by (auto simp: mapped_iff_load load_iff)
    have "room_at H p (unat n)"
      using heap.block_mapped[OF a(1) p(1)] by (intro room_atI[OF H False p(2) _ n'(1) p(3)]) simp
    moreover have "describes d live rt (H(p \<mapsto> xs)) m' w'"
      using p(1) xs keep by (intro describes_add describes_keep[OF H a(1)]) simp_all
    ultimately show ?thesis using n True xs(2) by (blast intro: heap_spec.Malloc)
  qed
next
  case False
  then have "p = NULL" "m' = m" "w' = w" using mal by (auto simp: malloc_def Let_def word_gt_0)
  with H n show ?thesis by (blast intro: heap_spec.No_memory)
qed

lemma free_simulated:
  assumes H: "describes d live rt H m w" and p: "p = NULL \<or> p \<in> dom H" and fr: "free d p m w = Some (m', w')"
  shows "describes d live rt (H(p := None)) m' w'"
proof (cases "p = NULL")
  case True
  then show ?thesis using H fr by (simp add: free_def describes_less)
next
  case False
  then obtain xs where xs: "H p = Some xs" using p by auto
  have inv: "heap_inv d live rt m w" using H by (simp add: describes_def)
  have r: "heap_inv d live rt m' w'"
    "\<forall>q k. malloc_block live m w q k \<longrightarrow> q \<noteq> p \<longrightarrow> malloc_block live m' w' q k \<and> load m' q k = load m q k"
    using free_contract[OF inv describesD(1)[OF H xs]] fr by auto
  show ?thesis using describesD(1)[OF H] r(2) by (intro describes_keep[OF H r(1)]) blast
qed

lemma write_simulated:
  assumes H: "describes d live rt H m w" and xs: "H p = Some xs" and l: "i + length bs \<le> length xs"
  shows "describes d live rt (H(p \<mapsto> take i xs @ bs @ drop (i + length bs) xs)) (store m (p + i) bs) w" (is "describes _ _ _ (H(p \<mapsto> ?ys)) ?m w")
proof -
  have inv: "heap_inv d live rt m w" using H by (simp add: describes_def)
  have c: "heap_inv d live rt ?m w" "\<And>q k. malloc_block live m w q k \<Longrightarrow> malloc_block live ?m w q k"
    using write_contract[OF inv describesD(1)[OF H xs] l] by simp_all
  have len: "length ?ys = length xs" using l by simp
  have keep: "load ?m q (length zs) = load m q (length zs)" if "H q = Some zs" "q \<noteq> p" for q zs
  proof -
    have "disjnt p (length xs) q (length zs)"
      using heap.block_disjnt[OF inv describesD(1)[OF H xs] describesD(1)[OF H that(1)]] that(2) by blast
    then have "disjnt (p + i) (length bs) q (length zs)" by (rule disjnt_sub) (use l in auto)
    then show ?thesis by (intro load_store_disjnt) (simp add: disjnt_sym)
  qed
  have "describes d live rt (H(p := None)) ?m w"
    by (rule describes_keep[OF H c(1)]) (rule conjI[OF c(2)[OF describesD(1)[OF H]] keep])
  moreover have "load ?m p (length ?ys) = Some ?ys"
    unfolding load_iff
  proof (intro conjI allI impI)
    fix j assume j: "j < length ?ys"
    then have "m (p + j) = Some (xs ! j)" using load_nth[OF describesD(2)[OF H xs]] len by simp
    moreover have "?ys ! j = (if i \<le> j \<and> j < i + length bs then bs ! (j - i) else xs ! j)"
      using j l by (cases "j < i") (auto simp: nth_append min_absorb2)
    ultimately show "?m (p + j) = Some (?ys ! j)" by (simp add: store_def)
  qed simp
  moreover have "malloc_block live ?m w p (length ?ys)" unfolding len by (rule c(2)[OF describesD(1)[OF H xs]])
  ultimately show ?thesis by (intro describes_add)
qed

text \<open>\<open>realloc\<close> of a block.\<close>

lemma realloc_simulated:
  assumes H: "describes d live rt H m w" and xs: "H p = Some xs" and n: "small n"
    and re: "realloc d p n m w = Some (q, m', w')"
  shows "\<exists>H'. heap_spec (Realloc p n) (Some H) (Pointer q) (Some H') \<and> describes d live rt H' m' w'"
proof -
  note p = describesD[OF H xs]
  have inv: "heap_inv d live rt m w" using H by (simp add: describes_def)
  consider (zero) "n = 0" | (fits) "0 < n" "unat n \<le> length xs" | (grow) "length xs < unat n"
    by (metis not_le word_gt_0)
  then show ?thesis
  proof cases
    case zero
    have "free d p m w = Some (m', w')" "q = NULL"
      using re p(4) zero by (auto simp: realloc_def bind_eq_Some_conv)
    with free_simulated[OF H] xs zero show ?thesis by (blast intro: heap_spec.Realloc_free)
  next
    case fits
    then have "0 < unat n" by (simp add: unat_gt_0 word_gt_0)
    from realloc_fits[OF p(1) this fits(2)] have "q = p" "m' = m" "w' = w" using re by simp_all
    with H xs fits show ?thesis by (blast intro: heap_spec.Realloc_fits)
  next
    case grow
    then have n': "0 < unat n" "unat n + 31 < 2 ^ 64" using n by (simp_all add: small_def)
    obtain q0 m1 w1 where mal: "malloc d n m w = Some (q0, m1, w1)"
      and fresh: "q0 \<noteq> NULL \<longrightarrow> 16 dvd q0 \<and> (\<forall>i < unat n. m (q0 + i) = None)"
      using malloc_contract[OF inv n'] by (auto split: if_splits)
    have r: "q0 = q" "heap_inv d live rt m' w'"
      "q \<noteq> NULL \<longrightarrow> malloc_block live m' w' q (unat n) \<and> load m' q (length xs) = Some xs \<and> q \<noteq> p"
      "\<forall>x l. malloc_block live m w x l \<longrightarrow> x \<noteq> p \<longrightarrow> malloc_block live m' w' x l \<and> load m' x l = load m x l"
      using realloc_grow[OF inv p(1,2) grow n'(2) mal] re by auto
    have rest: "describes d live rt (H(p := None)) m' w'"
      using describesD(1)[OF H] r(4) by (intro describes_keep[OF H r(2)]) blast
    show ?thesis
    proof (cases "q = NULL")
      case True
      with rest xs n grow show ?thesis by (blast intro: heap_spec.Realloc_fails)
    next
      case False
      with r(3) have q: "malloc_block live m' w' q (unat n)" "load m' q (length xs) = Some xs" "q \<noteq> p" by simp_all
      note qm = heap.block_mapped[OF r(2) q(1)]
      obtain zs where zs: "load m' q (unat n) = Some zs" using qm by (auto simp: mapped_iff_load)
      then have len: "length zs = unat n" by (simp add: load_iff)
      have "take (length xs) zs = xs" using load_prefix[OF zs, of "length xs"] q(2) grow by simp
      then have split: "zs = xs @ drop (length xs) zs" by (metis append_take_drop_id)
      have "room_at H q (unat n)"
        using fresh False qm unfolding r(1) by (intro room_atI[OF H False _ _ n'(1)]) auto
      then have "heap_spec (Realloc p n) (Some H) (Pointer q) (Some (H(p := None, q \<mapsto> xs @ drop (length xs) zs)))"
        using xs n grow len by (intro heap_spec.Realloc[where xs = xs]) auto
      moreover have "describes d live rt (H(p := None, q \<mapsto> xs @ drop (length xs) zs)) m' w'"
        unfolding split[symmetric] using rest q(1) zs len by (intro describes_add) (auto intro: describes_less)
      ultimately show ?thesis by blast
    qed
  qed
qed

lemma calloc_zero: "num = 0 \<or> sz = 0 \<Longrightarrow> calloc d num sz m w = Some (NULL, m, w)"
  by (cases "sz = 0") (auto simp: calloc_def malloc_def memset_def)

lemma calloc_simulated:
  assumes H: "describes d live rt H m w" and ok: "permitted (Calloc num sz) H"
    and ca: "calloc d num sz m w = Some (p, m', w')"
  shows "\<exists>A. heap_spec (Calloc num sz) (Some H) (Pointer p) A \<and> (\<forall>H'. A = Some H' \<longrightarrow> describes d live rt H' m' w')"
proof (cases "num = 0 \<or> sz = 0 \<or> 2 ^ 64 \<le> unat num * unat sz")
  case True
  have "p = NULL \<and> m' = m \<and> w' = w"
  proof (cases "num = 0 \<or> sz = 0")
    case True
    then show ?thesis using ca calloc_zero[of num sz d m w] by simp
  next
    case False
    then have "\<not> num = num * sz div sz" using True calloc_check[of sz num] by auto
    then show ?thesis using ca by (simp add: calloc_def Let_def)
  qed
  with H True show ?thesis by (blast intro: heap_spec.Calloc_none)
next
  case False
  define k where "k = unat num * unat sz"
  have pos: "0 < unat num" "0 < unat sz" using False by (simp_all add: unat_gt_0)
  have k: "0 < k" "k + 31 < 2 ^ 64" using pos ok False by (auto simp: k_def)
  have inv: "heap_inv d live rt m w" using H by (simp add: describes_def)
  show ?thesis
  proof (cases "p = NULL")
    case True
    have "heap_spec (Calloc num sz) (Some H) (Pointer NULL) None"
      using k by (intro heap_spec.Calloc_fails) (simp_all add: k_def)
    with True show ?thesis by blast
  next
    case False
    have un: "unat (num * sz) = k" using k(2) unat_mult_lem[of num sz] by (simp add: k_def)
    obtain p1 m1 w1 where mal: "malloc d (num * sz) m w = Some (p1, m1, w1)"
      "p1 \<noteq> NULL \<longrightarrow> 16 dvd p1 \<and> (\<forall>i < k. m (p1 + i) = None)"
      using malloc_contract[OF inv, of "num * sz"] k unfolding un by (auto split: if_splits)
    have p1: "p1 = p" using ca mal(1) pos(2) k(2) by (auto simp: calloc_unfold memset_def bind_eq_Some_conv simp flip: k_def)
    let ?m = "store m1 p (replicate k 0)"
    note c = calloc_fills[OF inv k_def k mal(1)[unfolded p1] False]
    have e: "m' = ?m" "w' = w1" using c(1) ca by simp_all
    have "describes d live rt (H(p := None)) ?m w1"
      using c(6)[OF describesD(1)[OF H]] load_extended[OF describesD(3)[OF H] c(5)] by (intro describes_keep[OF H c(2)]) blast
    then have "describes d live rt (H(p \<mapsto> replicate k 0)) ?m w1"
      using c(3,4) by (intro describes_add) simp_all
    moreover have "room_at H p k"
      using mal(2) False heap.block_mapped[OF c(2,3)] unfolding p1 by (intro room_atI[OF H False _ _ k(1)]) auto
    then have "heap_spec (Calloc num sz) (Some H) (Pointer p) (Some (H(p \<mapsto> replicate k 0)))"
      by (rule heap_spec.Calloc[OF k_def k])
    ultimately show ?thesis unfolding e by blast
  qed
qed

text \<open>Every call.\<close>

lemma heap_simulated:
  assumes H: "describes d live rt H m w" and ok: "permitted c H" and run: "heap_run d c (m, w) = Some (r, m', w')"
  shows "\<exists>A. heap_spec c (Some H) r A \<and> (\<forall>H'. A = Some H' \<longrightarrow> describes d live rt H' m' w')"
proof (cases c)
  case (Malloc n)
  then obtain p where "r = Pointer p" "malloc d n m w = Some (p, m', w')"
    using run by (auto simp: heap_run_def bind_eq_Some_conv)
  then show ?thesis using malloc_simulated[OF H] ok Malloc by fastforce
next
  case (Calloc num sz)
  then obtain p where "r = Pointer p" "calloc d num sz m w = Some (p, m', w')"
    using run by (auto simp: heap_run_def bind_eq_Some_conv)
  then show ?thesis using calloc_simulated[OF H] ok Calloc by blast
next
  case (Realloc p n)
  then obtain q where q: "r = Pointer q" "realloc d p n m w = Some (q, m', w')"
    using run by (auto simp: heap_run_def bind_eq_Some_conv)
  have n: "small n" "p = NULL \<or> p \<in> dom H" using ok Realloc by simp_all
  show ?thesis
  proof (cases "p = NULL")
    case True
    then have "malloc d n m w = Some (q, m', w')" using q(2) by (simp add: realloc_def)
    from malloc_simulated[OF H n(1) this] show ?thesis
      unfolding Realloc q(1) True by (blast intro: heap_spec.Realloc_new)
  next
    case False
    with n(2) obtain xs where "H p = Some xs" by auto
    from realloc_simulated[OF H this n(1) q(2)] show ?thesis unfolding Realloc q(1) by blast
  qed
next
  case (Free p)
  then have "r = Finished" "free d p m w = Some (m', w')" "p = NULL \<or> p \<in> dom H"
    using run ok by (auto simp: heap_run_def bind_eq_Some_conv)
  with free_simulated[OF H] show ?thesis unfolding Free by (blast intro: heap_spec.Free)
next
  case (Write p i bs)
  then obtain xs where "H p = Some xs" "i + length bs \<le> length xs" using ok by (auto split: option.splits)
  moreover have "r = Finished" "m' = store m (p + i) bs" "w' = w"
    using run Write by (auto simp: heap_run_def split: if_splits)
  ultimately show ?thesis using write_simulated[OF H] unfolding Write by (blast intro: heap_spec.Write)
next
  case (Read p i n)
  then obtain xs where xs: "H p = Some xs" "i + n \<le> length xs" using ok by (auto split: option.splits)
  obtain bs where bs: "load m (p + i) n = Some bs" "r = Bytes bs" "m' = m" "w' = w"
    using run Read by (auto simp: heap_run_def bind_eq_Some_conv)
  have "bs = take n (drop i xs)"
    using bs(1) xs(2) describesD(2)[OF H xs(1)] by (intro nth_equalityI) (auto simp: load_iff add.assoc)
  with H xs bs show ?thesis unfolding Read by (blast intro: heap_spec.Read)
qed

interpretation blocks: simulation "heap_run d" heap_spec "heap_rel d live rt" for d live rt
proof unfold_locales
  fix A and s s' :: "mem \<times> 'a" and c r
  assume A: "heap_rel d live rt A s" and run: "heap_run d c s = Some (r, s')"
  show "\<exists>A'. heap_spec c A r A' \<and> heap_rel d live rt A' s'"
  proof (cases A)
    case None
    then show ?thesis by (auto intro!: exI[of _ None] heap_spec.Nothing_said simp: heap_rel_def)
  next
    case (Some H)
    then have H: "describes d live rt H (fst s) (snd s)" using A by (simp add: heap_rel_def)
    show ?thesis
    proof (cases "permitted c H")
      case True
      have "heap_run d c (fst s, snd s) = Some (r, fst s', snd s')" using run by simp
      from heap_simulated[OF H True this] obtain A' where
        "heap_spec c (Some H) r A'" "\<forall>H'. A' = Some H' \<longrightarrow> describes d live rt H' (fst s') (snd s')" by blast
      then show ?thesis unfolding Some by (cases A') (auto simp: heap_rel_def)
    next
      case False
      then show ?thesis unfolding Some by (auto intro!: exI[of _ None] heap_spec.Not_permitted simp: heap_rel_def)
    qed
  qed
qed

text \<open>A permitted call returns, except for a \<open>calloc\<close> that finds no memory.\<close>

lemma malloc_returns: "heap_inv d live rt m w \<Longrightarrow> small n \<Longrightarrow> malloc d n m w \<noteq> None"
  using malloc_contract[of d live rt m w n]
  by (cases "n = 0") (auto simp: small_def malloc_def unat_gt_0)

lemma calloc_returns:
  assumes inv: "heap_inv d live rt m w" and ok: "permitted (Calloc num sz) H" and none: "calloc d num sz m w = None"
  shows "\<exists>m1 w1. malloc d (num * sz) m w = Some (NULL, m1, w1)"
proof -
  have nz: "num \<noteq> 0" "sz \<noteq> 0" using none calloc_zero[of num sz d m w] by auto
  define k where "k = unat num * unat sz"
  have "num = num * sz div sz" using none nz(2) by (auto simp: calloc_def Let_def split: if_splits)
  then have k: "0 < k" "k + 31 < 2 ^ 64" using ok nz calloc_check[OF nz(2)] by (auto simp: k_def unat_gt_0)
  then have "unat (num * sz) = k" using unat_mult_lem[of num sz] by (simp add: k_def)
  then obtain p m1 w1 where mal: "malloc d (num * sz) m w = Some (p, m1, w1)"
    using malloc_returns[OF inv, of "num * sz"] k by (auto simp: small_def)
  with calloc_fills(1)[OF inv k_def k mal] none show ?thesis by auto
qed

lemma realloc_returns:
  assumes inv: "heap_inv d live rt m w" and n: "small n" and p: "p = NULL \<or> malloc_block live m w p k"
  shows "realloc d p n m w \<noteq> None"
proof (cases "p = NULL")
  case True
  then show ?thesis using malloc_returns[OF inv n] by (simp add: realloc_def)
next
  case False
  with p have b: "malloc_block live m w p k" by simp
  consider (zero) "n = 0" | (fits) "0 < unat n" "unat n \<le> k" | (grow) "k < unat n"
    by (metis not_le unat_gt_0)
  then show ?thesis
  proof cases
    case zero
    then show ?thesis using free_contract[OF inv b] False by (auto simp: realloc_def)
  next
    case fits
    then show ?thesis by (simp add: realloc_fits[OF b])
  next
    case grow
    obtain bs where "load m p k = Some bs" using heap.block_mapped[OF inv b] by (auto simp: mapped_iff_load)
    moreover obtain q m1 w1 where "malloc d n m w = Some (q, m1, w1)" using malloc_returns[OF inv n] by auto
    ultimately show ?thesis using realloc_grow[OF inv b _ grow] n by (fastforce simp: small_def)
  qed
qed

lemma heap_progress:
  assumes H: "describes d live rt H m w" and ok: "permitted c H" and none: "heap_run d c (m, w) = None"
  shows "\<exists>num sz m1 w1. c = Calloc num sz \<and> malloc d (num * sz) m w = Some (NULL, m1, w1)"
proof -
  have inv: "heap_inv d live rt m w" using H by (simp add: describes_def)
  show ?thesis
  proof (cases c)
    case (Malloc n)
    then have "malloc d n m w \<noteq> None" using ok by (intro malloc_returns[OF inv]) simp
    then show ?thesis using none Malloc by (auto simp: heap_run_def)
  next
    case (Calloc num sz)
    then have "calloc d num sz m w = None"
      using none by (cases "calloc d num sz m w") (auto simp: heap_run_def)
    then show ?thesis using calloc_returns[OF inv] ok Calloc by blast
  next
    case (Realloc p n)
    then have "p = NULL \<or> malloc_block live m w p (length (the (H p)))" "small n" using ok describesD(1)[OF H] by auto
    then have "realloc d p n m w \<noteq> None" by (intro realloc_returns[OF inv])
    then show ?thesis using none Realloc by (auto simp: heap_run_def)
  next
    case (Free p)
    have "free d p m w \<noteq> None"
    proof (cases "p = NULL")
      case False
      then obtain xs where "H p = Some xs" using ok Free by auto
      from free_contract[OF inv describesD(1)[OF H this]] show ?thesis by auto
    qed (simp add: free_def)
    then show ?thesis using none Free by (auto simp: heap_run_def)
  next
    case (Write p i bs)
    then obtain xs where xs: "H p = Some xs" "i + length bs \<le> length xs" using ok by (auto split: option.splits)
    have "mapped m (p + i) (length bs)" using describesD(3)[OF H xs(1)] xs(2) by (auto simp: mapped_def add.assoc)
    then show ?thesis using none Write by (simp add: heap_run_def)
  next
    case (Read p i n)
    then obtain xs where xs: "H p = Some xs" "i + n \<le> length xs" using ok by (auto split: option.splits)
    have "mapped m (p + i) n" using describesD(3)[OF H xs(1)] xs(2) by (auto simp: mapped_def add.assoc)
    then show ?thesis using none Read by (auto simp: heap_run_def mapped_iff_load)
  qed
qed

section \<open>Properties\<close>

text \<open>
  C4. The library's heap refines a map of blocks. Whatever sequence of \<open>malloc\<close>, \<open>calloc\<close>, \<open>realloc\<close>, \<open>free\<close>,
  reads and writes a client performs, as long as each call is permitted, every answer is one that the map
  allows: new blocks are aligned and apart from all others, contents survive every call on other blocks,
  and a read returns what was last written. Permitted are live pointers and accesses inside a block, as C
  demands, and only sizes that leave room for the header (\<open>size + 31 < 2^64\<close>; for \<open>calloc\<close> the product, or
  one that exceeds 64 bits). Nothing is said after any other call, nor after a \<open>calloc\<close> for which there is no
  memory. A permitted call returns, except for such a \<open>calloc\<close>.
\<close>

theorem heap_refines_blocks:
  assumes "describes d live rt H m w" "code_trace (heap_run d) (m, w) calls (m', w')"
  shows "\<exists>A. spec_trace heap_spec (Some H) calls A \<and>
    (\<forall>H'. A = Some H' \<longrightarrow> describes d live rt H' m' w' \<and>
      (\<forall>c. permitted c H' \<longrightarrow> heap_run d c (m', w') \<noteq> None \<or>
        (\<exists>num sz m1 w1. c = Calloc num sz \<and> malloc d (num * sz) m' w' = Some (NULL, m1, w1))))"
proof -
  have "heap_rel d live rt (Some H) (m, w)" using assms(1) by (simp add: heap_rel_def)
  from blocks.trace_simulated[OF assms(2) this] obtain A where
    A: "spec_trace heap_spec (Some H) calls A" "heap_rel d live rt A (m', w')" by blast
  have "heap_run d c (m', w') \<noteq> None \<or> (\<exists>num sz m1 w1. c = Calloc num sz \<and> malloc d (num * sz) m' w' = Some (NULL, m1, w1))"
    if "A = Some H'" "permitted c H'" for H' c
  proof -
    have "describes d live rt H' m' w'" using A(2) that(1) by (simp add: heap_rel_def)
    from heap_progress[OF this that(2)] show ?thesis by blast
  qed
  with A show ?thesis
    by (intro exI[of _ A] conjI allI impI) (simp_all add: heap_rel_def del: not_None_eq not_Some_eq)
qed

text \<open>An instance: a block of a bump allocator, written and read.\<close>

inductive_cases spec_traceE: "spec_trace spec A (x # tr) A'" "spec_trace spec A [] A'"

inductive_cases heap_specE:
  "heap_spec (Malloc n) (Some H) r A" "heap_spec (Write p i bs) (Some H) r A" "heap_spec (Read p i n) (Some H) r A"

theorem heap_refines_blocks_witness:
  "\<exists>p s' H'. code_trace (heap_run bump_libc) (\<lambda>_. None, (5, []))
       [(Malloc 4, Pointer p), (Write p 1 [7, 8], Finished), (Read p 1 2, Bytes [7, 8])] s' \<and>
     describes bump_libc (\<lambda>w. set (snd w)) bump_rt H' (fst s') (snd s') \<and> dom H' = {p} \<and> take 2 (drop 1 (the (H' p))) = [7, 8]"
proof -
  obtain p m w where mal: "malloc bump_libc 4 (\<lambda>_. None) (5, []) = Some (p, m, w)" "p \<noteq> NULL"
    and inv: "heap_inv bump_libc (\<lambda>w. set (snd w)) bump_rt m w" and b: "malloc_block (\<lambda>w. set (snd w)) m w p 4"
    using bump_malloc_example by blast
  let ?m = "store m (p + 1) [7, 8]"
  let ?calls = "[(Malloc 4, Pointer p), (Write p 1 [7, 8], Finished), (Read p 1 2, Bytes [7, 8])]"
  have "mapped m p 4" using heap.block_mapped[OF inv b] by simp
  then have mp: "mapped m (p + 1) 2" using mapped_shift[of m p 4 1 2] by simp
  have "load ?m (p + 1) 2 = Some [7, 8]" using load_store_same[of m "p + 1" "[7, 8]"] by (simp add: numeral_2_eq_2)
  then have "heap_run bump_libc (Read p 1 2) (?m, w) = Some (Bytes [7, 8], ?m, w)" by (simp add: heap_run_def)
  moreover have "heap_run bump_libc (Write p 1 [7, 8]) (m, w) = Some (Finished, ?m, w)"
    using mp by (simp add: heap_run_def numeral_2_eq_2)
  moreover have "heap_run bump_libc (Malloc 4) (\<lambda>_. None, (5, [])) = Some (Pointer p, m, w)" using mal by (simp add: heap_run_def)
  ultimately have tr: "code_trace (heap_run bump_libc) (\<lambda>_. None, (5, [])) ?calls (?m, w)"
    by (blast intro: code_trace.intros)
  have "describes bump_libc (\<lambda>w. set (snd w)) bump_rt Map.empty (\<lambda>_. None) (5, [])"
    using bump_heap_inv[of "\<lambda>_. None" 5] by (simp add: describes_def)
  from heap_refines_blocks[OF this tr] obtain A where A: "spec_trace heap_spec (Some Map.empty) ?calls A"
    "\<And>H'. A = Some H' \<Longrightarrow> describes bump_libc (\<lambda>w. set (snd w)) bump_rt H' ?m w" by blast
  obtain H' where "A = Some H'" "dom H' = {p}" "take 2 (drop 1 (the (H' p))) = [7, 8]"
    using A(1) mal(2) by (auto elim!: spec_traceE heap_specE simp: small_def split: if_splits)
  with A(2) tr show ?thesis by fastforce
qed

end
