(* ===== verification/Cxx_Owners.thy ===== *)
theory Cxx_Owners
  imports Cxx_Vector "HOL-Library.Multiset"
begin

text \<open>
  Vectors of \<open>unique_ptr\<close>: the templates of \<open>cxx/include/vector\<close> with the move assignment and the
  destructor of \<open>cxx/include/memory\<close> as the operations of the elements. An element is the pointer it holds;
  the objects pointed to are told apart for ever. Each operation gives the pointers it deletes, in
  order. The functions that copy elements do not compile for this type.
\<close>

section \<open>The code\<close>

text \<open>The element \<open>j\<close> is moved to the element \<open>i\<close>: \<open>ptr_ = other.release()\<close>.\<close>

definition move_item :: "nat \<Rightarrow> nat \<Rightarrow> ptr list \<Rightarrow> ptr list" where
  "move_item i j xs = (let p = xs ! j; xs = xs[j := NULL] in xs[i := p])"

text \<open>\<open>delete []\<close>: every element's destructor, the last one first, deletes what the element holds.\<close>

definition delete_items :: "ptr list \<Rightarrow> ptr list" where
  "delete_items xs = filter (\<lambda>p. p \<noteq> NULL) (rev xs)"

definition own_reserve :: "(nat \<Rightarrow> bool) \<Rightarrow> nat \<Rightarrow> ptr vector \<Rightarrow> nat \<Rightarrow> nat \<Rightarrow> failed + ptr list \<times> ptr vector" where
  "own_reserve alloc sz v n copy_only =
     (if n \<le> length (items v) then Inr ([], v)
      else case grow_loop sz n 64 of
        None \<Rightarrow> Inl Diverges
      | Some new_max_nitems \<Rightarrow>
          if \<not> alloc new_max_nitems then Inl Aborted
          else let (new_data, orig_data) = fold (\<lambda>i (new, old). (new[i := old ! i], old[i := NULL]))
                     [0..<copy_only] (replicate new_max_nitems NULL, items v)
               in Inr (delete_items orig_data, v\<lparr> items := new_data \<rparr>))"

definition own_resize :: "(nat \<Rightarrow> bool) \<Rightarrow> nat \<Rightarrow> ptr vector \<Rightarrow> nat \<Rightarrow> failed + ptr list \<times> ptr vector" where
  "own_resize alloc sz v n =
     ebind (own_reserve alloc sz v n (nitems v)) (\<lambda>(del, v).
       Inr (del, \<lparr> items = fold (\<lambda>i xs. xs[i := NULL]) [nitems v..<n] (items v), nitems = n \<rparr>))"

text \<open>\<open>push_back\<close> of an object that holds \<open>p\<close>; that object is left empty.\<close>

definition own_push_back :: "(nat \<Rightarrow> bool) \<Rightarrow> nat \<Rightarrow> ptr vector \<Rightarrow> ptr \<Rightarrow> failed + ptr list \<times> ptr vector" where
  "own_push_back alloc sz v p =
     ebind (own_reserve alloc sz v (nitems v + 1) (nitems v)) (\<lambda>(del, v).
       Inr (del, \<lparr> items = (items v)[nitems v := p], nitems = nitems v + 1 \<rparr>))"

definition own_pop_back :: "ptr vector \<Rightarrow> failed + ptr list \<times> ptr vector" where
  "own_pop_back v =
     (if nitems v = 0 then Inl Aborted
      else Inr ([], \<lparr> items = (items v)[nitems v - 1 := NULL], nitems = nitems v - 1 \<rparr>))"

definition own_erase :: "ptr vector \<Rightarrow> nat \<Rightarrow> failed + ptr list \<times> ptr vector" where
  "own_erase v it =
     (if it \<ge> nitems v then Inl Aborted
      else Inr ([], \<lparr> items = fold (\<lambda>p. move_item p (p + 1)) [it..<nitems v - 1] ((items v)[it := NULL]),
                      nitems = nitems v - 1 \<rparr>))"

text \<open>\<open>v[i].release()\<close> and \<open>v[i].reset(p)\<close>.\<close>

definition own_release :: "ptr vector \<Rightarrow> nat \<Rightarrow> failed + ptr \<times> ptr vector" where
  "own_release v i = ebind (vector_at v i) (\<lambda>p. Inr (p, v\<lparr> items := (items v)[i := NULL] \<rparr>))"

definition own_reset :: "ptr vector \<Rightarrow> nat \<Rightarrow> ptr \<Rightarrow> failed + ptr list \<times> ptr vector" where
  "own_reset v i p =
     ebind (vector_at v i) (\<lambda>old. Inr (if old \<noteq> NULL then [old] else [], v\<lparr> items := (items v)[i := p] \<rparr>))"

definition own_destroy :: "ptr vector \<Rightarrow> ptr list \<times> ptr vector" where
  "own_destroy v = (delete_items (items v), vector_empty)"

section \<open>Who owns what\<close>

definition holding :: "ptr \<Rightarrow> ptr multiset" where "holding p = (if p = NULL then {#} else {#p#})"

definition holdings :: "ptr list \<Rightarrow> ptr multiset" where "holdings xs = {#p \<in># mset xs. p \<noteq> NULL#}"

lemma holdings_simps [simp]:
  "holdings [] = {#}" "holdings (x # xs) = holding x + holdings xs" "holdings (xs @ ys) = holdings xs + holdings ys"
  "holdings (replicate n NULL) = {#}" "holding NULL = {#}"
  by (simp_all add: holdings_def holding_def)

lemma holdings_update: "i < length xs \<Longrightarrow> holdings (xs[i := p]) + holding (xs ! i) = holdings xs + holding p"
proof (induction xs arbitrary: i)
  case (Cons x xs)
  then show ?case by (cases i) (auto simp: ac_simps)
qed simp

lemma mset_delete_items [simp]: "mset (delete_items xs) = holdings xs"
  by (simp add: delete_items_def holdings_def mset_filter)

lemma length_move_item [simp]: "length (move_item i j xs) = length xs"
  by (simp add: move_item_def Let_def)

text \<open>A move into an element that holds nothing changes no owner.\<close>

lemma holdings_move_item:
  assumes "i < length xs" "j < length xs" "i \<noteq> j" "xs ! i = NULL"
  shows "holdings (move_item i j xs) = holdings xs"
proof -
  have "holdings (xs[j := NULL]) + holding (xs ! j) = holdings xs" using holdings_update[OF assms(2), of NULL] by simp
  moreover have "holdings (xs[j := NULL, i := xs ! j]) = holdings (xs[j := NULL]) + holding (xs ! j)"
    using holdings_update[of i "xs[j := NULL]" "xs ! j"] assms by simp
  ultimately show ?thesis by (simp add: move_item_def Let_def)
qed

text \<open>The loop of \<open>erase\<close>: it moves the elements down over an empty one and leaves an empty one at the end.\<close>

lemma move_down:
  assumes "a \<le> b" "b < length xs" "xs ! a = NULL"
  shows "fold (\<lambda>p. move_item p (p + 1)) [a..<b] xs = (fold (\<lambda>p xs. xs[p := xs ! (p + 1)]) [a..<b] xs)[b := NULL]"
  using assms
proof (induction b)
  case (Suc b)
  show ?case
  proof (cases "a = Suc b")
    case True
    then have "xs[Suc b := NULL] = xs" using Suc.prems(3) list_update_id[of xs "Suc b"] by simp
    then show ?thesis using True by simp
  next
    case False
    let ?ys = "fold (\<lambda>p xs. xs[p := xs ! (p + 1)]) [a..<b] xs"
    have ih: "fold (\<lambda>p. move_item p (p + 1)) [a..<b] xs = ?ys[b := NULL]" using Suc.IH Suc.prems False by simp
    have "move_item b (Suc b) (?ys[b := NULL]) = ?ys[b := NULL, Suc b := NULL, b := ?ys ! Suc b]"
      by (simp add: move_item_def Let_def)
    also have "\<dots> = ?ys[b := NULL, b := ?ys ! Suc b, Suc b := NULL]" by (rule list_update_swap) simp
    also have "\<dots> = ?ys[b := ?ys ! Suc b, Suc b := NULL]" by simp
    finally show ?thesis using ih Suc.prems(1) False by simp
  qed
next
  case 0
  then have "a = 0" "xs ! 0 = NULL" by simp_all
  then have "xs[0 := NULL] = xs" using list_update_id[of xs 0] by simp
  then show ?case by simp
qed

lemma holdings_move_down:
  assumes "a \<le> b" "b < length xs" "xs ! a = NULL"
  shows "holdings (fold (\<lambda>p. move_item p (p + 1)) [a..<b] xs) = holdings xs \<and>
    length (fold (\<lambda>p. move_item p (p + 1)) [a..<b] xs) = length xs"
  using assms
proof (induction b)
  case (Suc b)
  show ?case
  proof (cases "a = Suc b")
    case False
    let ?ys = "fold (\<lambda>p. move_item p (p + 1)) [a..<b] xs"
    have ih: "holdings ?ys = holdings xs" "length ?ys = length xs" using Suc False by simp_all
    have "length (fold (\<lambda>p xs. xs[p := xs ! (p + 1)]) [a..<b] xs) = length xs"
      using length_fold_update[of "\<lambda>p. p" "\<lambda>p xs. xs ! (p + 1)"] by simp
    then have "?ys ! b = NULL" using move_down[of a b xs] Suc.prems False by simp
    then show ?thesis using ih Suc.prems False holdings_move_item[of b ?ys "Suc b"] by simp
  qed simp
qed simp

text \<open>The loop of \<open>_reserve\<close>.\<close>

lemma move_over:
  assumes "c \<le> length xs" "c \<le> k"
  shows "fold (\<lambda>i (new, old). (new[i := old ! i], old[i := NULL])) [0..<c] (replicate k NULL, xs) =
    (take c xs @ replicate (k - c) NULL, replicate c NULL @ drop c xs)"
  using assms
proof (induction c)
  case (Suc c)
  then have "xs \<noteq> []" by auto
  then show ?case using Suc
    by (auto simp: list_update_append nth_append take_Suc_conv_app_nth replicate_append_same Cons_nth_drop_Suc[symmetric]
        Suc_diff_Suc[symmetric])
qed simp

text \<open>Emptying a range of elements forgets what they held.\<close>

lemma holdings_clear:
  assumes "b \<le> length xs" "a \<le> b"
  shows "holdings (fold (\<lambda>i xs. xs[i := NULL]) [a..<b] xs) + holdings (take (b - a) (drop a xs)) = holdings xs"
  using assms
proof (induction b)
  case (Suc b)
  show ?case
  proof (cases "a = Suc b")
    case False
    let ?ys = "fold (\<lambda>i xs. xs[i := NULL]) [a..<b] xs"
    have len: "length ?ys = length xs" using length_fold_update[of "\<lambda>i. i" "\<lambda>_ _. NULL"] by simp
    have b: "?ys ! b = xs ! b" using fold_update_nth[of b xs b "\<lambda>_. NULL" a] Suc.prems by simp
    have "take (Suc b - a) (drop a xs) = take (b - a) (drop a xs) @ [xs ! b]"
      using Suc.prems False by (simp add: Suc_diff_le take_Suc_conv_app_nth)
    moreover have "holdings (?ys[b := NULL]) + holding (xs ! b) = holdings ?ys"
      using holdings_update[of b ?ys NULL] len b Suc.prems by simp
    moreover have "fold (\<lambda>i xs. xs[i := NULL]) [a..<Suc b] xs = ?ys[b := NULL]" using Suc.prems False by simp
    ultimately have "holdings (fold (\<lambda>i xs. xs[i := NULL]) [a..<Suc b] xs) + holdings (take (Suc b - a) (drop a xs)) =
        holdings ?ys + holdings (take (b - a) (drop a xs))"
      by (simp add: union_assoc[symmetric] add.commute)
    also have "\<dots> = holdings xs" using Suc False by simp
    finally show ?thesis .
  qed simp
qed simp

section \<open>What each operation does with the owners\<close>

lemma own_reserve_cases:
  assumes "own_reserve alloc sz v n c = Inr (del, v')"
  shows "(n \<le> length (items v) \<and> del = [] \<and> v' = v) \<or>
    (\<exists>k. length (items v) < n \<and> n \<le> k \<and> del = delete_items (snd (fold (\<lambda>i (new, old). (new[i := old ! i], old[i := NULL]))
        [0..<c] (replicate k NULL, items v))) \<and>
      v' = v\<lparr> items := fst (fold (\<lambda>i (new, old). (new[i := old ! i], old[i := NULL])) [0..<c] (replicate k NULL, items v)) \<rparr>)"
proof (cases "n \<le> length (items v)")
  case False
  then obtain k where k: "grow_loop sz n 64 = Some k" "alloc k"
    using assms by (auto simp: own_reserve_def split: option.splits if_splits)
  then show ?thesis using False assms grow_loop_bound[OF k(1)]
    by (intro disjI2 exI[of _ k]) (simp add: own_reserve_def split_beta Let_def)
qed (use assms in \<open>simp add: own_reserve_def\<close>)

lemma own_reserve_balance:
  assumes "wf_vector v" "c \<le> nitems v" "own_reserve alloc sz v n c = Inr (del, v')"
  shows "holdings (items v') + mset del = holdings (items v) \<and> nitems v' = nitems v \<and> n \<le> length (items v') \<and>
    length (items v) \<le> length (items v') \<and> take c (items v') = take c (items v) \<and>
    (n \<le> length (items v) \<longrightarrow> v' = v) \<and> (length (items v) < n \<longrightarrow> (\<exists>k. drop c (items v') = replicate k NULL))"
  using own_reserve_cases[OF assms(3)]
proof (elim disjE exE conjE)
  fix k
  let ?f = "fold (\<lambda>i (new, old). (new[i := old ! i], old[i := NULL])) [0..<c] (replicate k NULL, items v)"
  assume k: "length (items v) < n" "n \<le> k" "del = delete_items (snd ?f)" "v' = v\<lparr> items := fst ?f \<rparr>"
  have c: "c \<le> length (items v)" using assms(1,2) by (simp add: wf_vector_def)
  then have f: "?f = (take c (items v) @ replicate (k - c) NULL, replicate c NULL @ drop c (items v))"
    using k by (intro move_over) auto
  have "holdings (take c (items v)) + holdings (drop c (items v)) = holdings (items v)"
    by (metis append_take_drop_id holdings_simps(3))
  then show ?thesis using k c unfolding f by auto
qed simp

text \<open>What \<open>push_back\<close> overwrites: an element beyond the end that has room in the array.\<close>

definition spare :: "ptr vector \<Rightarrow> nat \<Rightarrow> ptr list" where
  "spare v n = (if n \<le> length (items v) then take (n - nitems v) (drop (nitems v) (items v)) else [])"

lemma own_push_back_balance:
  assumes wf: "wf_vector v" and r: "own_push_back alloc sz v p = Inr (del, v')"
  shows "wf_vector v' \<and> contents v' = contents v @ [p] \<and>
    holdings (items v') + mset del + holdings (spare v (Suc (nitems v))) = holdings (items v) + holding p"
proof -
  obtain v1 where v1: "own_reserve alloc sz v (Suc (nitems v)) (nitems v) = Inr (del, v1)"
    "v' = \<lparr> items = (items v1)[nitems v1 := p], nitems = Suc (nitems v1) \<rparr>"
    using r by (auto simp: own_push_back_def ebind_def split: sum.splits)
  note b = own_reserve_balance[OF wf _ v1(1), simplified]
  have l: "nitems v < length (items v1)" "nitems v1 = nitems v" using b by auto
  have "holding (items v1 ! nitems v) = holdings (spare v (Suc (nitems v)))"
  proof (cases "Suc (nitems v) \<le> length (items v)")
    case True
    then have "v1 = v" using b by blast
    with True show ?thesis by (simp add: spare_def take_Suc hd_drop_conv_nth)
  next
    case False
    then obtain k where "drop (nitems v) (items v1) = replicate k NULL" using b by auto
    then have "items v1 ! nitems v = NULL" using l(1) by (metis hd_drop_conv_nth hd_replicate length_drop length_replicate not_less_eq_eq zero_less_diff less_numeral_extra(3) replicate_0 drop_eq_Nil not_le)
    with False show ?thesis by (simp add: spare_def)
  qed
  moreover have "holdings (items v') + holding (items v1 ! nitems v) = holdings (items v1) + holding p"
    using holdings_update[OF l(1), of p] v1(2) l(2) by simp
  moreover have "wf_vector v' \<and> contents v' = contents v @ [p]"
    using b l v1(2) by (auto simp: wf_vector_def contents_def take_Suc_conv_app_nth)
  ultimately show ?thesis using b by (simp add: ac_simps)
qed

lemma own_resize_balance:
  assumes wf: "wf_vector v" and r: "own_resize alloc sz v n = Inr (del, v')"
  shows "wf_vector v' \<and> contents v' = take n (contents v) @ replicate (n - nitems v) NULL \<and>
    holdings (items v') + mset del + holdings (spare v n) = holdings (items v)"
proof -
  obtain v1 where v1: "own_reserve alloc sz v n (nitems v) = Inr (del, v1)"
    "v' = \<lparr> items = fold (\<lambda>i xs. xs[i := NULL]) [nitems v1..<n] (items v1), nitems = n \<rparr>"
    using r by (auto simp: own_resize_def ebind_def split: sum.splits)
  note b = own_reserve_balance[OF wf _ v1(1), simplified]
  define xs where "xs = fold (\<lambda>i xs. xs[i := NULL]) [nitems v..<n] (items v1)"
  have v': "v' = \<lparr> items = xs, nitems = n \<rparr>" using v1(2) b by (simp add: xs_def)
  have len: "length xs = length (items v1)" using length_fold_update[of "\<lambda>i. i" "\<lambda>_ _. NULL"] by (simp add: xs_def)
  have nth: "xs ! j = (if nitems v \<le> j then NULL else items v ! j)" if "j < n" for j
  proof -
    have "j < nitems v \<Longrightarrow> items v1 ! j = items v ! j" using b by (metis nth_take)
    then show ?thesis using that b unfolding xs_def by (subst fold_update_nth) auto
  qed
  have "take n xs = take n (contents v) @ replicate (n - nitems v) NULL"
    using nth len b wf by (intro nth_equalityI) (auto simp: nth_append wf_vector_def contents_def min_def split: if_splits)
  moreover have e: "holdings xs + holdings (spare v n) = holdings (items v1)"
  proof (cases "n \<le> nitems v")
    case True
    then show ?thesis by (simp add: xs_def spare_def)
  next
    case False
    have c: "holdings xs + holdings (take (n - nitems v) (drop (nitems v) (items v1))) = holdings (items v1)"
      unfolding xs_def using holdings_clear[of n "items v1" "nitems v"] b False by simp
    show ?thesis
    proof (cases "n \<le> length (items v)")
      case True
      then show ?thesis using b c by (simp add: spare_def)
    next
      case False
      then obtain k where "drop (nitems v) (items v1) = replicate k NULL" using b by auto
      then show ?thesis using c False by (simp add: spare_def take_replicate)
    qed
  qed
  moreover have "holdings xs + mset del + holdings (spare v n) = holdings (items v1) + mset del"
    unfolding e[symmetric] by (simp add: ac_simps)
  ultimately show ?thesis using b len unfolding v' by (simp add: wf_vector_def contents_def)
qed

lemma last_contents: "wf_vector v \<Longrightarrow> 0 < nitems v \<Longrightarrow> last (contents v) = items v ! (nitems v - 1) \<and> contents v \<noteq> []"
  unfolding wf_vector_def contents_def by (subst last_conv_nth) auto

lemma own_pop_back_balance:
  assumes wf: "wf_vector v" and r: "own_pop_back v = Inr (del, v')"
  shows "wf_vector v' \<and> contents v' = butlast (contents v) \<and> del = [] \<and>
    holdings (items v') + holding (last (contents v)) = holdings (items v)"
proof -
  have n: "0 < nitems v" "nitems v - 1 < length (items v)"
    using wf r by (auto simp: own_pop_back_def wf_vector_def split: if_splits)
  have v': "v' = \<lparr> items = (items v)[nitems v - 1 := NULL], nitems = nitems v - 1 \<rparr>" "del = []"
    using r n(1) by (simp_all add: own_pop_back_def)
  have "holdings ((items v)[nitems v - 1 := NULL]) + holding (items v ! (nitems v - 1)) = holdings (items v)"
    using holdings_update[OF n(2), of NULL] by simp
  moreover have "wf_vector v' \<and> contents v' = butlast (contents v)"
    using wf n(1) by (auto simp: v' wf_vector_def contents_def butlast_take)
  ultimately show ?thesis using last_contents[OF wf n(1)] by (simp add: v')
qed

lemma own_erase_balance:
  assumes wf: "wf_vector v" and r: "own_erase v it = Inr (del, v')"
  shows "it < nitems v \<and> wf_vector v' \<and> contents v' = take it (contents v) @ drop (Suc it) (contents v) \<and> del = [] \<and>
    holdings (items v') + holding (contents v ! it) = holdings (items v)"
proof -
  have it: "it < nitems v" using r by (auto simp: own_erase_def split: if_splits)
  let ?xs = "(items v)[it := NULL]"
  let ?f = "fold (\<lambda>p. move_item p (p + 1)) [it..<nitems v - 1] ?xs"
  have v': "v' = \<lparr> items = ?f, nitems = nitems v - 1 \<rparr>" "del = []" using r it by (auto simp: own_erase_def)
  have l: "it \<le> nitems v - 1" "nitems v - 1 < length ?xs" "?xs ! it = NULL" "it < length (items v)"
    using it wf by (auto simp: wf_vector_def)
  have "holdings ?f = holdings ?xs" "length ?f = length ?xs" using holdings_move_down[OF l(1-3)] by simp_all
  moreover have "holdings ?xs + holding (items v ! it) = holdings (items v)" using holdings_update[OF l(4), of NULL] by simp
  moreover have "contents v ! it = items v ! it" using it by (simp add: contents_def)
  moreover have "contents v' = take it (contents v) @ drop (Suc it) (contents v)"
  proof -
    obtain u where u: "vector_erase NULL v it = Inr u" using it by (simp add: vector_erase_def)
    have "contents v' = contents u"
      using u it unfolding v'(1) move_down[OF l(1-3)] by (auto simp: contents_def vector_erase_def)
    then show ?thesis using erase_contents(2)[OF wf it u] by simp
  qed
  ultimately show ?thesis using it wf by (auto simp: v' wf_vector_def)
qed

section \<open>A program that uses them\<close>

text \<open>
  The state of a program: a vector, the pointers the program holds itself, and the pointers deleted so far.
  The program gives the vector, and deletes, only pointers that it holds.
\<close>

type_synonym own_state = "ptr vector \<times> ptr multiset \<times> ptr list"

definition everything :: "own_state \<Rightarrow> ptr multiset" where
  "everything s = (case s of (v, raw, ds) \<Rightarrow> holdings (items v) + raw + mset ds)"

inductive own_step :: "(nat \<Rightarrow> bool) \<Rightarrow> nat \<Rightarrow> own_state \<Rightarrow> own_state \<Rightarrow> bool" for alloc sz where
  New: "p \<noteq> NULL \<Longrightarrow> p \<notin># everything (v, raw, ds) \<Longrightarrow> own_step alloc sz (v, raw, ds) (v, add_mset p raw, ds)"
| Delete: "p \<in># raw \<Longrightarrow> own_step alloc sz (v, raw, ds) (v, raw - {#p#}, ds @ [p])"
| Push: "holding p \<subseteq># raw \<Longrightarrow> own_push_back alloc sz v p = Inr (del, v') \<Longrightarrow>
    own_step alloc sz (v, raw, ds) (v', raw - holding p, ds @ del)"
| Pop: "own_pop_back v = Inr (del, v') \<Longrightarrow> own_step alloc sz (v, raw, ds) (v', raw, ds @ del)"
| Erase: "own_erase v it = Inr (del, v') \<Longrightarrow> own_step alloc sz (v, raw, ds) (v', raw, ds @ del)"
| Resize: "own_resize alloc sz v n = Inr (del, v') \<Longrightarrow> own_step alloc sz (v, raw, ds) (v', raw, ds @ del)"
| Reserve: "own_reserve alloc sz v n (nitems v) = Inr (del, v') \<Longrightarrow> own_step alloc sz (v, raw, ds) (v', raw, ds @ del)"
| Release: "own_release v i = Inr (p, v') \<Longrightarrow> own_step alloc sz (v, raw, ds) (v', raw + holding p, ds)"
| Reset: "holding p \<subseteq># raw \<Longrightarrow> own_reset v i p = Inr (del, v') \<Longrightarrow> own_step alloc sz (v, raw, ds) (v', raw - holding p, ds @ del)"
| Destroy: "own_destroy v = (del, v') \<Longrightarrow> own_step alloc sz (v, raw, ds) (v', raw, ds @ del)"

definition own_inv :: "own_state \<Rightarrow> bool" where
  "own_inv s \<longleftrightarrow> wf_vector (fst s) \<and> NULL \<notin># fst (snd s) \<and> (\<forall>p. count (everything s) p \<le> 1)"

lemma balance_everything:
  assumes "holdings xs' + mset del + lost = holdings xs + given" "given \<subseteq># raw"
  shows "holdings xs' + (raw - given) + mset (ds @ del) \<subseteq># holdings xs + raw + mset ds"
proof -
  obtain rest where raw: "raw = given + rest" using assms(2) by (auto simp: mset_subset_eq_exists_conv)
  have "holdings xs + raw + mset ds = (holdings xs + given) + (rest + mset ds)" by (simp add: raw ac_simps)
  also have "\<dots> = (holdings xs' + (raw - given) + mset (ds @ del)) + lost" unfolding assms(1)[symmetric] by (simp add: raw ac_simps)
  finally show ?thesis by simp
qed

lemma own_release_balance:
  assumes "wf_vector v" "own_release v i = Inr (p, v')"
  shows "wf_vector v' \<and> holdings (items v') + holding p = holdings (items v)"
proof -
  have "i < nitems v" "p = items v ! i" "v' = v\<lparr> items := (items v)[i := NULL] \<rparr>"
    using assms(2) by (auto simp: own_release_def vector_at_def split: if_splits)
  then show ?thesis using holdings_update[of i "items v" NULL] assms(1) by (auto simp: wf_vector_def)
qed

lemma own_reset_balance:
  assumes "wf_vector v" "own_reset v i p = Inr (del, v')"
  shows "wf_vector v' \<and> holdings (items v') + mset del = holdings (items v) + holding p"
proof -
  have i: "i < nitems v" "del = (if items v ! i \<noteq> NULL then [items v ! i] else [])" "v' = v\<lparr> items := (items v)[i := p] \<rparr>"
    using assms(2) by (auto simp: own_reset_def vector_at_def split: if_splits)
  then have "mset del = holding (items v ! i)" by (simp add: holding_def)
  then show ?thesis using holdings_update[of i "items v" p] i assms(1) by (auto simp: wf_vector_def)
qed

lemma everything_simp [simp]: "everything (v, raw, ds) = holdings (items v) + raw + mset ds"
  by (simp add: everything_def)

lemma holding_member: "x \<in># holding p \<Longrightarrow> x = p \<and> p \<noteq> NULL"
  by (auto simp: holding_def split: if_splits)

text \<open>No step makes a pointer twice: what a step loses, it forgets.\<close>

lemma own_step_everything:
  assumes "own_step alloc sz s s'" "wf_vector (fst s)" "NULL \<notin># fst (snd s)"
  shows "wf_vector (fst s') \<and> NULL \<notin># fst (snd s') \<and>
    (everything s' \<subseteq># everything s \<or> (\<exists>p. p \<notin># everything s \<and> everything s' = add_mset p (everything s)))"
  using assms
proof (cases rule: own_step.cases)
  case (New p v raw ds)
  then show ?thesis using assms by (auto intro!: exI[of _ p])
next
  case (Delete p raw v ds)
  then have "everything s' = everything s" by (simp flip: union_mset_add_mset_left union_mset_add_mset_right)
  then show ?thesis using Delete assms by (auto dest: in_diffD)
next
  case (Push p raw v del v' ds)
  note b = own_push_back_balance[OF _ Push(4)]
  have "wf_vector v" using assms(2) Push(1) by simp
  with b have "wf_vector v'" "holdings (items v') + mset del + holdings (spare v (Suc (nitems v))) = holdings (items v) + holding p" by blast+
  with balance_everything[OF this(2) Push(3)] assms show ?thesis unfolding Push(1,2) by (auto dest: in_diffD)
next
  case (Pop v del v' raw ds)
  then have b: "wf_vector v'" "holdings (items v') + mset del + holding (last (contents v)) = holdings (items v) + {#}"
    using own_pop_back_balance[OF _ Pop(3)] assms(2) by auto
  with balance_everything[OF b(2), of raw ds] assms show ?thesis unfolding Pop(1,2) by simp
next
  case (Erase v it del v' raw ds)
  then have b: "wf_vector v'" "holdings (items v') + mset del + holding (contents v ! it) = holdings (items v) + {#}"
    using own_erase_balance[OF _ Erase(3)] assms(2) by auto
  with balance_everything[OF b(2), of raw ds] assms show ?thesis unfolding Erase(1,2) by simp
next
  case (Resize v n del v' raw ds)
  then have b: "wf_vector v'" "holdings (items v') + mset del + holdings (spare v n) = holdings (items v) + {#}"
    using own_resize_balance[OF _ Resize(3)] assms(2) by auto
  with balance_everything[OF b(2), of raw ds] assms show ?thesis unfolding Resize(1,2) by simp
next
  case (Reserve v n del v' raw ds)
  then have b: "wf_vector v'" "holdings (items v') + mset del + {#} = holdings (items v) + {#}"
    using own_reserve_balance[OF _ order_refl Reserve(3)] assms(2) by (auto simp: wf_vector_def)
  with balance_everything[OF b(2), of raw ds] assms show ?thesis unfolding Reserve(1,2) by simp
next
  case (Release v i p v' raw ds)
  then have b: "wf_vector v'" "holdings (items v') + holding p = holdings (items v)"
    using own_release_balance[OF _ Release(3)] assms(2) by auto
  then have "everything s' = everything s" unfolding Release(1,2) by (simp flip: b(2) add: ac_simps)
  then show ?thesis using b(1) assms Release(1,2) by (auto dest: holding_member)
next
  case (Reset p raw v i del v' ds)
  then have b: "wf_vector v'" "holdings (items v') + mset del + {#} = holdings (items v) + holding p"
    using own_reset_balance[OF _ Reset(4)] assms(2) by auto
  with balance_everything[OF b(2) Reset(3), of ds] assms show ?thesis unfolding Reset(1,2) by (auto dest: in_diffD)
next
  case (Destroy v del v' raw ds)
  then have b: "wf_vector v'" "holdings (items v') + mset del + {#} = holdings (items v) + {#}"
    by (auto simp: own_destroy_def vector_empty_def wf_vector_def)
  with balance_everything[OF b(2), of raw ds] assms show ?thesis unfolding Destroy(1,2) by simp
qed

lemma own_step_inv: "own_step alloc sz s s' \<Longrightarrow> own_inv s \<Longrightarrow> own_inv s'"
proof -
  assume st: "own_step alloc sz s s'" and inv: "own_inv s"
  note e = own_step_everything[OF st] inv[unfolded own_inv_def]
  have "count (everything s') p \<le> 1" for p
    using e(1) inv unfolding own_inv_def
    by (elim conjE disjE exE) (auto dest: mset_subset_eq_count[of _ _ p] simp: not_in_iff intro: order_trans)
  with e show ?thesis by (auto simp: own_inv_def)
qed

lemma own_reachable: "(own_step alloc sz)\<^sup>*\<^sup>* (vector_empty, {#}, []) s \<Longrightarrow> own_inv s"
proof (induction rule: rtranclp_induct)
  case base
  then show ?case by (simp add: own_inv_def vector_empty_def wf_vector_def)
qed (rule own_step_inv)

lemma distinct_count_le: "distinct xs \<longleftrightarrow> (\<forall>p. count (mset xs) p \<le> 1)"
proof -
  have "count (mset xs) p \<le> 1 \<longleftrightarrow> count (mset xs) p = (if p \<in> set xs then 1 else 0)" for p
    using count_greater_zero_iff[of "mset xs" p] by (auto simp: le_Suc_eq count_eq_zero_iff)
  then show ?thesis by (simp add: distinct_count_atmost_1)
qed

text \<open>An object that had one owner and lost it.\<close>

lemma forgotten:
  assumes "holdings xs' + holding p = holdings xs" "distinct (delete_items xs)" "p \<noteq> NULL"
  shows "p \<notin> set xs' \<and> p \<notin> set (delete_items xs')"
proof -
  have "count (holdings xs) p \<le> 1" using assms(2) unfolding distinct_count_le by simp
  then have "p \<notin># holdings xs'" using assms(1,3) by (auto simp: holding_def not_in_iff simp flip: assms(1))
  then show ?thesis using assms(3) by (simp add: holdings_def delete_items_def)
qed

section \<open>Properties\<close>

text \<open>
  C36. However a program uses a vector of \<open>unique_ptr\<close>, growing and shrinking it, erasing, releasing and
  resetting elements and destroying it, no object is deleted twice, an object that has been deleted is
  held neither by the vector nor by the program, and no two elements hold the same object. So
  the destructor of the vector deletes only objects that are alive, each one once.
\<close>

theorem owners_delete_once:
  assumes "(own_step alloc sz)\<^sup>*\<^sup>* (vector_empty, {#}, []) (v, raw, deleted)"
  shows "distinct (deleted @ fst (own_destroy v)) \<and> set deleted \<inter> set_mset raw = {} \<and> set (items v) \<inter> set_mset raw = {}"
proof -
  have inv: "own_inv (v, raw, deleted)" by (rule own_reachable[OF assms])
  obtain rs where rs: "mset rs = raw" using ex_mset by blast
  have "\<forall>p. count (mset (deleted @ delete_items (items v) @ rs)) p \<le> 1"
    using inv by (simp add: own_inv_def rs ac_simps)
  then have "distinct (deleted @ delete_items (items v) @ rs)"
    by (rule distinct_count_le[THEN iffD2])
  moreover have "set (items v) \<inter> set_mset raw = set (delete_items (items v)) \<inter> set rs"
    using inv rs by (auto simp: delete_items_def own_inv_def intro!: gr0I)
  ultimately show ?thesis using rs by (auto simp: own_destroy_def)
qed

text \<open>An instance: two objects pushed, one erased, the vector destroyed.\<close>

lemma own_example:
  "(own_step (\<lambda>_. True) 8)\<^sup>*\<^sup>* (vector_empty, {#}, []) (vector_empty, {#}, [2])"
proof -
  let ?v = "\<lambda>xs n. \<lparr> items = xs @ replicate (8 - length xs) NULL, nitems = n \<rparr>"
  let ?step = "own_step (\<lambda>_. True) 8"
  have g: "grow_loop 8 (Suc 0) 64 = Some 8" by (simp add: grow_loop.simps[of 8 "Suc 0" 64])
  have eight: "replicate 8 NULL = [0, 0, 0, 0, 0, 0, 0, 0]" "replicate 7 NULL = [0, 0, 0, 0, 0, 0, 0]" by (simp_all add: eval_nat_numeral)
  have "?step (vector_empty, {#}, []) (vector_empty, {#1#}, [])" by (rule own_step.New) (simp_all add: vector_empty_def)
  moreover have "own_push_back (\<lambda>_. True) 8 vector_empty 1 = Inr ([], ?v [1] 1)"
    by (simp add: own_push_back_def own_reserve_def vector_empty_def g eight delete_items_def)
  then have "?step (vector_empty, {#1#}, []) (?v [1] 1, {#}, [])"
    using own_step.Push[of 1 "{#1#}" "\<lambda>_. True" 8 vector_empty "[]" "?v [1] 1" "[]"] by (simp add: holding_def)
  moreover have "?step (?v [1] 1, {#}, []) (?v [1] 1, {#2#}, [])" by (rule own_step.New) (simp_all add: holding_def)
  moreover have "own_push_back (\<lambda>_. True) 8 (?v [1] 1) 2 = Inr ([], ?v [1, 2] 2)"
    by (simp add: own_push_back_def own_reserve_def eight) (simp add: eval_nat_numeral)
  then have "?step (?v [1] 1, {#2#}, []) (?v [1, 2] 2, {#}, [])"
    using own_step.Push[of 2 "{#2#}" "\<lambda>_. True" 8 "?v [1] 1" "[]" "?v [1, 2] 2" "[]"] by (simp add: holding_def)
  moreover have "own_erase (?v [1, 2] 2) 0 = Inr ([], ?v [2] 1)"
    by (simp add: own_erase_def move_item_def Let_def) (simp add: eval_nat_numeral)
  then have "?step (?v [1, 2] 2, {#}, []) (?v [2] 1, {#}, [])"
    using own_step.Erase[of "?v [1, 2] 2" 0 "[]" "?v [2] 1" "\<lambda>_. True" 8 "{#}" "[]"] by simp
  moreover have "?step (?v [2] 1, {#}, []) (vector_empty, {#}, [2])"
    using own_step.Destroy[of "?v [2] 1" "[2]" vector_empty "\<lambda>_. True" 8 "{#}" "[]"] by (simp add: own_destroy_def delete_items_def)
  ultimately show ?thesis by (meson rtranclp.rtrancl_into_rtrancl rtranclp.rtrancl_refl)
qed

theorem owners_delete_once_witness:
  "(own_step (\<lambda>_. True) 8)\<^sup>*\<^sup>* (vector_empty, {#}, []) (vector_empty, {#}, [2]) \<and> distinct ([2] @ fst (own_destroy vector_empty))"
  using own_example owners_delete_once[OF own_example] by blast

text \<open>
  C33. Elements that are taken out of a vector are not released. \<open>erase\<close> and \<open>pop_back\<close> overwrite the element
  with an empty one to \<open>release existing item\<close>, but the move assignment of \<open>unique_ptr\<close> forgets the pointer
  that it overwrites: the object is not deleted, the vector holds it no more and its destructor
  will not delete it. \<open>clear\<close> deletes nothing and keeps all objects in the array.
\<close>

theorem owners_forgotten:
  assumes wf: "wf_vector v" and one: "distinct (fst (own_destroy v))"
    and it: "it < nitems v" "contents v ! it = p" "p \<noteq> NULL"
  shows "(\<exists>v'. own_erase v it = Inr ([], v') \<and> contents v' = take it (contents v) @ drop (Suc it) (contents v) \<and>
      p \<notin> set (items v') \<and> p \<notin> set (fst (own_destroy v'))) \<and>
    (Suc it = nitems v \<longrightarrow> (\<exists>v'. own_pop_back v = Inr ([], v') \<and> contents v' = butlast (contents v) \<and>
      p \<notin> set (items v') \<and> p \<notin> set (fst (own_destroy v')))) \<and>
    (\<exists>v'. own_resize alloc sz v 0 = Inr ([], v') \<and> contents v' = [] \<and> fst (own_destroy v') = fst (own_destroy v))"
proof (intro conjI impI)
  have d: "distinct (delete_items (items v))" using one by (simp add: own_destroy_def)
  obtain v1 where r1: "own_erase v it = Inr ([], v1)" using it(1) by (simp add: own_erase_def)
  note b1 = own_erase_balance[OF wf r1]
  with forgotten[OF _ d it(3), of "items v1"] r1 it(2)
  show "\<exists>v'. own_erase v it = Inr ([], v') \<and> contents v' = take it (contents v) @ drop (Suc it) (contents v) \<and>
      p \<notin> set (items v') \<and> p \<notin> set (fst (own_destroy v'))" by (auto simp: own_destroy_def)
  assume last: "Suc it = nitems v"
  obtain v2 where r2: "own_pop_back v = Inr ([], v2)" using last by (simp add: own_pop_back_def)
  have "last (contents v) = p" using last_contents[OF wf] it by (simp add: contents_def flip: last)
  with forgotten[OF _ d it(3), of "items v2"] own_pop_back_balance[OF wf r2] r2
  show "\<exists>v'. own_pop_back v = Inr ([], v') \<and> contents v' = butlast (contents v) \<and>
      p \<notin> set (items v') \<and> p \<notin> set (fst (own_destroy v'))" by (auto simp: own_destroy_def)
next
  show "\<exists>v'. own_resize alloc sz v 0 = Inr ([], v') \<and> contents v' = [] \<and> fst (own_destroy v') = fst (own_destroy v)"
    by (simp add: own_resize_def own_reserve_def contents_def own_destroy_def)
qed

theorem owners_forgotten_witness:
  "\<exists>v'. own_erase \<lparr> items = [65, 66], nitems = 2 \<rparr> 0 = Inr ([], v') \<and> contents v' = [66] \<and>
    65 \<notin> set (fst (own_destroy v'))"
proof -
  let ?v = "\<lparr> items = [65, 66], nitems = 2 \<rparr> :: ptr vector"
  have "wf_vector ?v" "distinct (fst (own_destroy ?v))" "0 < nitems ?v" "contents ?v ! 0 = 65" "(65 :: ptr) \<noteq> NULL"
    by (simp_all add: wf_vector_def own_destroy_def delete_items_def contents_def)
  from owners_forgotten[OF this, of "\<lambda>_. True" 8] show ?thesis by (simp add: contents_def) blast
qed

end
