(* ===== verification/Spec2Isabelle.thy ===== *)
theory Spec2Isabelle
  imports Ctype CString CString_Search CString_Compare Strtox Libc Stdio Stdlib Malloc Time
    Byte_Order Inet Math Unsup Efi_Console Efi_Clock Efi_Start Efi_Pool Efi_Pci Linux_Pci Native Hello
    Cxx_Vector Cxx_Unordered_Map Cxx_Runtime Cxx_String Cxx_Memory
    Cxx_Utility Cxx_Vector_Store Limits Efi_Jump Efi_Cxx
    Heap_Client Cxx_Owners
begin

text \<open>
  \<^bold>\<open>nanolibc\<close>, a small C library for programs that run without an operating system.

  The program has three layers. The library proper (\<open>c/\<close>) implements the usual C headers over eight
  hooks of the runtime below it (\<open>struct nnlc_sysdeps\<close>: allocate, release, two writers, exit, sleep
  and two clocks). A runtime (\<open>efi/start_main.c\<close> over UEFI firmware, \<open>native/start_main.c\<close> over a host
  C library) fills in the hooks, initialises the library and calls \<open>main\<close>. \<open>efi/ggl_pci.c\<close> is a
  client of both: it reads addresses with the library and drives PCI devices through the firmware;
  \<open>efi/ggl_pci_linux.cc\<close> offers the same interface over the files of a Linux system. \<open>cxx/\<close> adds a few
  C++ classes on top of the library's heap.

  \<^bold>\<open>The model.\<close> The target is 64-bit x86. Pointers are numbers, memory is a partial map from addresses
  to bytes, and a function that makes an access outside the map, or never returns, has the value
  \<open>None\<close>. Machine integers are words wherever they may wrap around or are combined bit by bit, and
  integers where the code keeps them small; a conversion that the code makes is written out. The
  runtime's own state is a type parameter \<open>'w\<close>, and the hooks are functions on it, so that every
  theorem about the library holds over every runtime with the stated contract. Operations
  that can reach \<open>exit\<close> have an \<open>outcome\<close>: a value, an abort, an exit with a status, an
  endless loop, or undefined behaviour.

  \<^bold>\<open>The theories.\<close>
  \<^item> \<open>Prelude\<close>: integer types, memory, blocks (\<open>load\<close>, \<open>store\<close>, \<open>mapped\<close>, \<open>disjnt\<close>) and strings (\<open>cstr\<close>).
  \<^item> \<open>Ctype\<close>: the table of \<open>c/ctype.c\<close> and the macros of \<open>c/include/ctype.h\<close>, shown to be the ASCII
    classes.
  \<^item> \<open>CString\<close>: the functions of \<open>c/string.c\<close>, one definition each with one for each loop, and their
    exact behaviour on blocks and strings. \<open>CString_Search\<close>: \<open>strstr\<close>, and \<open>strtok_r\<close> as its callers
    iterate it. \<open>CString_Compare\<close>: \<open>c/strings.c\<close> and the orders that the comparisons decide, from a
    locale of comparators interpreted for all five.
  \<^item> \<open>Strtox\<close>: the template \<open>c/strtox.c\<close> with its 64-bit accumulator, its four instances, and their value
    as a saturated mathematical number (\<open>scan_numeral\<close>, \<open>saturate_signed\<close>, \<open>saturate_unsigned\<close>).
  \<^item> \<open>Libc\<close>: \<open>c/libc.h\<close>, \<open>c/libc_internals.h\<close> and \<open>c/libc.c\<close>: the hooks, the streams, the initialisation,
    and \<open>stream_writer\<close>, the contract of a writer.
  \<^item> \<open>Stdio\<close>: \<open>c/stdio.c\<close>. The formatter of a third-party library is a parameter that yields the
    characters it puts; the three callbacks are instances of one locale (\<open>putc_sink\<close>) with an abstraction
    relation between a callback's state and the characters it has received.
  \<^item> \<open>Stdlib\<close>: \<open>exit\<close>, \<open>abort\<close>, sleeping, assertions (\<open>c/assert.c\<close>) and \<open>write\<close> (\<open>c/unistd.c\<close>).
  \<^item> \<open>Malloc\<close>: \<open>c/malloc.c\<close> with \<open>strdup\<close> and \<open>strndup\<close>. \<open>heap_inv\<close> says that every live block of the
    runtime holds at most one block of the library with an intact header; every operation keeps it.
    The locale \<open>c_heap\<close> is the contract of a heap, interpreted for these operations.
  \<^item> \<open>Heap_Client\<close>: any program that calls the heap and reads and writes its blocks. \<open>heap_spec\<close> specifies the
    heap as a map from addresses to contents, and what each call may answer; \<open>heap_rel\<close> relates it to the
    memory. The locale \<open>simulation\<close> lifts the refinement of single calls to runs.
  \<^item> \<open>Time\<close>: \<open>c/time.c\<close>, the arithmetic of \<open>c/include/sys/time.h\<close> and the warnings of
    \<open>c/nostd/google_warn.h\<close>.
  \<^item> \<open>Efi_Console\<close>, \<open>Efi_Clock\<close>, \<open>Efi_Start\<close>: \<open>efi/start_main.c\<close>. The console writers satisfy the library's
    contract of a writer on text without NULs, so that the properties of \<open>Stdio\<close> hold on the console;
    the clock is compared with a calendar counted day by day; the start function with its arguments,
    its non-local exit (\<open>setjmp\<close> and \<open>longjmp\<close> as an outcome) and its status.
    \<open>Efi_Jump\<close> has the frames and the one jump buffer of \<open>efi/gnu_efi_crt.h\<close> explicitly, in a machine that makes one call,
    return or jump at a time; a simulation (\<open>runs_as\<close>) shows when the outcomes are right, and what an exit does
    when they are not. \<open>Efi_Pool\<close>: a pool of the firmware that meets the allocation contract is a heap of the library.
  \<^item> \<open>Efi_Pci\<close>: \<open>efi/ggl_pci.c\<close>. The firmware is an oracle that may answer each call according to the
    whole sequence of calls before it, so that the properties hold for any firmware behaviour.
  \<^item> \<open>Linux_Pci\<close>: \<open>efi/ggl_pci_linux.cc\<close>, over an oracle of system calls in the same style: which BAR is
    mapped where, which descriptors and mappings are held (as multisets computed from the calls), the
    bounds of register accesses, and polling until a deadline.
  \<^item> \<open>Native\<close>: \<open>native/start_main.c\<close>, the hooks over a host C library; what the library's functions are there.
  \<^item> \<open>Hello\<close>: \<open>example/hello.c\<close> on EFI: the composition of start, arguments, heap, \<open>printf\<close> and console.
  \<^item> \<open>Byte_Order\<close>: words in memory, \<open>c/include/endian.h\<close> and the byte order functions of
    \<open>c/include/netinet/in.h\<close>. \<open>Inet\<close>: \<open>c/inet.c\<close>. \<open>Math\<close>: the inline functions of \<open>c/include/math.h\<close>. \<open>Unsup\<close>: every
    function of \<open>c/unsup.c\<close>, with \<open>errno\<close> and the flags that let each one warn once.
  \<^item> \<open>Cxx_Vector\<close> and \<open>Cxx_Unordered_Map\<close>: \<open>cxx/include/vector\<close>, \<open>cxx/include/unordered_map\<close> and
    \<open>cxx/include/functional\<close>. The vector refines lists; the hash map keeps its chains (\<open>chains\<close>, \<open>wf_map\<close>) and
    refines finite maps, through the locale \<open>dictionary\<close> that states what a client relies on.
    \<open>Cxx_Vector_Store\<close>: the vector with its arrays in a store, where references and releases are visible; its
    values are the vectors of \<open>Cxx_Vector\<close>. \<open>Cxx_Owners\<close>: the vector of \<open>unique_ptr\<close>, whose elements own
    objects; multisets balance what is held, deleted and forgotten by each operation.
  \<^item> \<open>Cxx_Runtime\<close>: \<open>cxx/cxxrt.cc\<close>: \<open>operator new\<close> and \<open>delete\<close> over the heap, pure virtual calls, \<open>std::abort\<close>,
    and the \<open>sort\<close> of \<open>cxx/noimpl/algorithm\<close> that ends the program.
    \<open>Cxx_String\<close>: \<open>cxx/include/string\<close> over them and over the memory functions. String objects live in a
    store, so that an operation may get the same object twice; \<open>holds\<close> relates an object to its bytes,
    and \<open>updated\<close> says that an operation gave one object new contents and left all others alone.
    \<open>Cxx_Memory\<close>: \<open>cxx/include/memory\<close>, as a step relation of programs that use \<open>unique_ptr\<close>, whose
    invariant gives each live block one owner (\<open>up_inv\<close>); it rests on \<open>exact_heap\<close>, the heap contract that
    also says which blocks are not live. \<open>Cxx_Utility\<close>: \<open>cxx/include/optional\<close> and \<open>cxx/include/utility\<close>.
    \<open>Efi_Cxx\<close> puts strings, heap, stream and console together: the pool makes the heap that the strings'
    theorems need, and no string operation touches the console (the locale \<open>silent_heap\<close>).
  \<^item> \<open>Limits\<close>: the constants of \<open>c/include/limits.h\<close> and \<open>c/include/stdint.h\<close> as typed C expressions, and the
    formats of \<open>c/include/inttypes.h\<close>.

  \<^bold>\<open>Loops.\<close> Loops that count are structural recursions or have a measure. Loops that stop at a
  byte are \<open>partial_function (option)\<close>; that they return is part of what is proved about them. No fuel
  is used.

  \<^bold>\<open>Contracts of code that is not in the repository.\<close> \<open>runtime_heap\<close> is what the allocation hooks promise
  (fresh memory, release of exactly the given block), with a bump allocator as an instance. The
  formatter is arbitrary. The firmware's services, the system calls and the host C library are arbitrary
  functions.

  \<^bold>\<open>Bounds.\<close> The hash map's theorems hold for up to 2^60 insertions, so that its table's size stays below
  the 2^64 of a \<open>size_t\<close>; the vector's for sizes whose bytes fit in 2^63, beyond which its doubling loop
  never ends (\<open>grow_loop\<close>). Both are far beyond any memory.

  \<^bold>\<open>Not modelled.\<close> Destructors of the elements of C++ containers, other than those of \<open>unique_ptr\<close> in
  vectors; headers with declarations only; the empty coverage hooks of the runtimes, which are compiled
  for coverage builds only; tests.
\<close>

end
